(* ===== verification/Win_Prelude.thy ===== *)
theory Win_Prelude
  imports Main "HOL-Library.Word"
begin

text \<open>
  The vocabulary shared by the component theories: faults of C code as values of a sum type,
  NUL-terminated strings in buffers of a fixed size, wide-character literals, the printf
  conversions the code uses, the for-loop-with-break idiom of the command tables, and the
  generic state-machine interface whose invariant lemma the components reuse.
\<close>

named_theorems model_defs \<open>definitions unfolded when a whole operation is evaluated\<close>

section \<open>Faults\<close>

text \<open>
  What a C function can do besides returning: write or read outside a buffer, follow a null
  pointer, stop in \<open>assert\<close>, wait for an event nothing signals, touch a block it has given back, or
  give back what is not one. \<open>Inl\<close> is the fault, \<open>Inr\<close> the returned value.
\<close>

datatype fault = Buffer_Overflow | Out_Of_Bounds | Null_Deref | Assert_Failed | Waits_Forever | Use_After_Free | Bad_Free

type_synonym 'a res = "fault + 'a"

definition bindr :: "'a res \<Rightarrow> ('a \<Rightarrow> 'b res) \<Rightarrow> 'b res" where
  "bindr m f = (case m of Inl e \<Rightarrow> Inl e | Inr x \<Rightarrow> f x)"

lemma bindr_simps [simp]:
  "bindr (Inl e) f = Inl e"
  "bindr (Inr x) f = f x"
  by (simp_all add: bindr_def)

lemma bindr_eq_Inr: "bindr m f = Inr y \<longleftrightarrow> (\<exists>x. m = Inr x \<and> f x = Inr y)"
  by (cases m) simp_all

lemma bindr_eq_Inl: "bindr m f = Inl e \<longleftrightarrow> m = Inl e \<or> (\<exists>x. m = Inr x \<and> f x = Inl e)"
  by (cases m) simp_all

definition c_assert :: "bool \<Rightarrow> unit res" where
  "c_assert b = (if b then Inr () else Inl Assert_Failed)"

lemma c_assert_simps [simp]:
  "c_assert True = Inr ()"
  "c_assert False = Inl Assert_Failed"
  by (simp_all add: c_assert_def)

section \<open>Strings in fixed buffers\<close>

text \<open>
  A C string is the list of its characters without the terminating NUL. A buffer of \<open>n\<close>
  elements holds it when there is room for the NUL as well. \<open>copy_into\<close> is
  \<open>strcpy\<close>, \<open>lstrcpyA\<close>, \<open>lstrcpyW\<close> and \<open>sprintf\<close> into such a buffer: writing past its
  end is a fault. \<open>lstrcpyn\<close> copies at most \<open>n - 1\<close> characters.
\<close>

definition fits :: "nat \<Rightarrow> 'a list \<Rightarrow> bool" where
  "fits n s \<longleftrightarrow> length s < n"

definition copy_into :: "nat \<Rightarrow> 'a list \<Rightarrow> 'a list res" where
  "copy_into n s = (if fits n s then Inr s else Inl Buffer_Overflow)"

definition lstrcpyn :: "nat \<Rightarrow> 'a list \<Rightarrow> 'a list" where
  "lstrcpyn n s = take (n - 1) s"

lemma copy_into_fits [simp]: "length s < n \<Longrightarrow> copy_into n s = Inr s"
  by (simp add: copy_into_def fits_def)

lemma copy_into_over [simp]: "n \<le> length s \<Longrightarrow> copy_into n s = Inl Buffer_Overflow"
  by (simp add: copy_into_def fits_def)

lemma copy_into_Inr [simp]: "copy_into n s = Inr t \<longleftrightarrow> length s < n \<and> t = s"
  by (auto simp: copy_into_def fits_def)

lemma copy_into_Inl [simp]: "copy_into n s = Inl e \<longleftrightarrow> n \<le> length s \<and> e = Buffer_Overflow"
  by (auto simp: copy_into_def fits_def)

lemma fits_lstrcpyn: "0 < n \<Longrightarrow> fits n (lstrcpyn n s)"
  by (auto simp: fits_def lstrcpyn_def)

lemma lstrcpyn_Nil [simp]: "lstrcpyn n [] = []"
  by (simp add: lstrcpyn_def)

lemma lstrcpyn_id: "fits n s \<Longrightarrow> lstrcpyn n s = s"
  by (simp add: fits_def lstrcpyn_def)

abbreviation MAX_PATH :: nat where
  "MAX_PATH \<equiv> 260"

section \<open>Wide characters\<close>

type_synonym wchar = "16 word"
type_synonym wstr = "wchar list"

text \<open>\<open>L s\<close> is the wide literal \<open>L"s"\<close> of the source.\<close>

definition L :: "string \<Rightarrow> wstr" where
  "L s = map of_char s"

lemma length_L [simp]: "length (L s) = length s"
  by (simp add: L_def)

lemma L_append: "L (s @ t) = L s @ L t"
  by (simp add: L_def)

lemma L_Nil [simp]: "L [] = []"
  by (simp add: L_def)

lemma L_eq_Nil [simp]: "L s = [] \<longleftrightarrow> s = []"
  by (simp add: L_def)

lemma of_char_word16_inj: "inj (of_char :: char \<Rightarrow> 16 word)"
proof (rule injI)
  fix c d :: char
  assume eq: "(of_char c :: 16 word) = of_char d"
  have "(of_nat (of_char c) :: 16 word) = of_nat (of_char d)"
    by (simp only: of_nat_of_char eq)
  then have "(of_char c :: nat) mod 2 ^ 16 = of_char d mod 2 ^ 16"
    by (simp add: word_of_nat_eq_iff take_bit_eq_mod)
  moreover have "(of_char c :: nat) < 2 ^ 16" "(of_char d :: nat) < 2 ^ 16"
    by (rule less_trans [OF nat_of_char_less_256], simp)+
  ultimately show "c = d" by simp
qed

lemma L_inject [simp]: "L s = L t \<longleftrightarrow> s = t"
  using inj_map_eq_map [OF of_char_word16_inj] by (simp add: L_def)

section \<open>printf conversions\<close>

definition digit_char :: "nat \<Rightarrow> char" where
  "digit_char d = char_of (48 + d)"

fun show_nat :: "nat \<Rightarrow> string" where
  "show_nat n = (if n < 10 then [digit_char n] else show_nat (n div 10) @ [digit_char (n mod 10)])"

declare show_nat.simps [simp del]

text \<open>\<open>%d\<close>\<close>

definition show_int :: "int \<Rightarrow> string" where
  "show_int i = (if i < 0 then CHR ''-'' # show_nat (nat (- i)) else show_nat (nat i))"

lemma show_nat_bound: "n < 10 ^ Suc k \<Longrightarrow> length (show_nat n) \<le> Suc k"
proof (induction k arbitrary: n)
  case 0
  then show ?case by (simp add: show_nat.simps)
next
  case (Suc k)
  show ?case
  proof (cases "n < 10")
    case True
    then show ?thesis by (simp add: show_nat.simps)
  next
    case False
    have "n div 10 < 10 ^ Suc k" using Suc.prems by (simp add: less_mult_imp_div_less)
    then have "length (show_nat (n div 10)) \<le> Suc k" by (rule Suc.IH)
    with False show ?thesis by (simp add: show_nat.simps [of n])
  qed
qed

text \<open>A 32-bit \<open>%d\<close> prints at most eleven characters.\<close>

lemma length_show_int: "- (2 ^ 31) \<le> i \<Longrightarrow> i < 2 ^ 31 \<Longrightarrow> length (show_int i) \<le> 11"
  using show_nat_bound [of "nat i" 9] show_nat_bound [of "nat (- i)" 9]
  by (cases "i < 0") (auto simp: show_int_def nat_less_iff)

lemma digit_char_value: "d < 10 \<Longrightarrow> of_char (digit_char d) = 48 + d"
  by (simp add: digit_char_def)

text \<open>
  The decimal prefix of a string, as \<open>strtol (s, NULL, 10)\<close> reads it: the value accumulated so
  far and the digits that follow.
\<close>

definition is_digit :: "char \<Rightarrow> bool" where
  "is_digit c \<longleftrightarrow> 48 \<le> (of_char c :: nat) \<and> (of_char c :: nat) \<le> 57"

definition digit_val :: "char \<Rightarrow> nat" where
  "digit_val c = of_char c - 48"

fun read_nat :: "nat \<Rightarrow> string \<Rightarrow> nat" where
  "read_nat acc [] = acc"
| "read_nat acc (c # cs) = (if is_digit c then read_nat (acc * 10 + digit_val c) cs else acc)"

lemma is_digit_char [simp]: "d < 10 \<Longrightarrow> is_digit (digit_char d)"
  by (simp add: is_digit_def digit_char_value)

lemma digit_val_char [simp]: "d < 10 \<Longrightarrow> digit_val (digit_char d) = d"
  by (simp add: digit_val_def digit_char_value)

lemma show_nat_digits: "c \<in> set (show_nat n) \<Longrightarrow> is_digit c"
proof (induction n rule: show_nat.induct)
  case (1 n)
  then show ?case
    by (cases "n < 10") (auto simp: show_nat.simps [of n])
qed

lemma read_nat_append:
  "\<forall>c \<in> set s. is_digit c \<Longrightarrow> read_nat acc (s @ t) = read_nat (read_nat acc s) t"
  by (induction s arbitrary: acc) auto

lemma read_show_nat: "read_nat 0 (show_nat n) = n"
proof (induction n rule: show_nat.induct)
  case (1 n)
  then show ?case
    by (cases "n < 10")
      (auto simp: show_nat.simps [of n] read_nat_append show_nat_digits)
qed

section \<open>Loops over a table that stop at the first failure\<close>

text \<open>
  The idiom \<open>for (i = 0; i < ARRAYSIZE(T); ++i) { result = body(T[i]); if (result != 0) break; }\<close>
  with \<open>result = 0\<close> before the loop, over a state \<open>'w\<close> the body changes; and
  \<open>result = f(); if (result != 0) result = g();\<close>
\<close>

fun for_break :: "('x \<Rightarrow> 'w \<Rightarrow> int \<times> 'w) \<Rightarrow> 'x list \<Rightarrow> 'w \<Rightarrow> int \<times> 'w" where
  "for_break body [] w = (0, w)"
| "for_break body (x # xs) w =
     (case body x w of (r, w') \<Rightarrow> if r \<noteq> 0 then (r, w') else for_break body xs w')"

definition or_else :: "('w \<Rightarrow> int \<times> 'w) \<Rightarrow> ('w \<Rightarrow> int \<times> 'w) \<Rightarrow> 'w \<Rightarrow> int \<times> 'w" where
  "or_else f g w = (case f w of (r, w') \<Rightarrow> if r \<noteq> 0 then g w' else (r, w'))"

text \<open>
  A loop that returns 0 established its goal for every entry, when the body establishes it for
  one entry and keeps it for the others; whatever it returns, it keeps what the body keeps.
\<close>

lemma for_break_keeps:
  assumes "\<And>x w. x \<in> set xs \<Longrightarrow> P w \<Longrightarrow> P (snd (body x w))" and "P w"
  shows "P (snd (for_break body xs w))"
  using assms by (induction xs arbitrary: w) (force split: prod.split)+

lemma for_break_all:
  assumes est: "\<And>x w. x \<in> set xs \<Longrightarrow> fst (body x w) = 0 \<Longrightarrow> Q x (snd (body x w))"
    and keep: "\<And>x y w. x \<in> set xs \<Longrightarrow> y \<in> set xs \<Longrightarrow> Q x w \<Longrightarrow> Q x (snd (body y w))"
    and ok: "fst (for_break body xs w) = 0"
    and x: "x \<in> set xs"
  shows "Q x (snd (for_break body xs w))"
  using assms
proof (induction xs arbitrary: w)
  case Nil
  then show ?case by simp
next
  case (Cons y ys)
  obtain r w' where step: "body y w = (r, w')" by (cases "body y w")
  with Cons.prems(3) have r: "r = 0" and rest: "fst (for_break body ys w') = 0"
    by (auto split: if_splits)
  have loop: "snd (for_break body (y # ys) w) = snd (for_break body ys w')"
    using step r by simp
  show ?case
  proof (cases "x \<in> set ys")
    case True
    have "Q x (snd (for_break body ys w'))"
      by (rule Cons.IH) (use Cons.prems rest True in auto)
    then show ?thesis by (simp only: loop)
  next
    case False
    with Cons.prems(4) have xy: "x = y" by simp
    have "Q x w'" using Cons.prems(1) [of y w] step r xy by simp
    then have "Q x (snd (for_break body ys w'))"
      by (intro for_break_keeps [where P = "Q x"]) (use Cons.prems(2,4) in auto)
    then show ?thesis by (simp only: loop)
  qed
qed

lemma for_break_zero: "(\<And>x w. x \<in> set xs \<Longrightarrow> fst (body x w) = 0) \<Longrightarrow> fst (for_break body xs w) = 0"
proof (induction xs arbitrary: w)
  case (Cons x xs)
  obtain r w' where step: "body x w = (r, w')" by (cases "body x w")
  from Cons.prems [of x w] have "r = 0" using step by simp
  moreover have "fst (for_break body xs w') = 0" by (rule Cons.IH) (simp add: Cons.prems)
  ultimately show ?case using step by simp
qed simp

section \<open>State machines\<close>

text \<open>
  The interface several components share: a transition function over events and an invariant
  every transition keeps. Its client lemmas hold for whole runs.
\<close>

locale event_machine =
  fixes step :: "'s \<Rightarrow> 'e \<Rightarrow> 's" and inv :: "'s \<Rightarrow> bool"
  assumes step_inv: "inv s \<Longrightarrow> inv (step s e)"
begin

lemma run_inv: "inv s \<Longrightarrow> inv (foldl step s es)"
  by (induction es arbitrary: s) (simp_all add: step_inv)

lemma prefix_inv: "inv s \<Longrightarrow> inv (foldl step s (take n es))"
  by (rule run_inv)

end

end
