(* ===== verification/Cmd_Runner.thy ===== *)
theory Cmd_Runner
  imports Win_Prelude "HOL-Library.Multiset"
begin

text \<open>
  The command runner of the route service: \<open>MyCreatePipeEx\<close> (create_pipe_ex.c),
  \<open>ReadFileTimeout\<close> (read_file_timeout.c), \<open>run_command\<close> and
  \<open>run_command_wrapper\<close> (win_cmd_wrapper.c). The answers of Win32 calls are records of functions
  and values given to the operations. The ledger records, as ghost state, which kernel handles the
  process holds, so that leaks can be stated, next to the last error and the serial number the
  pipe names use.
\<close>

unbundle bit_operations_syntax

section \<open>Handles\<close>

type_synonym HANDLE = int

abbreviation (input) NULL_HANDLE :: HANDLE where
  "NULL_HANDLE \<equiv> 0"

abbreviation (input) INVALID_HANDLE_VALUE :: HANDLE where
  "INVALID_HANDLE_VALUE \<equiv> - 1"

definition real_handle :: "HANDLE \<Rightarrow> bool" where
  "real_handle h \<longleftrightarrow> h \<noteq> NULL_HANDLE \<and> h \<noteq> INVALID_HANDLE_VALUE"

record ledger =
  opened :: "HANDLE list"
  last_error :: "32 word"
  PipeSerialNumber :: "32 word"

definition open_handle :: "HANDLE \<Rightarrow> ledger \<Rightarrow> ledger" where
  "open_handle h s = (if real_handle h then s\<lparr>opened := h # opened s\<rparr> else s)"

definition CloseHandle :: "HANDLE \<Rightarrow> ledger \<Rightarrow> ledger" where
  "CloseHandle h s = (if real_handle h then s\<lparr>opened := remove1 h (opened s)\<rparr> else s)"

definition held :: "ledger \<Rightarrow> HANDLE multiset" where
  "held s = mset (opened s)"

definition hmset :: "HANDLE \<Rightarrow> HANDLE multiset" where
  "hmset h = (if real_handle h then {#h#} else {#})"

lemma held_open [simp]: "held (open_handle h s) = hmset h + held s"
  by (simp add: held_def open_handle_def hmset_def)

lemma held_close [simp]: "held (CloseHandle h s) = held s - hmset h"
  by (simp add: held_def CloseHandle_def hmset_def)

lemma held_update [simp]:
  "held (s\<lparr>last_error := e\<rparr>) = held s" "held (s\<lparr>PipeSerialNumber := n\<rparr>) = held s"
  by (simp_all add: held_def)

section \<open>create_pipe_ex.c\<close>

definition hex_char :: "nat \<Rightarrow> char" where
  "hex_char d = (if d < 10 then char_of (48 + d) else char_of (87 + d))"

fun hex_digits :: "nat \<Rightarrow> nat \<Rightarrow> string" where
  "hex_digits 0 v = []"
| "hex_digits (Suc n) v = hex_digits n (v div 16) @ [hex_char (v mod 16)]"

text \<open>\<open>%08x\<close> of a 32-bit value\<close>

definition hex8 :: "32 word \<Rightarrow> string" where
  "hex8 w = hex_digits 8 (unat w)"

definition FILE_FLAG_OVERLAPPED :: "32 word" where
  "FILE_FLAG_OVERLAPPED = 0x40000000"

definition PIPE_ACCESS_INBOUND :: "32 word" where
  "PIPE_ACCESS_INBOUND = 1"

definition FILE_ATTRIBUTE_NORMAL :: "32 word" where
  "FILE_ATTRIBUTE_NORMAL = 0x80"

definition ERROR_INVALID_PARAMETER :: "32 word" where
  "ERROR_INVALID_PARAMETER = 87"

text \<open>
  \<open>CreateNamedPipeA name openmode size\<close> and \<open>CreateFileA name attributes\<close> (with the error
  \<open>GetLastError\<close> reports) answer for the system.
\<close>

record pipe_api =
  CreateNamedPipeA :: "string \<Rightarrow> 32 word \<Rightarrow> 32 word \<Rightarrow> HANDLE"
  CreateFileA :: "string \<Rightarrow> 32 word \<Rightarrow> HANDLE \<times> 32 word"
  GetCurrentProcessId :: "32 word"

definition backslash :: char where
  "backslash = CHR 0x5C"

definition anon_pipe_name :: "32 word \<Rightarrow> 32 word \<Rightarrow> string" where
  "anon_pipe_name pid serial =
     [backslash, backslash, CHR ''.'', backslash] @ ''Pipe'' @ [backslash] @ ''RemoteExeAnon.''
       @ hex8 pid @ ''.'' @ hex8 serial"

definition MyCreatePipeEx ::
  "pipe_api \<Rightarrow> 32 word \<Rightarrow> 32 word \<Rightarrow> 32 word \<Rightarrow> ledger \<Rightarrow> (HANDLE \<times> HANDLE) option \<times> ledger" where
  "MyCreatePipeEx api nSize dwReadMode dwWriteMode s =
     (if (dwReadMode OR dwWriteMode) AND NOT FILE_FLAG_OVERLAPPED \<noteq> 0
      then (None, s\<lparr>last_error := ERROR_INVALID_PARAMETER\<rparr>)
      else
        let size = (if nSize = 0 then 4096 else nSize);
            s1 = s\<lparr>PipeSerialNumber := PipeSerialNumber s + 1\<rparr>;
            name = anon_pipe_name (GetCurrentProcessId api) (PipeSerialNumber s1);
            rd = CreateNamedPipeA api name (PIPE_ACCESS_INBOUND OR dwReadMode) size;
            s2 = open_handle rd s1
        in if rd = NULL_HANDLE then (None, s2)
           else (case CreateFileA api name (FILE_ATTRIBUTE_NORMAL OR dwWriteMode) of (wr, dwError) \<Rightarrow>
             let s3 = open_handle wr s2
             in if wr = INVALID_HANDLE_VALUE
                then (None, (CloseHandle rd s3)\<lparr>last_error := dwError\<rparr>)
                else (Some (rd, wr), s3)))"

lemma length_hex_digits [simp]: "length (hex_digits n v) = n"
  by (induction n arbitrary: v) simp_all

text \<open>The name fits in \<open>PipeNameBuffer[MAX_PATH]\<close>.\<close>

lemma anon_pipe_name_fits: "fits MAX_PATH (anon_pipe_name pid serial)"
  by (simp add: fits_def anon_pipe_name_def hex8_def)

lemma MyCreatePipeEx_held:
  "held (snd (MyCreatePipeEx api n r w s)) =
     (case fst (MyCreatePipeEx api n r w s) of
        None \<Rightarrow> held s | Some (rd, wr) \<Rightarrow> hmset rd + hmset wr + held s)"
  by (auto simp: MyCreatePipeEx_def Let_def hmset_def real_handle_def split: prod.split option.split)

section \<open>read_file_timeout.c\<close>

definition ERROR_IO_PENDING :: "32 word" where
  "ERROR_IO_PENDING = 997"

text \<open>
  A BOOL answer comes with the error \<open>GetLastError\<close> reports after it. The third answer is
  \<open>None\<close> where Kernel32.dll does not export \<open>GetOverlappedResultEx\<close>.
\<close>

record read_api =
  CreateEvent_answer :: "HANDLE \<times> 32 word"
  ReadFile_answer :: "bool \<times> 32 word"
  GetOverlappedResultEx_answer :: "(bool \<times> 32 word) option"
  GetOverlappedResult_answer :: bool

definition pending_result :: "read_api \<Rightarrow> 32 word" where
  "pending_result api =
     (case GetOverlappedResultEx_answer api of
        Some (ok, err) \<Rightarrow> (if ok then 0 else err)
      | None \<Rightarrow> of_bool (GetOverlappedResult_answer api))"

definition ReadFileTimeout :: "read_api \<Rightarrow> ledger \<Rightarrow> 32 word \<times> ledger" where
  "ReadFileTimeout api s =
     (case CreateEvent_answer api of (hEvent, err) \<Rightarrow>
        if hEvent \<noteq> NULL_HANDLE
        then
          let s1 = open_handle hEvent s;
              dwError = (case ReadFile_answer api of (ok, e) \<Rightarrow> if ok then 0 else e);
              dwError = (if dwError = ERROR_IO_PENDING then pending_result api else dwError)
          in (dwError, CloseHandle hEvent s1)
        else (err, s))"

lemma ReadFileTimeout_held [simp]: "held (snd (ReadFileTimeout api s)) = held s"
  by (simp add: ReadFileTimeout_def Let_def split: prod.split)

section \<open>win_cmd_wrapper.c\<close>

abbreviation wch :: "char \<Rightarrow> wchar" where
  "wch c \<equiv> of_char c"

datatype fmt_arg = S wstr | D int

text \<open>The \<open>%s\<close> and \<open>%d\<close> conversions of \<open>vswprintf\<close>, the only ones the formats use.\<close>

fun vformat :: "wstr \<Rightarrow> fmt_arg list \<Rightarrow> wstr" where
  "vformat [] args = []"
| "vformat [c] args = [c]"
| "vformat (c # d # fs) args =
     (if c = wch CHR ''%'' \<and> d = wch CHR ''s'' then
        (case args of S x # as \<Rightarrow> x @ vformat fs as | _ \<Rightarrow> vformat fs args)
      else if c = wch CHR ''%'' \<and> d = wch CHR ''d'' then
        (case args of D i # as \<Rightarrow> L (show_int i) @ vformat fs as | _ \<Rightarrow> vformat fs args)
      else c # vformat (d # fs) args)"

text \<open>
  What the system answers to one \<open>run_command\<close>: the pipe, the attribute change, the process
  (its process and thread handle, or failure), its exit code, and what the read put in \<open>chBuf\<close>.
\<close>

record cmd_api =
  pipe :: pipe_api
  SetHandleInformation_answer :: bool
  CreateProcessW :: "wstr \<Rightarrow> (HANDLE \<times> HANDLE) option"
  GetExitCodeProcess_answer :: "32 word"
  reader :: read_api
  child_output :: string

definition command_line :: "wstr \<Rightarrow> wstr \<Rightarrow> wstr" where
  "command_line cmd args =
     (if cmd \<noteq> [] \<and> hd cmd = wch (CHR 0x22) then cmd @ L '' '' @ args
      else [wch (CHR 0x22)] @ cmd @ [wch (CHR 0x22)] @ L '' '' @ args)"

definition lstrlenA :: "string \<Rightarrow> nat" where
  "lstrlenA s = length (takeWhile (\<lambda>c. c \<noteq> CHR 0x00) s)"

definition run_command :: "cmd_api \<Rightarrow> wstr \<Rightarrow> wstr \<Rightarrow> ledger \<Rightarrow> int \<times> ledger" where
  "run_command api cmd args s =
     (case MyCreatePipeEx (pipe api) 0 FILE_FLAG_OVERLAPPED 0 s of
        (None, s1) \<Rightarrow> (- 1, s1)
      | (Some (rd, wr), s1) \<Rightarrow>
          if \<not> SetHandleInformation_answer api then (- 1, s1)
          else (case CreateProcessW api (command_line cmd args) of
            None \<Rightarrow> (- 1, s1)
          | Some (hProcess, hThread) \<Rightarrow>
              let s2 = open_handle hThread (open_handle hProcess s1);
                  exit_code = GetExitCodeProcess_answer api;
                  s3 = snd (ReadFileTimeout (reader api) s2);
                  s4 = CloseHandle hThread (CloseHandle hProcess s3);
                  s5 = CloseHandle rd (CloseHandle wr s4);
                  exit_code = (if exit_code = 0 \<and> lstrlenA (child_output api) \<noteq> 0 then - 1
                               else exit_code)
              in (sint exit_code, s5)))"

definition run_command_wrapper ::
  "cmd_api \<Rightarrow> wstr \<Rightarrow> wstr \<Rightarrow> fmt_arg list \<Rightarrow> ledger \<Rightarrow> int \<times> ledger" where
  "run_command_wrapper api cmd argv_fmt args s =
     run_command api cmd (take (MAX_PATH * 2 - 1) (vformat argv_fmt args)) s"

text \<open>\<open>swprintf\<close> never runs out of the \<open>lstrlenW(cmd) + lstrlenW(args) + 10\<close> elements.\<close>

lemma command_line_fits: "fits (length cmd + length args + 10) (command_line cmd args)"
  by (simp add: fits_def command_line_def)

definition process_started :: "cmd_api \<Rightarrow> wstr \<Rightarrow> wstr \<Rightarrow> ledger \<Rightarrow> bool" where
  "process_started api cmd args s \<longleftrightarrow>
     fst (MyCreatePipeEx (pipe api) 0 FILE_FLAG_OVERLAPPED 0 s) \<noteq> None
     \<and> SetHandleInformation_answer api \<and> CreateProcessW api (command_line cmd args) \<noteq> None"

section \<open>Properties\<close>

lemma run_command_not_started:
  "\<not> process_started api cmd args s \<Longrightarrow> fst (run_command api cmd args s) = - 1"
  by (auto simp: run_command_def process_started_def split: prod.split option.split)

lemma run_command_started:
  "process_started api cmd args s \<Longrightarrow>
     fst (run_command api cmd args s) =
       (if GetExitCodeProcess_answer api = 0 \<and> lstrlenA (child_output api) \<noteq> 0 then - 1
        else sint (GetExitCodeProcess_answer api))"
  by (auto simp: run_command_def process_started_def Let_def split: prod.splits option.splits)

lemma lstrlenA_zero: "lstrlenA s = 0 \<longleftrightarrow> s = [] \<or> hd s = CHR 0x00"
  by (cases s) (auto simp: lstrlenA_def)

text \<open>
  A command counts as successful exactly when its process could be started, exited with 0 and
  said nothing on its error stream.
\<close>

theorem run_command_success_iff:
  "fst (run_command api cmd args s) = 0 \<longleftrightarrow>
     process_started api cmd args s \<and> GetExitCodeProcess_answer api = 0
     \<and> (child_output api = [] \<or> hd (child_output api) = CHR 0x00)"
proof (cases "process_started api cmd args s")
  case True
  then show ?thesis
    by (auto simp: run_command_started lstrlenA_zero signed_eq_0_iff)
next
  case False
  then show ?thesis by (simp add: run_command_not_started)
qed

lemma MyCreatePipeEx_SomeD:
  "MyCreatePipeEx api n r w s = (Some (rd, wr), s1) \<Longrightarrow> held s1 = hmset rd + hmset wr + held s"
  using MyCreatePipeEx_held [of api n r w s] by simp

lemma MyCreatePipeEx_NoneD:
  "MyCreatePipeEx api n r w s = (None, s1) \<Longrightarrow> held s1 = held s"
  using MyCreatePipeEx_held [of api n r w s] by simp

text \<open>
  A command that was started gives back every handle it took; a command that could not be
  started keeps both ends of its pipe for ever.
\<close>

theorem run_command_handles:
  "held (snd (run_command api cmd args s)) =
     (if process_started api cmd args s then held s
      else (case fst (MyCreatePipeEx (pipe api) 0 FILE_FLAG_OVERLAPPED 0 s) of
              None \<Rightarrow> held s
            | Some (rd, wr) \<Rightarrow> hmset rd + hmset wr + held s))"
proof (cases "MyCreatePipeEx (pipe api) 0 FILE_FLAG_OVERLAPPED 0 s")
  case (Pair p s1)
  show ?thesis
  proof (cases p)
    case None
    with Pair show ?thesis
      by (simp add: run_command_def process_started_def MyCreatePipeEx_NoneD)
  next
    case (Some q)
    obtain rd wr where q: "q = (rd, wr)" by (cases q)
    with Pair Some have "held s1 = hmset rd + hmset wr + held s"
      by (auto dest: MyCreatePipeEx_SomeD)
    with Pair Some q show ?thesis
      by (auto simp: run_command_def process_started_def Let_def ac_simps split: option.split)
  qed
qed

text \<open>
  Where Kernel32 has no \<open>GetOverlappedResultEx\<close>, a pending read reports an error when it
  succeeded and no error when it failed.
\<close>

theorem ReadFileTimeout_fallback_inverted:
  assumes "fst (CreateEvent_answer api) \<noteq> NULL_HANDLE"
    and "ReadFile_answer api = (False, ERROR_IO_PENDING)"
    and "GetOverlappedResultEx_answer api = None"
  shows "fst (ReadFileTimeout api s) = 0 \<longleftrightarrow> \<not> GetOverlappedResult_answer api"
  using assms
  by (auto simp: ReadFileTimeout_def pending_result_def ERROR_IO_PENDING_def split: prod.splits)

definition fallback_reader :: read_api where
  "fallback_reader = \<lparr>CreateEvent_answer = (4, 0), ReadFile_answer = (False, ERROR_IO_PENDING),
     GetOverlappedResultEx_answer = None, GetOverlappedResult_answer = True\<rparr>"

theorem ReadFileTimeout_fallback_inverted_witness:
  "fst (ReadFileTimeout fallback_reader \<lparr>opened = [], last_error = 0, PipeSerialNumber = 0\<rparr>) \<noteq> 0"
  using ReadFileTimeout_fallback_inverted [of fallback_reader]
  by (simp add: fallback_reader_def)

end
