(* ===== verification/Net_Adapters.thy ===== *)
theory Net_Adapters
  imports Win_Prelude
begin

text \<open>
  Enumeration of network adapters and of the IPv4 routing table (net_adapter_enum.c), and the
  lookup of the TAP adapter's address (process_manager.c). Adapters and table rows are records
  with the fields the code reads; the answers of the IP helper API are arguments.
\<close>

section \<open>Adapters\<close>

abbreviation (input) AF_UNSPEC :: nat where "AF_UNSPEC \<equiv> 0"
abbreviation (input) AF_INET :: nat where "AF_INET \<equiv> 2"
abbreviation (input) AF_INET6 :: nat where "AF_INET6 \<equiv> 23"
abbreviation (input) IF_TYPE_SOFTWARE_LOOPBACK :: nat where "IF_TYPE_SOFTWARE_LOOPBACK \<equiv> 24"
abbreviation (input) IfOperStatusUp :: nat where "IfOperStatusUp \<equiv> 1"
abbreviation (input) INET6_ADDRSTRLEN :: nat where "INET6_ADDRSTRLEN \<equiv> 65"

text \<open>
  A socket address is its family and the text \<open>InetNtopW\<close> gives for it.
\<close>

record sockaddr =
  sa_family :: nat
  sa_text :: wstr

record adapter =
  IfType :: nat
  FriendlyName :: wstr
  OperStatus :: nat
  IfIndex :: "32 word"
  gateways :: "sockaddr list"
  unicasts :: "sockaddr list"

text \<open>
  \<open>InetNtopW\<close> writes the text when it fits and leaves the buffer alone otherwise. (For families
  other than \<open>AF_INET\<close> the code passes the IPv6 address.)
\<close>

definition draft_inet_ntop :: "sockaddr \<Rightarrow> wstr \<Rightarrow> nat \<Rightarrow> wstr" where
  "draft_inet_ntop sa buf n = (if fits n (sa_text sa) then sa_text sa else buf)"

definition internal_loopback_interface_index :: "(nat \<Rightarrow> (32 word) option) \<Rightarrow> nat \<Rightarrow> int" where
  "internal_loopback_interface_index GetBestInterfaceEx family =
     (case GetBestInterfaceEx (if family = AF_INET6 then AF_INET6 else AF_INET) of
        None \<Rightarrow> - 1 | Some dwBestIfIndex \<Rightarrow> sint dwBestIfIndex)"

definition LoopbackInterfaceIndex :: "(nat \<Rightarrow> (32 word) option) \<Rightarrow> int" where
  "LoopbackInterfaceIndex best = internal_loopback_interface_index best AF_INET"

definition IPv6LoopbackInterfaceIndex :: "(nat \<Rightarrow> (32 word) option) \<Rightarrow> int" where
  "IPv6LoopbackInterfaceIndex best = internal_loopback_interface_index best AF_INET6"

section \<open>enum\_adapter\_info\<close>

abbreviation (input) WORKING_BUFFER_SIZE :: nat where "WORKING_BUFFER_SIZE \<equiv> 15000"
abbreviation (input) MAX_TRIES :: nat where "MAX_TRIES \<equiv> 3"

definition ERROR_BUFFER_OVERFLOW :: nat where "ERROR_BUFFER_OVERFLOW = 111"

text \<open>
  \<open>GetAdaptersAddresses family len\<close> answers with the return value, the buffer size it asks for
  and the adapters; \<open>malloc n\<close> says whether the allocation succeeds. The loop calls it at most
  \<open>MAX_TRIES\<close> times, with the size the last call asked for. The result is the return value and the
  list, or \<open>None\<close> when the allocation failed.
\<close>

record gaa_answer =
  ga_result :: nat
  ga_outBufLen :: nat
  ga_adapters :: "adapter list"

fun gaa_loop :: "(nat \<Rightarrow> bool) \<Rightarrow> (nat \<Rightarrow> nat \<Rightarrow> gaa_answer) \<Rightarrow> nat \<Rightarrow> nat \<Rightarrow> nat
    \<Rightarrow> (nat \<times> adapter list) option" where
  "gaa_loop malloc_ok gaa 0 iterations outBufLen = Some (ERROR_BUFFER_OVERFLOW, [])"
| "gaa_loop malloc_ok gaa (Suc tries) iterations outBufLen =
     (if \<not> malloc_ok outBufLen then None
      else
        let a = gaa iterations outBufLen
        in if ga_result a = ERROR_BUFFER_OVERFLOW
           then gaa_loop malloc_ok gaa tries (Suc iterations) (ga_outBufLen a)
           else Some (ga_result a, ga_adapters a))"

text \<open>
  The walk over the list: the callback sees one adapter and the caller's state, and may stop the
  walk or fault.
\<close>

fun walk_adapters :: "(adapter \<Rightarrow> 's \<Rightarrow> (bool \<times> 's) res) \<Rightarrow> adapter list \<Rightarrow> 's \<Rightarrow> 's res" where
  "walk_adapters pfn [] p = Inr p"
| "walk_adapters pfn (a # as) p =
     bindr (pfn a p) (\<lambda>(stop, p'). if stop then Inr p' else walk_adapters pfn as p')"

definition enum_adapter_info ::
  "(nat \<Rightarrow> bool) \<Rightarrow> (nat \<Rightarrow> nat \<Rightarrow> gaa_answer) \<Rightarrow> (adapter \<Rightarrow> 's \<Rightarrow> (bool \<times> 's) res) \<Rightarrow> 's \<Rightarrow> 's res" where
  "enum_adapter_info malloc_ok gaa pfn p =
     (case gaa_loop malloc_ok gaa MAX_TRIES 0 WORKING_BUFFER_SIZE of
        None \<Rightarrow> Inr p
      | Some (dwRetVal, adapters) \<Rightarrow>
          if dwRetVal = 0 then walk_adapters pfn adapters p else Inr p)"

text \<open>The invariant rule of the walk, for every callback.\<close>

lemma walk_adapters_inv:
  assumes "\<And>a p stop p'. a \<in> set as \<Longrightarrow> P p \<Longrightarrow> pfn a p = Inr (stop, p') \<Longrightarrow> P p'"
    and "P p" and "walk_adapters pfn as p = Inr q"
  shows "P q"
  using assms
proof (induction as arbitrary: p)
  case Nil
  then show ?case by simp
next
  case (Cons a as)
  from Cons.prems(3) obtain stop p' where step: "pfn a p = Inr (stop, p')"
    and rest: "(if stop then Inr p' else walk_adapters pfn as p') = Inr q"
    by (auto simp: bindr_eq_Inr)
  have "P p'" using Cons.prems(1) [of a p stop p'] Cons.prems(2) step by simp
  show ?case
  proof (cases stop)
    case True
    with rest \<open>P p'\<close> show ?thesis by simp
  next
    case False
    with rest have "walk_adapters pfn as p' = Inr q" by simp
    with \<open>P p'\<close> show ?thesis
      by (intro Cons.IH [of p']) (use Cons.prems(1) in auto)
  qed
qed

lemma enum_adapter_info_inv:
  assumes "\<And>a p stop p'. P p \<Longrightarrow> pfn a p = Inr (stop, p') \<Longrightarrow> P p'"
    and "P p" and "enum_adapter_info m g pfn p = Inr q"
  shows "P q"
proof -
  have "P q" if "walk_adapters pfn as p = Inr q" for as
    by (rule walk_adapters_inv [where P = P, OF _ assms(2) that]) (rule assms(1))
  with assms(2,3) show ?thesis
    by (auto simp: enum_adapter_info_def split: option.splits if_splits)
qed

text \<open>
  What a walk computes when the callback picks the first adapter that satisfies a predicate and
  ignores the others.
\<close>

lemma walk_adapters_first:
  assumes "\<And>a p. pfn a p = (if good a then map_sum id (Pair True) (upd a p) else Inr (False, p))"
  shows "walk_adapters pfn as p = (case find good as of None \<Rightarrow> Inr p | Some a \<Rightarrow> upd a p)"
proof (induction as)
  case (Cons a as)
  then show ?case by (cases "upd a p") (simp_all add: assms)
qed simp

section \<open>enum\_ip\_forward\_table\<close>

text \<open>
  A row of the routing table: the four fields the code reads and the ten it only compares with
  zero.
\<close>

record forward_row =
  dwForwardDest :: "32 word"
  dwForwardNextHop :: "32 word"
  dwForwardIfIndex :: "32 word"
  dwForwardMetric1 :: "32 word"
  dwForwardRest :: "32 word list"

definition zero_row :: forward_row where
  "zero_row = \<lparr>dwForwardDest = 0, dwForwardNextHop = 0, dwForwardIfIndex = 0,
     dwForwardMetric1 = 0, dwForwardRest = replicate 10 0\<rparr>"

text \<open>
  Both calls of \<open>GetIpForwardTable\<close> and the heap allocation between them: the rows arrive only
  when the size query says that the buffer is too small, the allocation succeeds and the second
  call returns 0.
\<close>

definition ERROR_INSUFFICIENT_BUFFER :: nat where "ERROR_INSUFFICIENT_BUFFER = 122"

record forward_table_api =
  size_query :: nat
  heap_alloc_ok :: bool
  table_query :: "nat \<times> forward_row list"

fun walk_rows :: "(forward_row \<Rightarrow> 's \<Rightarrow> bool \<times> 's) \<Rightarrow> forward_row list \<Rightarrow> 's \<Rightarrow> 's" where
  "walk_rows pfn [] p = p"
| "walk_rows pfn (r # rs) p = (case pfn r p of (stop, p') \<Rightarrow> if stop then p' else walk_rows pfn rs p')"

definition enum_ip_forward_table ::
  "forward_table_api \<Rightarrow> (forward_row \<Rightarrow> 's \<Rightarrow> bool \<times> 's) \<Rightarrow> 's \<Rightarrow> 's" where
  "enum_ip_forward_table api pfn p =
     (if size_query api \<noteq> ERROR_INSUFFICIENT_BUFFER then p
      else if \<not> heap_alloc_ok api then p
      else (case table_query api of (result, rows) \<Rightarrow>
        if result = 0 then walk_rows pfn rows p else p))"

section \<open>process\_manager.c\<close>

record tap_device_info =
  device_name :: wstr
  device_ip :: wstr

definition tap_ip_buffer :: nat where
  "tap_ip_buffer = MAX_PATH div 4"

definition extract_tap_adapter_info :: "adapter \<Rightarrow> tap_device_info \<Rightarrow> (bool \<times> tap_device_info) res" where
  "extract_tap_adapter_info a info =
     Inr (if IfType a = IF_TYPE_SOFTWARE_LOOPBACK then (False, info)
          else if FriendlyName a \<noteq> device_name info then (False, info)
          else (True,
            (case find (\<lambda>u. sa_family u = AF_INET) (unicasts a) of
               None \<Rightarrow> info
             | Some u \<Rightarrow> info\<lparr>device_ip := draft_inet_ntop u (device_ip info) tap_ip_buffer\<rparr>)))"

definition TAP_DEVICE_NAME :: wstr where
  "TAP_DEVICE_NAME = L ''ssr-route-tap0''"

definition testTapDevice ::
  "(nat \<Rightarrow> bool) \<Rightarrow> (nat \<Rightarrow> nat \<Rightarrow> gaa_answer) \<Rightarrow> nat \<Rightarrow> wstr option res" where
  "testTapDevice malloc_ok gaa count =
     bindr (enum_adapter_info malloc_ok gaa extract_tap_adapter_info
              \<lparr>device_name = TAP_DEVICE_NAME, device_ip = []\<rparr>)
       (\<lambda>info. let buffer = lstrcpyn count (device_ip info)
               in Inr (if buffer = [] then None else Some buffer))"

section \<open>Properties\<close>

text \<open>
  The retry loop asks for the adapter list at most \<open>MAX_TRIES\<close> times: its answer depends on the
  first three calls only.
\<close>

lemma gaa_loop_calls:
  "(\<And>k n. k < i + t \<Longrightarrow> g k n = h k n) \<Longrightarrow> gaa_loop m g t i n = gaa_loop m h t i n"
  by (induction t arbitrary: i n) (simp_all add: Let_def)

definition is_tap :: "adapter \<Rightarrow> bool" where
  "is_tap a \<longleftrightarrow> IfType a \<noteq> IF_TYPE_SOFTWARE_LOOPBACK \<and> FriendlyName a = TAP_DEVICE_NAME"

definition shown_ip :: "adapter \<Rightarrow> wstr" where
  "shown_ip a = (case find (\<lambda>u. sa_family u = AF_INET) (unicasts a) of
     None \<Rightarrow> [] | Some u \<Rightarrow> draft_inet_ntop u [] tap_ip_buffer)"

lemma length_shown_ip: "length (shown_ip a) < tap_ip_buffer"
  by (simp add: shown_ip_def draft_inet_ntop_def fits_def tap_ip_buffer_def split: option.split)

lemma walk_tap:
  "walk_adapters extract_tap_adapter_info as \<lparr>device_name = TAP_DEVICE_NAME, device_ip = []\<rparr> =
     Inr \<lparr>device_name = TAP_DEVICE_NAME,
          device_ip = (case find is_tap as of None \<Rightarrow> [] | Some a \<Rightarrow> shown_ip a)\<rparr>"
  by (induction as)
    (auto simp: extract_tap_adapter_info_def is_tap_def shown_ip_def split: option.split)

text \<open>
  The TAP device's address. Whatever the machine's adapters are, \<open>testTapDevice\<close> with a buffer of
  at least 65 characters returns the text of the first IPv4 unicast address of the first
  non-loopback adapter that has the TAP device's name, and nothing when there is no such adapter
  or address; it never faults.
\<close>

theorem testTapDevice_address:
  assumes "malloc_ok WORKING_BUFFER_SIZE"
    and "ga_result (gaa 0 WORKING_BUFFER_SIZE) = 0" and "tap_ip_buffer \<le> count"
  shows "testTapDevice malloc_ok gaa count =
    Inr (case find is_tap (ga_adapters (gaa 0 WORKING_BUFFER_SIZE)) of
           None \<Rightarrow> None
         | Some a \<Rightarrow> if shown_ip a = [] then None else Some (shown_ip a))"
proof -
  have "lstrcpyn count (shown_ip a) = shown_ip a" for a
    using length_shown_ip [of a] assms(3) by (intro lstrcpyn_id) (simp add: fits_def)
  then show ?thesis
    using assms(1,2)
    by (simp add: testTapDevice_def enum_adapter_info_def numeral_3_eq_3 Let_def walk_tap
        ERROR_BUFFER_OVERFLOW_def split: option.split)
qed

definition demo_tap :: adapter where
  "demo_tap = \<lparr>IfType = 53, FriendlyName = TAP_DEVICE_NAME, OperStatus = IfOperStatusUp, IfIndex = 7,
     gateways = [], unicasts = [\<lparr>sa_family = AF_INET6, sa_text = L ''fe80::1''\<rparr>,
       \<lparr>sa_family = AF_INET, sa_text = L ''10.0.85.2''\<rparr>]\<rparr>"

lemma testTapDevice_address_witness:
  "testTapDevice (\<lambda>n. True) (\<lambda>k n. \<lparr>ga_result = 0, ga_outBufLen = n, ga_adapters = [demo_tap]\<rparr>) 260
     = Inr (Some (L ''10.0.85.2''))"
  by (subst testTapDevice_address)
    (simp_all add: demo_tap_def is_tap_def shown_ip_def draft_inet_ntop_def fits_def tap_ip_buffer_def)

end
