(* ===== verification/Route_Commands.thy ===== *)
theory Route_Commands
  imports Cmd_Runner Net_Adapters
begin

text \<open>
  The routing commands of the service (cmd\_handler.c, lines 460-580): each operation runs
  \<open>netsh\<close> or \<open>route\<close> for the entries of a table of subnets. The command runner is an argument;
  its instance is \<open>run_command_wrapper\<close>. The abstract view is the routing table: what a successful
  command does to it is the documented behaviour of the two programs, and every operation refines
  a set of updates of that table.
\<close>

section \<open>Tables and formats\<close>

type_synonym 'w runner = "wstr \<Rightarrow> wstr \<Rightarrow> fmt_arg list \<Rightarrow> 'w \<Rightarrow> int \<times> 'w"

definition IPV4_SUBNETS :: "wstr list" where
  "IPV4_SUBNETS = [L ''0.0.0.0/1'', L ''128.0.0.0/1'']"

definition IPV6_SUBNETS :: "wstr list" where
  "IPV6_SUBNETS = [L ''fc00::/7'', L ''2000::/4'', L ''3000::/4'']"

definition IPV4_RESERVED_SUBNETS :: "wstr list" where
  "IPV4_RESERVED_SUBNETS =
     [L ''0.0.0.0/8'', L ''10.0.0.0/8'', L ''100.64.0.0/10'', L ''169.254.0.0/16'',
      L ''172.16.0.0/12'', L ''192.0.0.0/24'', L ''192.0.2.0/24'', L ''192.31.196.0/24'',
      L ''192.52.193.0/24'', L ''192.88.99.0/24'', L ''192.168.0.0/16'', L ''192.175.48.0/24'',
      L ''198.18.0.0/15'', L ''198.51.100.0/24'', L ''203.0.113.0/24'', L ''240.0.0.0/4'']"

definition CMD_NETSH :: wstr where "CMD_NETSH = L ''netsh''"
definition CMD_ROUTE :: wstr where "CMD_ROUTE = L ''route''"

definition quoted_d :: string where
  "quoted_d = [CHR 0x22] @ ''%d'' @ [CHR 0x22]"

definition redirect_add_fmt :: wstr where
  "redirect_add_fmt = L ''interface ipv4 add route %s nexthop=%s interface=%s metric=0 store=active''"

definition redirect_set_fmt :: wstr where
  "redirect_set_fmt = L ''interface ipv4 set route %s nexthop=%s interface=%s metric=0 store=active''"

definition redirect_delete_fmt :: wstr where
  "redirect_delete_fmt = L ''interface ipv4 delete route %s interface=%s''"

definition ipv6_add_fmt :: wstr where
  "ipv6_add_fmt = L ''interface ipv6 add route %s interface=%d metric=0 store=active''"

definition ipv6_set_fmt :: wstr where
  "ipv6_set_fmt = L ''interface ipv6 set route %s interface=%d metric=0 store=active''"

definition ipv6_delete_fmt :: wstr where
  "ipv6_delete_fmt = L ''interface ipv6 delete route %s interface=%d''"

definition change_fmt :: wstr where
  "change_fmt = L ''change %s %s if %d''"

definition proxy_add_fmt :: wstr where
  "proxy_add_fmt = L (''interface ipv4 add route %s/32 nexthop=%s interface='' @ quoted_d
     @ '' metric=0 store=active'')"

definition bypass_add_fmt :: wstr where
  "bypass_add_fmt = L (''interface ipv4 add route %s nexthop=%s interface='' @ quoted_d
     @ '' metric=0 store=active'')"

definition proxy_delete_fmt :: wstr where
  "proxy_delete_fmt = L ''delete %s''"

definition bypass_delete_fmt :: wstr where
  "bypass_delete_fmt = L ''delete route %s''"

lemmas fmt_defs = redirect_add_fmt_def redirect_set_fmt_def redirect_delete_fmt_def
  ipv6_add_fmt_def ipv6_set_fmt_def ipv6_delete_fmt_def change_fmt_def proxy_add_fmt_def
  bypass_add_fmt_def proxy_delete_fmt_def bypass_delete_fmt_def quoted_d_def
  CMD_NETSH_def CMD_ROUTE_def

section \<open>State and operations\<close>

text \<open>
  The service's \<open>router_info\<close>; \<open>monitor\<close> is the context of the address change monitor, a handle
  pair, and the buffers are strings.
\<close>

record 'm router_info =
  tapDeviceName :: wstr
  tapGatewayIp :: wstr
  tapInterfaceIndex :: int
  remoteProxyIp :: wstr
  gatewayIp :: wstr
  gatewayInterfaceName :: wstr
  gatewayInterfaceIndex :: int
  monitor :: "'m option"
  shut_down :: bool

definition router_zero :: "'m router_info" where
  "router_zero = \<lparr>tapDeviceName = [], tapGatewayIp = [], tapInterfaceIndex = 0, remoteProxyIp = [],
     gatewayIp = [], gatewayInterfaceName = [], gatewayInterfaceIndex = 0, monitor = None,
     shut_down = False\<rparr>"

definition delete_proxy_route :: "'w runner \<Rightarrow> wstr \<Rightarrow> 'w \<Rightarrow> int \<times> 'w" where
  "delete_proxy_route run proxyIp = run CMD_ROUTE proxy_delete_fmt [S proxyIp]"

definition add_ipv4_redirect :: "'w runner \<Rightarrow> 'm router_info option \<Rightarrow> 'w \<Rightarrow> int \<times> 'w" where
  "add_ipv4_redirect run router w =
     (case router of
        None \<Rightarrow> (- 1, w)
      | Some r \<Rightarrow>
          for_break (\<lambda>subnet.
            or_else (run CMD_NETSH redirect_add_fmt [S subnet, S (tapGatewayIp r), S (tapDeviceName r)])
              (run CMD_NETSH redirect_set_fmt [S subnet, S (tapGatewayIp r), S (tapDeviceName r)]))
            IPV4_SUBNETS w)"

definition remove_ipv4_redirect :: "'w runner \<Rightarrow> wstr \<Rightarrow> 'w \<Rightarrow> int \<times> 'w" where
  "remove_ipv4_redirect run tap =
     for_break (\<lambda>subnet. run CMD_NETSH redirect_delete_fmt [S subnet, S tap]) IPV4_SUBNETS"

definition stop_routing_ipv6 :: "'w runner \<Rightarrow> int \<Rightarrow> 'w \<Rightarrow> int \<times> 'w" where
  "stop_routing_ipv6 run index =
     for_break (\<lambda>subnet.
       or_else (run CMD_NETSH ipv6_add_fmt [S subnet, D index])
         (run CMD_NETSH ipv6_set_fmt [S subnet, D index])) IPV6_SUBNETS"

definition start_routing_ipv6 :: "'w runner \<Rightarrow> int \<Rightarrow> 'w \<Rightarrow> int \<times> 'w" where
  "start_routing_ipv6 run index =
     for_break (\<lambda>subnet. run CMD_NETSH ipv6_delete_fmt [S subnet, D index]) IPV6_SUBNETS"

definition add_or_update_proxy_route :: "'w runner \<Rightarrow> 'm router_info \<Rightarrow> 'w \<Rightarrow> int \<times> 'w" where
  "add_or_update_proxy_route run r =
     or_else (run CMD_ROUTE change_fmt [S (remoteProxyIp r), S (gatewayIp r), D (gatewayInterfaceIndex r)])
       (run CMD_NETSH proxy_add_fmt [S (remoteProxyIp r), S (gatewayIp r), D (gatewayInterfaceIndex r)])"

definition add_or_update_reserved_subnet_bypass ::
  "'w runner \<Rightarrow> 'm router_info \<Rightarrow> 'w \<Rightarrow> int \<times> 'w" where
  "add_or_update_reserved_subnet_bypass run r =
     for_break (\<lambda>subnet.
       or_else (run CMD_ROUTE change_fmt [S subnet, S (gatewayIp r), D (gatewayInterfaceIndex r)])
         (run CMD_NETSH bypass_add_fmt [S subnet, S (gatewayIp r), D (gatewayInterfaceIndex r)]))
       IPV4_RESERVED_SUBNETS"

text \<open>The results of these commands are ignored.\<close>

definition remove_reserved_subnet_bypass :: "'w runner \<Rightarrow> 'w \<Rightarrow> 'w" where
  "remove_reserved_subnet_bypass run =
     fold (\<lambda>subnet w. snd (run CMD_ROUTE bypass_delete_fmt [S subnet] w)) IPV4_RESERVED_SUBNETS"

text \<open>
  Lines 388-402 of \<open>configure_routing\<close>: the four stages, each only after the one before returned 0.
  The loopback index is looked up when the second stage starts.
\<close>

definition install_routes ::
  "'w runner \<Rightarrow> ('w \<Rightarrow> nat \<Rightarrow> (32 word) option) \<Rightarrow> 'm router_info \<Rightarrow> 'w \<Rightarrow> int \<times> 'w" where
  "install_routes run best r w =
     (case add_ipv4_redirect run (Some r) w of (result, w1) \<Rightarrow>
        if result \<noteq> 0 then (result, w1)
        else (case stop_routing_ipv6 run (IPv6LoopbackInterfaceIndex (best w1)) w1 of (result, w2) \<Rightarrow>
          if result \<noteq> 0 then (result, w2)
          else (case add_or_update_proxy_route run r w2 of (result, w3) \<Rightarrow>
            if result \<noteq> 0 then (result, w3)
            else add_or_update_reserved_subnet_bypass run r w3)))"

text \<open>
  Lines 418-442 of \<open>reset_routing\<close>: every stage runs whatever the one before returned, and the
  result is that of the last one that has one.
\<close>

definition remove_routes ::
  "'w runner \<Rightarrow> ('w \<Rightarrow> nat \<Rightarrow> (32 word) option) \<Rightarrow> 'm router_info option \<Rightarrow> 'w \<Rightarrow> int \<times> 'w" where
  "remove_routes run best router w =
     (case router of
        None \<Rightarrow> (0, w)
      | Some r \<Rightarrow>
          if tapDeviceName r = [] then (0, w)
          else
            let w1 = snd (remove_ipv4_redirect run (tapDeviceName r) w);
                (result, w2) = start_routing_ipv6 run (IPv6LoopbackInterfaceIndex (best w1)) w1;
                (result, w3) = (if remoteProxyIp r \<noteq> [] then delete_proxy_route run (remoteProxyIp r) w2
                                else (result, w2))
            in (result, remove_reserved_subnet_bypass run w3))"

section \<open>The routing table\<close>

text \<open>
  IPv4 routes by destination prefix, with next hop and outgoing interface (a name or an index),
  and IPv6 routes by prefix, with the interface index. A destination without a prefix length is a
  host route.
\<close>

record route_table =
  v4 :: "wstr \<rightharpoonup> wstr \<times> fmt_arg"
  v6 :: "wstr \<rightharpoonup> int"

datatype route_op = Put4 wstr wstr fmt_arg | Del4 wstr | Put6 wstr int | Del6 wstr | No_Op

definition host :: "wstr \<Rightarrow> wstr" where
  "host d = (if wch CHR ''/'' \<in> set d then d else d @ L ''/32'')"

text \<open>
  What each command line means to \<open>netsh interface ... add | set | delete route\<close> and to
  \<open>route change | delete <destination>\<close>. The word after \<open>delete\<close> is \<open>route\<close>'s destination.
\<close>

fun op_of :: "wstr \<Rightarrow> wstr \<Rightarrow> fmt_arg list \<Rightarrow> route_op" where
  "op_of cmd fmt [S d, S g, S i] =
     (if cmd = CMD_NETSH \<and> (fmt = redirect_add_fmt \<or> fmt = redirect_set_fmt) then Put4 (host d) g (S i)
      else No_Op)"
| "op_of cmd fmt [S d, S g, D i] =
     (if cmd = CMD_ROUTE \<and> fmt = change_fmt then Put4 (host d) g (D i)
      else if cmd = CMD_NETSH \<and> fmt = proxy_add_fmt then Put4 (host (d @ L ''/32'')) g (D i)
      else if cmd = CMD_NETSH \<and> fmt = bypass_add_fmt then Put4 (host d) g (D i)
      else No_Op)"
| "op_of cmd fmt [S d, S i] =
     (if cmd = CMD_NETSH \<and> fmt = redirect_delete_fmt then Del4 (host d) else No_Op)"
| "op_of cmd fmt [S d, D i] =
     (if cmd = CMD_NETSH \<and> (fmt = ipv6_add_fmt \<or> fmt = ipv6_set_fmt) then Put6 d i
      else if cmd = CMD_NETSH \<and> fmt = ipv6_delete_fmt then Del6 d else No_Op)"
| "op_of cmd fmt [S d] =
     (if cmd = CMD_ROUTE \<and> fmt = proxy_delete_fmt then Del4 (host d)
      else if cmd = CMD_ROUTE \<and> fmt = bypass_delete_fmt then Del4 (host (L ''route''))
      else No_Op)"
| "op_of cmd fmt _ = No_Op"

fun apply_op :: "route_op \<Rightarrow> route_table \<Rightarrow> route_table" where
  "apply_op (Put4 d g i) t = t\<lparr>v4 := (v4 t)(d \<mapsto> (g, i))\<rparr>"
| "apply_op (Del4 d) t = t\<lparr>v4 := (v4 t)(d := None)\<rparr>"
| "apply_op (Put6 d i) t = t\<lparr>v6 := (v6 t)(d \<mapsto> i)\<rparr>"
| "apply_op (Del6 d) t = t\<lparr>v6 := (v6 t)(d := None)\<rparr>"
| "apply_op No_Op t = t"

definition route_laws :: "'w runner \<Rightarrow> ('w \<Rightarrow> route_table) \<Rightarrow> bool" where
  "route_laws run tbl \<longleftrightarrow>
     (\<forall>cmd fmt args w. tbl (snd (run cmd fmt args w)) =
        (if fst (run cmd fmt args w) = 0 then apply_op (op_of cmd fmt args) (tbl w) else tbl w))"

lemma route_lawsD:
  "route_laws run tbl \<Longrightarrow> tbl (snd (run cmd fmt args w)) =
     (if fst (run cmd fmt args w) = 0 then apply_op (op_of cmd fmt args) (tbl w) else tbl w)"
  by (simp add: route_laws_def)

text \<open>The meaning of the command lines the operations build.\<close>

lemma op_of_simps [simp]:
  "op_of CMD_NETSH redirect_add_fmt [S d, S g, S i] = Put4 (host d) g (S i)"
  "op_of CMD_NETSH redirect_set_fmt [S d, S g, S i] = Put4 (host d) g (S i)"
  "op_of CMD_NETSH redirect_delete_fmt [S d, S i] = Del4 (host d)"
  "op_of CMD_NETSH ipv6_add_fmt [S d, D n] = Put6 d n"
  "op_of CMD_NETSH ipv6_set_fmt [S d, D n] = Put6 d n"
  "op_of CMD_NETSH ipv6_delete_fmt [S d, D n] = Del6 d"
  "op_of CMD_ROUTE change_fmt [S d, S g, D n] = Put4 (host d) g (D n)"
  "op_of CMD_NETSH proxy_add_fmt [S d, S g, D n] = Put4 (host (d @ L ''/32'')) g (D n)"
  "op_of CMD_NETSH bypass_add_fmt [S d, S g, D n] = Put4 (host d) g (D n)"
  "op_of CMD_ROUTE proxy_delete_fmt [S d] = Del4 (host d)"
  "op_of CMD_ROUTE bypass_delete_fmt [S d] = Del4 (host (L ''route''))"
  by (simp_all add: fmt_defs)

declare op_of.simps [simp del]

lemma slash_in_L [simp]: "(47 :: wchar) \<in> set (L s) \<longleftrightarrow> CHR ''/'' \<in> set s"
proof -
  have "of_char CHR ''/'' \<in> (of_char :: char \<Rightarrow> wchar) ` set s \<longleftrightarrow> CHR ''/'' \<in> set s"
    by (rule inj_image_mem_iff [OF of_char_word16_inj])
  then show ?thesis by (simp add: L_def)
qed

lemma host_L: "host (L s) = (if CHR ''/'' \<in> set s then L s else L (s @ ''/32''))"
  by (simp add: host_def L_append)

lemma host_slash32 [simp]: "host (d @ L ''/32'') = d @ L ''/32''"
  by (simp add: host_def)

lemma host_IPV4_SUBNETS [simp]: "map host IPV4_SUBNETS = IPV4_SUBNETS"
  by (simp add: IPV4_SUBNETS_def host_L)

lemma host_RESERVED [simp]: "map host IPV4_RESERVED_SUBNETS = IPV4_RESERVED_SUBNETS"
  by (simp add: IPV4_RESERVED_SUBNETS_def host_L)

lemma host_in_subnets:
  "d \<in> set IPV4_SUBNETS \<Longrightarrow> host d = d" "d \<in> set IPV4_RESERVED_SUBNETS \<Longrightarrow> host d = d"
  using host_IPV4_SUBNETS host_RESERVED by (metis map_eq_conv list.map_ident)+

text \<open>
  The keys of the four stages never collide: the prefixes are distinct, and no subnet of the two
  tables is a host route.
\<close>

lemma subnets_disjoint:
  "set IPV4_SUBNETS \<inter> set IPV4_RESERVED_SUBNETS = {}"
  by (simp add: IPV4_SUBNETS_def IPV4_RESERVED_SUBNETS_def)

definition proxy_key :: "wstr \<Rightarrow> wstr" where
  "proxy_key ip = ip @ L ''/32''"

lemma L_suffix: "(\<exists>x. y = x @ L t) \<longleftrightarrow> drop (length y - length t) y = L t"
proof
  assume "drop (length y - length t) y = L t"
  then have "y = take (length y - length t) y @ L t" by (metis append_take_drop_id)
  then show "\<exists>x. y = x @ L t" ..
qed auto

lemma drop_L: "drop n (L s) = L (drop n s)"
  by (simp add: L_def drop_map)

lemma proxy_key_fresh:
  "proxy_key ip \<notin> set IPV4_SUBNETS" "proxy_key ip \<notin> set IPV4_RESERVED_SUBNETS"
proof -
  have "\<forall>s \<in> set IPV4_SUBNETS \<union> set IPV4_RESERVED_SUBNETS. drop (length s - 3) s \<noteq> L ''/32''"
    by (simp add: IPV4_SUBNETS_def IPV4_RESERVED_SUBNETS_def drop_L)
  moreover have "drop (length (proxy_key ip) - 3) (proxy_key ip) = L ''/32''"
    using L_suffix [of "proxy_key ip" "''/32''"] by (auto simp: proxy_key_def)
  ultimately show "proxy_key ip \<notin> set IPV4_SUBNETS" "proxy_key ip \<notin> set IPV4_RESERVED_SUBNETS"
    by blast+
qed

text \<open>An address in dotted form has no prefix length.\<close>

lemma host_address: "(47 :: wchar) \<notin> set ip \<Longrightarrow> host ip = proxy_key ip"
  by (simp add: host_def proxy_key_def)

section \<open>What each operation does to the table\<close>

text \<open>
  The one rule for the loops that try one command and then another: with the laws, a loop that
  returns 0 has put its entry for every subnet, and whatever it returns it touches no other key.
\<close>

lemma or_else_put:
  assumes "route_laws run tbl" and "op_of c1 f1 a1 = x" and "op_of c2 f2 a2 = x"
  shows "tbl (snd (or_else (run c1 f1 a1) (run c2 f2 a2) w)) =
    (if fst (or_else (run c1 f1 a1) (run c2 f2 a2) w) = 0 then apply_op x (tbl w) else tbl w)"
  using route_lawsD [OF assms(1), of c1 f1 a1 w]
    route_lawsD [OF assms(1), of c2 f2 a2 "snd (run c1 f1 a1 w)"] assms(2,3)
  by (auto simp: or_else_def split: prod.splits)

lemma loop_put4:
  assumes body: "\<And>x w. x \<in> set xs \<Longrightarrow>
      tbl (snd (f x w)) = (if fst (f x w) = 0 then apply_op (Put4 x g i) (tbl w) else tbl w)"
  shows "fst (for_break f xs w) = 0 \<Longrightarrow> x \<in> set xs \<Longrightarrow> v4 (tbl (snd (for_break f xs w))) x = Some (g, i)"
    and "k \<notin> set xs \<Longrightarrow> v4 (tbl (snd (for_break f xs w))) k = v4 (tbl w) k"
    and "v6 (tbl (snd (for_break f xs w))) = v6 (tbl w)"
proof -
  show "v4 (tbl (snd (for_break f xs w))) x = Some (g, i)" if "fst (for_break f xs w) = 0" "x \<in> set xs"
    using that
    by (intro for_break_all [where Q = "\<lambda>x w. v4 (tbl w) x = Some (g, i)"]) (auto simp: body)
  show "v4 (tbl (snd (for_break f xs w))) k = v4 (tbl w) k" if "k \<notin> set xs"
    using that by (intro for_break_keeps [where P = "\<lambda>w'. v4 (tbl w') k = v4 (tbl w) k"]) (auto simp: body)
  show "v6 (tbl (snd (for_break f xs w))) = v6 (tbl w)"
    by (intro for_break_keeps [where P = "\<lambda>w'. v6 (tbl w') = v6 (tbl w)"]) (auto simp: body)
qed

lemma loop_put6:
  assumes body: "\<And>x w. x \<in> set xs \<Longrightarrow>
      tbl (snd (f x w)) = (if fst (f x w) = 0 then apply_op (Put6 x i) (tbl w) else tbl w)"
  shows "fst (for_break f xs w) = 0 \<Longrightarrow> x \<in> set xs \<Longrightarrow> v6 (tbl (snd (for_break f xs w))) x = Some i"
    and "v4 (tbl (snd (for_break f xs w))) = v4 (tbl w)"
proof -
  show "v6 (tbl (snd (for_break f xs w))) x = Some i" if "fst (for_break f xs w) = 0" "x \<in> set xs"
    using that by (intro for_break_all [where Q = "\<lambda>x w. v6 (tbl w) x = Some i"]) (auto simp: body)
  show "v4 (tbl (snd (for_break f xs w))) = v4 (tbl w)"
    by (intro for_break_keeps [where P = "\<lambda>w'. v4 (tbl w') = v4 (tbl w)"]) (auto simp: body)
qed

text \<open>A reset runs commands only; what each of them keeps, it keeps.\<close>

lemma fold_keeps: "(\<And>x w. P w \<Longrightarrow> P (f x w)) \<Longrightarrow> P w \<Longrightarrow> P (fold f xs w)"
  by (induction xs arbitrary: w) simp_all

lemma remove_routes_keeps:
  assumes run: "\<And>c f a w. P w \<Longrightarrow> P (snd (run c f a w))" and "P w"
  shows "P (snd (remove_routes run b (Some r) w))"
proof -
  have "P (snd (remove_ipv4_redirect run t w))" "P (snd (start_routing_ipv6 run i w))"
    "P (snd (delete_proxy_route run p w))" "P (remove_reserved_subnet_bypass run w)" if "P w" for t i p w
    unfolding remove_ipv4_redirect_def start_routing_ipv6_def delete_proxy_route_def remove_reserved_subnet_bypass_def
    by (auto intro!: for_break_keeps [where P = P] fold_keeps [where P = P] run that)
  with assms(2) show ?thesis by (simp add: remove_routes_def Let_def split_beta)
qed

lemma add_ipv4_redirect_table:
  assumes laws: "route_laws run tbl"
  shows "fst (add_ipv4_redirect run (Some r) w) = 0 \<Longrightarrow> d \<in> set IPV4_SUBNETS \<Longrightarrow>
      v4 (tbl (snd (add_ipv4_redirect run (Some r) w))) d = Some (tapGatewayIp r, S (tapDeviceName r))"
    and "k \<notin> set IPV4_SUBNETS \<Longrightarrow> v4 (tbl (snd (add_ipv4_redirect run (Some r) w))) k = v4 (tbl w) k"
    and "v6 (tbl (snd (add_ipv4_redirect run (Some r) w))) = v6 (tbl w)"
  unfolding add_ipv4_redirect_def option.case
  by (intro loop_put4 or_else_put [OF laws]; simp add: host_in_subnets)+

lemma stop_routing_ipv6_table:
  assumes laws: "route_laws run tbl"
  shows "fst (stop_routing_ipv6 run i w) = 0 \<Longrightarrow> d \<in> set IPV6_SUBNETS \<Longrightarrow>
      v6 (tbl (snd (stop_routing_ipv6 run i w))) d = Some i"
    and "v4 (tbl (snd (stop_routing_ipv6 run i w))) = v4 (tbl w)"
  unfolding stop_routing_ipv6_def
  by (intro loop_put6 or_else_put [OF laws]; simp)+

lemma add_or_update_reserved_subnet_bypass_table:
  assumes laws: "route_laws run tbl"
  shows "fst (add_or_update_reserved_subnet_bypass run r w) = 0 \<Longrightarrow> d \<in> set IPV4_RESERVED_SUBNETS \<Longrightarrow>
      v4 (tbl (snd (add_or_update_reserved_subnet_bypass run r w))) d
        = Some (gatewayIp r, D (gatewayInterfaceIndex r))"
    and "k \<notin> set IPV4_RESERVED_SUBNETS \<Longrightarrow>
      v4 (tbl (snd (add_or_update_reserved_subnet_bypass run r w))) k = v4 (tbl w) k"
    and "v6 (tbl (snd (add_or_update_reserved_subnet_bypass run r w))) = v6 (tbl w)"
  unfolding add_or_update_reserved_subnet_bypass_def
  by (intro loop_put4 or_else_put [OF laws]; simp add: host_in_subnets)+

lemma add_or_update_proxy_route_table:
  assumes laws: "route_laws run tbl" and ip: "(47 :: wchar) \<notin> set (remoteProxyIp r)"
  shows "tbl (snd (add_or_update_proxy_route run r w)) =
    (if fst (add_or_update_proxy_route run r w) = 0
     then apply_op (Put4 (proxy_key (remoteProxyIp r)) (gatewayIp r) (D (gatewayInterfaceIndex r))) (tbl w)
     else tbl w)"
  unfolding add_or_update_proxy_route_def
  by (rule or_else_put [OF laws]) (simp_all add: host_address [OF ip] proxy_key_def)

text \<open>The whole table after the routes were installed.\<close>

definition routes_installed :: "'m router_info \<Rightarrow> int \<Rightarrow> route_table \<Rightarrow> bool" where
  "routes_installed r loopback t \<longleftrightarrow>
     (\<forall>d \<in> set IPV4_SUBNETS. v4 t d = Some (tapGatewayIp r, S (tapDeviceName r)))
   \<and> (\<forall>d \<in> set IPV6_SUBNETS. v6 t d = Some loopback)
   \<and> v4 t (proxy_key (remoteProxyIp r)) = Some (gatewayIp r, D (gatewayInterfaceIndex r))
   \<and> (\<forall>d \<in> set IPV4_RESERVED_SUBNETS. v4 t d = Some (gatewayIp r, D (gatewayInterfaceIndex r)))"

definition installed_keys :: "'m router_info \<Rightarrow> wstr set" where
  "installed_keys r = set IPV4_SUBNETS \<union> {proxy_key (remoteProxyIp r)} \<union> set IPV4_RESERVED_SUBNETS"

lemma install_routes_stages:
  assumes "fst (install_routes run best r w) = 0"
  obtains w1 w2 w3 where
    "fst (add_ipv4_redirect run (Some r) w) = 0" "w1 = snd (add_ipv4_redirect run (Some r) w)"
    "fst (stop_routing_ipv6 run (IPv6LoopbackInterfaceIndex (best w1)) w1) = 0"
    "w2 = snd (stop_routing_ipv6 run (IPv6LoopbackInterfaceIndex (best w1)) w1)"
    "fst (add_or_update_proxy_route run r w2) = 0" "w3 = snd (add_or_update_proxy_route run r w2)"
    "fst (add_or_update_reserved_subnet_bypass run r w3) = 0"
    "snd (install_routes run best r w) = snd (add_or_update_reserved_subnet_bypass run r w3)"
  using assms unfolding install_routes_def
  by (auto split: prod.splits if_splits)

lemma install_routes_table:
  assumes laws: "route_laws run tbl" and ip: "(47 :: wchar) \<notin> set (remoteProxyIp r)"
    and ok: "fst (install_routes run best r w) = 0"
  shows "routes_installed r
      (IPv6LoopbackInterfaceIndex (best (snd (add_ipv4_redirect run (Some r) w))))
      (tbl (snd (install_routes run best r w)))"
proof -
  from ok obtain w1 w2 w3 where st:
    "fst (add_ipv4_redirect run (Some r) w) = 0" "w1 = snd (add_ipv4_redirect run (Some r) w)"
    "fst (stop_routing_ipv6 run (IPv6LoopbackInterfaceIndex (best w1)) w1) = 0"
    "w2 = snd (stop_routing_ipv6 run (IPv6LoopbackInterfaceIndex (best w1)) w1)"
    "fst (add_or_update_proxy_route run r w2) = 0" "w3 = snd (add_or_update_proxy_route run r w2)"
    "fst (add_or_update_reserved_subnet_bypass run r w3) = 0"
    "snd (install_routes run best r w) = snd (add_or_update_reserved_subnet_bypass run r w3)"
    by (rule install_routes_stages)
  note fresh = proxy_key_fresh [of "remoteProxyIp r"]
  note redirect = add_ipv4_redirect_table [OF laws, where r = r and w = w]
  note ipv6 = stop_routing_ipv6_table [OF laws, where w = w1
      and i = "IPv6LoopbackInterfaceIndex (best w1)"]
  note proxy = add_or_update_proxy_route_table [OF laws ip, of w2]
  note bypass = add_or_update_reserved_subnet_bypass_table [OF laws, where r = r and w = w3]
  let ?t = "tbl (snd (install_routes run best r w))"
  have "v4 ?t d = Some (tapGatewayIp r, S (tapDeviceName r))" if d: "d \<in> set IPV4_SUBNETS" for d
  proof -
    have "d \<notin> set IPV4_RESERVED_SUBNETS" "d \<noteq> proxy_key (remoteProxyIp r)"
      using d subnets_disjoint fresh by blast+
    with d show ?thesis using redirect(1) [of d] ipv6(2) proxy bypass(2) [of d] st by simp
  qed
  moreover have "v6 ?t d = Some (IPv6LoopbackInterfaceIndex (best w1))" if "d \<in> set IPV6_SUBNETS" for d
    using that ipv6(1) [of d] proxy bypass(3) st by simp
  moreover have "v4 ?t (proxy_key (remoteProxyIp r)) = Some (gatewayIp r, D (gatewayInterfaceIndex r))"
    using proxy bypass(2) [OF fresh(2)] st by simp
  moreover have "v4 ?t d = Some (gatewayIp r, D (gatewayInterfaceIndex r))"
    if "d \<in> set IPV4_RESERVED_SUBNETS" for d
    using that bypass(1) [of d] st by simp
  ultimately show ?thesis by (simp add: routes_installed_def st(2))
qed

text \<open>Whatever the commands answer, no other IPv4 route is touched.\<close>

lemma install_routes_other:
  assumes laws: "route_laws run tbl" and ip: "(47 :: wchar) \<notin> set (remoteProxyIp r)"
    and k: "k \<notin> installed_keys r"
  shows "v4 (tbl (snd (install_routes run best r w))) k = v4 (tbl w) k"
  using k
  by (simp add: install_routes_def installed_keys_def split_beta
      add_ipv4_redirect_table [OF laws] stop_routing_ipv6_table [OF laws]
      add_or_update_proxy_route_table [OF laws ip] add_or_update_reserved_subnet_bypass_table [OF laws])

section \<open>Removing the routes\<close>

lemma restrict_upd_None: "(\<lambda>a. if a = x then None else m a) |` (- A) = m |` (- insert x A)"
  by (auto simp: restrict_map_def fun_eq_iff)

lemma loop_del4:
  assumes laws: "route_laws run tbl" and ok: "\<And>x w. fst (f x w) = (0 :: int)"
    and body: "\<And>x w. x \<in> set xs \<Longrightarrow> tbl (snd (f x w)) = apply_op (Del4 x) (tbl w)"
  shows "tbl (snd (for_break f xs w)) = (tbl w)\<lparr>v4 := (v4 (tbl w)) |` (- set xs)\<rparr>"
  using body
proof (induction xs arbitrary: w)
  case Nil
  then show ?case by simp
next
  case (Cons x xs)
  have "fst (f x w) = 0" by (rule ok)
  then have "for_break f (x # xs) w = for_break f xs (snd (f x w))"
    by (cases "f x w") simp
  moreover have "tbl (snd (f x w)) = (tbl w)\<lparr>v4 := (v4 (tbl w))(x := None)\<rparr>"
    using Cons.prems by simp
  ultimately show ?case using Cons.IH [of "snd (f x w)"] Cons.prems by (simp add: restrict_upd_None)
qed

lemma loop_del6:
  assumes ok: "\<And>x w. fst (f x w) = (0 :: int)"
    and body: "\<And>x w. x \<in> set xs \<Longrightarrow> tbl (snd (f x w)) = apply_op (Del6 x) (tbl w)"
  shows "tbl (snd (for_break f xs w)) = (tbl w)\<lparr>v6 := (v6 (tbl w)) |` (- set xs)\<rparr>"
  using body
proof (induction xs arbitrary: w)
  case Nil
  then show ?case by simp
next
  case (Cons x xs)
  have "fst (f x w) = 0" by (rule ok)
  then have "for_break f (x # xs) w = for_break f xs (snd (f x w))"
    by (cases "f x w") simp
  moreover have "tbl (snd (f x w)) = (tbl w)\<lparr>v6 := (v6 (tbl w))(x := None)\<rparr>"
    using Cons.prems by simp
  ultimately show ?case using Cons.IH [of "snd (f x w)"] Cons.prems by (simp add: restrict_upd_None)
qed

text \<open>
  The commands for the reserved subnets name the destination \<open>route\<close>: they leave every route with
  another destination as it was.
\<close>

definition route_word_key :: wstr where
  "route_word_key = host (L ''route'')"

lemma remove_reserved_subnet_bypass_table:
  assumes laws: "route_laws run tbl"
  shows "k \<noteq> route_word_key \<Longrightarrow> v4 (tbl (remove_reserved_subnet_bypass run w)) k = v4 (tbl w) k"
    and "v6 (tbl (remove_reserved_subnet_bypass run w)) = v6 (tbl w)"
    and "v4 (tbl w) k = None \<Longrightarrow> v4 (tbl (remove_reserved_subnet_bypass run w)) k = None"
proof -
  have step: "k \<noteq> route_word_key \<longrightarrow> v4 (tbl (snd (run CMD_ROUTE bypass_delete_fmt [S d] w))) k = v4 (tbl w) k"
      "v4 (tbl w) k = None \<longrightarrow> v4 (tbl (snd (run CMD_ROUTE bypass_delete_fmt [S d] w))) k = None"
      "v6 (tbl (snd (run CMD_ROUTE bypass_delete_fmt [S d] w))) = v6 (tbl w)" for d w k
    using route_lawsD [OF laws, of CMD_ROUTE bypass_delete_fmt "[S d]" w]
    by (simp_all add: route_word_key_def)
  have "k \<noteq> route_word_key \<longrightarrow>
      v4 (tbl (fold (\<lambda>d w. snd (run CMD_ROUTE bypass_delete_fmt [S d] w)) ds w)) k = v4 (tbl w) k"
      "v4 (tbl w) k = None \<longrightarrow>
      v4 (tbl (fold (\<lambda>d w. snd (run CMD_ROUTE bypass_delete_fmt [S d] w)) ds w)) k = None"
      "v6 (tbl (fold (\<lambda>d w. snd (run CMD_ROUTE bypass_delete_fmt [S d] w)) ds w)) = v6 (tbl w)" for ds
    by (induction ds arbitrary: w) (simp_all add: step)
  then show "k \<noteq> route_word_key \<Longrightarrow> v4 (tbl (remove_reserved_subnet_bypass run w)) k = v4 (tbl w) k"
    "v6 (tbl (remove_reserved_subnet_bypass run w)) = v6 (tbl w)"
    "v4 (tbl w) k = None \<Longrightarrow> v4 (tbl (remove_reserved_subnet_bypass run w)) k = None"
    by (simp_all add: remove_reserved_subnet_bypass_def)
qed

lemma route_word_key_fresh: "route_word_key \<notin> set IPV4_RESERVED_SUBNETS"
  using proxy_key_fresh(2) [of "L ''route''"]
  by (simp add: route_word_key_def host_L proxy_key_def L_append [symmetric])

text \<open>When every command succeeds, what is left of the table.\<close>

lemma remove_routes_table:
  assumes laws: "route_laws run tbl" and ok: "\<And>c f a w. fst (run c f a w) = 0"
    and tap: "tapDeviceName r \<noteq> []" and ip: "remoteProxyIp r \<noteq> []" "(47 :: wchar) \<notin> set (remoteProxyIp r)"
  shows "k \<in> insert (proxy_key (remoteProxyIp r)) (set IPV4_SUBNETS) \<Longrightarrow>
      v4 (tbl (snd (remove_routes run best (Some r) w))) k = None"
    and "k \<noteq> route_word_key \<Longrightarrow> k \<notin> insert (proxy_key (remoteProxyIp r)) (set IPV4_SUBNETS) \<Longrightarrow>
      v4 (tbl (snd (remove_routes run best (Some r) w))) k = v4 (tbl w) k"
    and "v6 (tbl (snd (remove_routes run best (Some r) w))) = (v6 (tbl w)) |` (- set IPV6_SUBNETS)"
    and "fst (remove_routes run best (Some r) w) = 0"
proof -
  let ?w1 = "snd (remove_ipv4_redirect run (tapDeviceName r) w)"
  let ?i = "IPv6LoopbackInterfaceIndex (best ?w1)"
  let ?w2 = "snd (start_routing_ipv6 run ?i ?w1)"
  let ?w3 = "snd (delete_proxy_route run (remoteProxyIp r) ?w2)"
  have run1: "tbl (snd (run c f a w)) = apply_op (op_of c f a) (tbl w)" for c f a w
    using route_lawsD [OF laws, of c f a w] ok by simp
  have w1: "tbl ?w1 = (tbl w)\<lparr>v4 := (v4 (tbl w)) |` (- set IPV4_SUBNETS)\<rparr>"
    unfolding remove_ipv4_redirect_def
    by (rule loop_del4 [OF laws]) (simp_all add: ok run1 host_in_subnets)
  have w2: "tbl ?w2 = (tbl ?w1)\<lparr>v6 := (v6 (tbl ?w1)) |` (- set IPV6_SUBNETS)\<rparr>"
    unfolding start_routing_ipv6_def by (rule loop_del6) (simp_all add: ok run1)
  have w3: "tbl ?w3 = (tbl ?w2)\<lparr>v4 := (v4 (tbl ?w2))(proxy_key (remoteProxyIp r) := None)\<rparr>"
    unfolding delete_proxy_route_def by (simp add: run1 host_address [OF ip(2)])
  have eq: "remove_routes run best (Some r) w = (0, remove_reserved_subnet_bypass run ?w3)"
    using tap ip(1) ok
    by (simp add: remove_routes_def Let_def delete_proxy_route_def split: prod.split) (metis fst_conv)
  show "v4 (tbl (snd (remove_routes run best (Some r) w))) k = None"
    if "k \<in> insert (proxy_key (remoteProxyIp r)) (set IPV4_SUBNETS)"
    using that remove_reserved_subnet_bypass_table(3) [OF laws, of ?w3 k]
    by (auto simp: eq w3 w2 w1 restrict_map_def)
  show "v4 (tbl (snd (remove_routes run best (Some r) w))) k = v4 (tbl w) k"
    if "k \<noteq> route_word_key" "k \<notin> insert (proxy_key (remoteProxyIp r)) (set IPV4_SUBNETS)"
    using that remove_reserved_subnet_bypass_table(1) [OF laws that(1), of ?w3]
    by (simp add: eq w3 w2 w1 restrict_map_def)
  show "v6 (tbl (snd (remove_routes run best (Some r) w))) = (v6 (tbl w)) |` (- set IPV6_SUBNETS)"
    using remove_reserved_subnet_bypass_table(2) [OF laws, of ?w3] by (simp add: eq w3 w2 w1)
  show "fst (remove_routes run best (Some r) w) = 0" by (simp add: eq)
qed

end
