(* ===== verification/Dns_Block.thy ===== *)
theory Dns_Block
  imports Win_Prelude
begin

text \<open>
  The smart DNS block (smartdnsblock.c): while routing is configured, a session of the Windows
  Filtering Platform blocks UDP port 53 everywhere but on the TAP device. The platform is a record
  of functions over a world \<open>'w\<close> given to the operations; the state is the file's global
  variables.
\<close>

section \<open>The filtering platform\<close>

datatype fwpm_field = FWPM_CONDITION_IP_PROTOCOL | FWPM_CONDITION_IP_REMOTE_PORT
  | FWPM_CONDITION_LOCAL_INTERFACE_INDEX

datatype fwp_value = FWP_UINT8 "16 word" | FWP_UINT16 "16 word" | FWP_UINT32 "32 word"

datatype fwp_action = FWP_ACTION_BLOCK | FWP_ACTION_PERMIT

datatype fwpm_layer = FWPM_LAYER_ALE_AUTH_CONNECT_V4

record fwpm_sublayer =
  sl_key :: nat
  sl_weight :: "16 word"

record fwpm_filter =
  filterCondition :: "(fwpm_field \<times> fwp_value) list"
  flt_name :: wstr
  flt_subLayerKey :: nat
  flt_layerKey :: fwpm_layer
  flt_action :: fwp_action
  flt_weight :: "64 word"

text \<open>
  Each call takes and returns the world; \<open>GetAdaptersAddresses4\<close> takes the buffer size and answers
  with its return value, the buffer size it leaves behind, and the names and interface indexes of
  the IPv4 adapters. An engine handle 0 is \<open>NULL\<close>.
\<close>

record 'w fwp_api =
  GetAdaptersAddresses4 :: "32 word \<Rightarrow> 'w \<Rightarrow> 32 word \<times> 32 word \<times> (wstr \<times> 32 word) list"
  FwpmEngineOpen0 :: "'w \<Rightarrow> 32 word \<times> nat \<times> 'w"
  UuidCreate :: "'w \<Rightarrow> nat \<times> 'w"
  FwpmSubLayerAdd0 :: "nat \<Rightarrow> fwpm_sublayer \<Rightarrow> 'w \<Rightarrow> 32 word \<times> 'w"
  FwpmFilterAdd0 :: "nat \<Rightarrow> fwpm_filter \<Rightarrow> 'w \<Rightarrow> 32 word \<times> 64 word \<times> 'w"
  FwpmFilterDeleteById0 :: "nat \<Rightarrow> 64 word \<Rightarrow> 'w \<Rightarrow> 'w"
  FwpmSubLayerDeleteByKey0 :: "nat \<Rightarrow> nat \<Rightarrow> 'w \<Rightarrow> 'w"
  FwpmEngineClose0 :: "nat \<Rightarrow> 'w \<Rightarrow> 'w"

section \<open>State and operations\<close>

record dns_state =
  GET_ADAPTERS_ADDRESSES_BUFFER_SIZE :: "32 word"
  engine :: nat
  sublayer_key :: nat
  filterId :: "64 word"
  filterId2 :: "64 word"

definition dns_init :: dns_state where
  "dns_init = \<lparr>GET_ADAPTERS_ADDRESSES_BUFFER_SIZE = 16384, engine = 0, sublayer_key = 0, filterId = 0, filterId2 = 0\<rparr>"

definition LOWER_FILTER_WEIGHT :: "64 word" where
  "LOWER_FILTER_WEIGHT = 10"

definition HIGHER_FILTER_WEIGHT :: "64 word" where
  "HIGHER_FILTER_WEIGHT = 20"

definition IPPROTO_UDP :: "16 word" where
  "IPPROTO_UDP = 17"

definition MAXUINT16 :: "16 word" where
  "MAXUINT16 = 0xFFFF"

definition udpBlockFilter :: "wstr \<Rightarrow> nat \<Rightarrow> fwpm_filter" where
  "udpBlockFilter provider key =
     \<lparr>filterCondition = [(FWPM_CONDITION_IP_PROTOCOL, FWP_UINT8 IPPROTO_UDP),
                         (FWPM_CONDITION_IP_REMOTE_PORT, FWP_UINT16 53)],
      flt_name = provider, flt_subLayerKey = key, flt_layerKey = FWPM_LAYER_ALE_AUTH_CONNECT_V4,
      flt_action = FWP_ACTION_BLOCK, flt_weight = LOWER_FILTER_WEIGHT\<rparr>"

definition tapDeviceWhitelistFilter :: "wstr \<Rightarrow> nat \<Rightarrow> 32 word \<Rightarrow> fwpm_filter" where
  "tapDeviceWhitelistFilter provider key interfaceIndex =
     \<lparr>filterCondition = [(FWPM_CONDITION_LOCAL_INTERFACE_INDEX, FWP_UINT32 interfaceIndex)],
      flt_name = provider, flt_subLayerKey = key, flt_layerKey = FWPM_LAYER_ALE_AUTH_CONNECT_V4,
      flt_action = FWP_ACTION_PERMIT, flt_weight = HIGHER_FILTER_WEIGHT\<rparr>"

definition end_smart_dns_block :: "'w fwp_api \<Rightarrow> dns_state \<Rightarrow> 'w \<Rightarrow> dns_state \<times> 'w" where
  "end_smart_dns_block api d w =
     (let w1 = (if engine d \<noteq> 0
                then
                  let wa = (if filterId d \<noteq> 0 then FwpmFilterDeleteById0 api (engine d) (filterId d) w else w);
                      wb = (if filterId2 d \<noteq> 0 then FwpmFilterDeleteById0 api (engine d) (filterId2 d) wa else wa);
                      wc = FwpmSubLayerDeleteByKey0 api (engine d) (sublayer_key d) wb
                  in FwpmEngineClose0 api (engine d) wc
                else w)
      in (d\<lparr>filterId := 0, filterId2 := 0, engine := 0\<rparr>, w1))"

text \<open>
  The body of the \<open>do ... while (0)\<close> block after the adapter was found: result, success flag,
  the globals and the world when the block is left.
\<close>

definition install_filters ::
  "'w fwp_api \<Rightarrow> wstr \<Rightarrow> 32 word \<Rightarrow> dns_state \<Rightarrow> 'w \<Rightarrow> 32 word \<times> bool \<times> dns_state \<times> 'w" where
  "install_filters api provider interfaceIndex d w =
     (case FwpmEngineOpen0 api w of (result, h, w1) \<Rightarrow>
        let d1 = d\<lparr>engine := h\<rparr>
        in if result \<noteq> 0 then (result, False, d1, w1)
        else (case UuidCreate api w1 of (key, w2) \<Rightarrow>
          let d2 = d1\<lparr>sublayer_key := key\<rparr>
          in (case FwpmSubLayerAdd0 api h \<lparr>sl_key = key, sl_weight = MAXUINT16\<rparr> w2 of (result, w3) \<Rightarrow>
            if result \<noteq> 0 then (result, False, d2, w3)
            else (case FwpmFilterAdd0 api h (udpBlockFilter provider key) w3 of (result, id1, w4) \<Rightarrow>
              let d3 = d2\<lparr>filterId := id1\<rparr>
              in if result \<noteq> 0 then (result, False, d3, w4)
              else (case FwpmFilterAdd0 api h (tapDeviceWhitelistFilter provider key interfaceIndex) w4
                    of (result, id2, w5) \<Rightarrow>
                let d4 = d3\<lparr>filterId2 := id2\<rparr>
                in if result \<noteq> 0 then (result, False, d4, w5) else (result, True, d4, w5))))))"

definition begin_smart_dns_block ::
  "'w fwp_api \<Rightarrow> wstr \<Rightarrow> wstr \<Rightarrow> dns_state \<Rightarrow> 'w \<Rightarrow> int \<times> dns_state \<times> 'w" where
  "begin_smart_dns_block api tap_device_name filter_provider_name d w =
     (let (result, success, d1, w1) =
        (if engine d \<noteq> 0 then (0, True, d, w)
         else (case GetAdaptersAddresses4 api (GET_ADAPTERS_ADDRESSES_BUFFER_SIZE d) w
               of (result, n, adapters) \<Rightarrow>
           let d0 = d\<lparr>GET_ADAPTERS_ADDRESSES_BUFFER_SIZE := n\<rparr>
           in if result \<noteq> 0 then (result, False, d0, w)
           else (case find (\<lambda>a. fst a = tap_device_name) adapters of
             None \<Rightarrow> (- 1, False, d0, w)
           | Some a \<Rightarrow> install_filters api filter_provider_name (snd a) d0 w)))
      in if success then (sint result, d1, w1)
         else (case end_smart_dns_block api d1 w1 of (d2, w2) \<Rightarrow> (sint result, d2, w2)))"

section \<open>The globals\<close>

text \<open>
  Without an engine no filter is recorded, and \<open>begin\<close> leaves an engine exactly when it
  reports success (the platform returns a handle with success).
\<close>

definition dns_inv :: "dns_state \<Rightarrow> bool" where
  "dns_inv d \<longleftrightarrow> engine d = 0 \<longrightarrow> filterId d = 0 \<and> filterId2 d = 0"

lemma dns_inv_init: "dns_inv dns_init"
  by (simp add: dns_inv_def dns_init_def)

lemma end_engine [simp]:
  "engine (fst (end_smart_dns_block api d w)) = 0"
  "filterId (fst (end_smart_dns_block api d w)) = 0"
  "filterId2 (fst (end_smart_dns_block api d w)) = 0"
  by (simp_all add: end_smart_dns_block_def Let_def)

lemma install_filters_success:
  assumes "install_filters api prov ifx d w = (result, True, d', w')"
  shows "\<exists>h w1 key w2 w3 id1 w4 id2.
     FwpmEngineOpen0 api w = (0, h, w1) \<and> UuidCreate api w1 = (key, w2)
     \<and> FwpmSubLayerAdd0 api h \<lparr>sl_key = key, sl_weight = MAXUINT16\<rparr> w2 = (0, w3)
     \<and> FwpmFilterAdd0 api h (udpBlockFilter prov key) w3 = (0, id1, w4)
     \<and> FwpmFilterAdd0 api h (tapDeviceWhitelistFilter prov key ifx) w4 = (0, id2, w')
     \<and> d' = d\<lparr>engine := h, sublayer_key := key, filterId := id1, filterId2 := id2\<rparr> \<and> result = 0"
  using assms by (auto simp: install_filters_def Let_def split: prod.splits if_splits)

lemma install_filters_failure:
  "install_filters api prov ifx d w = (result, False, d', w') \<Longrightarrow> result \<noteq> 0"
  by (auto simp: install_filters_def Let_def split: prod.splits if_splits)

lemma begin_smart_dns_block_cases:
  obtains (running) "engine d \<noteq> 0" "begin_smart_dns_block api tap prov d w = (0, d, w)"
  | (failed) result :: "32 word" and d1 w1 where "engine d = 0" "sint result \<noteq> 0"
      "begin_smart_dns_block api tap prov d w
         = (sint result, fst (end_smart_dns_block api d1 w1), snd (end_smart_dns_block api d1 w1))"
  | (installed) n adapters a d' w' where "engine d = 0"
      "GetAdaptersAddresses4 api (GET_ADAPTERS_ADDRESSES_BUFFER_SIZE d) w = (0, n, adapters)" "find (\<lambda>a. fst a = tap) adapters = Some a"
      "install_filters api prov (snd a) (d\<lparr>GET_ADAPTERS_ADDRESSES_BUFFER_SIZE := n\<rparr>) w = (0, True, d', w')"
      "begin_smart_dns_block api tap prov d w = (0, d', w')"
proof (cases "engine d = 0")
  case False
  then show ?thesis by (intro running) (simp_all add: begin_smart_dns_block_def)
next
  case True
  obtain res n adapters where
    ga: "GetAdaptersAddresses4 api (GET_ADAPTERS_ADDRESSES_BUFFER_SIZE d) w = (res, n, adapters)"
    by (cases "GetAdaptersAddresses4 api (GET_ADAPTERS_ADDRESSES_BUFFER_SIZE d) w")
  let ?d0 = "d\<lparr>GET_ADAPTERS_ADDRESSES_BUFFER_SIZE := n\<rparr>"
  consider "res \<noteq> 0" | "res = 0" "find (\<lambda>a. fst a = tap) adapters = None"
    | a where "res = 0" "find (\<lambda>a. fst a = tap) adapters = Some a"
    by (cases "find (\<lambda>a. fst a = tap) adapters") auto
  then show ?thesis
  proof cases
    case 1
    then show ?thesis
      by (intro failed [of res ?d0 w])
        (simp_all add: True ga begin_smart_dns_block_def signed_eq_0_iff split: prod.split)
  next
    case 2
    then show ?thesis
      by (intro failed [of "- 1" ?d0 w])
        (simp_all add: True ga begin_smart_dns_block_def split: prod.split)
  next
    case (3 a)
    obtain r s d' w' where inst: "install_filters api prov (snd a) ?d0 w = (r, s, d', w')"
      by (cases "install_filters api prov (snd a) ?d0 w")
    show ?thesis
    proof (cases s)
      case True
      with inst have "r = 0" by (auto dest: install_filters_success)
      with True \<open>engine d = 0\<close> ga 3 inst show ?thesis
        by (intro installed [of n adapters a d' w']) (simp_all add: begin_smart_dns_block_def)
    next
      case False
      with inst have "r \<noteq> 0" by (auto dest: install_filters_failure)
      with False \<open>engine d = 0\<close> ga 3 inst show ?thesis
        by (intro failed [of r d' w'])
          (simp_all add: begin_smart_dns_block_def signed_eq_0_iff split: prod.split)
    qed
  qed
qed

lemma end_dns_inv: "dns_inv (fst (end_smart_dns_block api d w))"
  by (simp add: dns_inv_def)

section \<open>What the filters do to packets\<close>

text \<open>
  The platform's documented rule inside one sublayer: the matching filter of the highest weight
  decides, and a packet no filter matches passes.
\<close>

record packet =
  pkt_protocol :: "16 word"
  pkt_remote_port :: "16 word"
  pkt_local_interface :: "32 word"

fun condition_holds :: "packet \<Rightarrow> fwpm_field \<times> fwp_value \<Rightarrow> bool" where
  "condition_holds p (FWPM_CONDITION_IP_PROTOCOL, FWP_UINT8 v) \<longleftrightarrow> pkt_protocol p = v"
| "condition_holds p (FWPM_CONDITION_IP_REMOTE_PORT, FWP_UINT16 v) \<longleftrightarrow> pkt_remote_port p = v"
| "condition_holds p (FWPM_CONDITION_LOCAL_INTERFACE_INDEX, FWP_UINT32 v) \<longleftrightarrow> pkt_local_interface p = v"
| "condition_holds p _ \<longleftrightarrow> False"

definition filter_matches :: "packet \<Rightarrow> fwpm_filter \<Rightarrow> bool" where
  "filter_matches p f \<longleftrightarrow> list_all (condition_holds p) (filterCondition f)"

definition blocks :: "fwpm_filter set \<Rightarrow> packet \<Rightarrow> bool" where
  "blocks F p \<longleftrightarrow> (\<exists>f \<in> F. filter_matches p f \<and> flt_action f = FWP_ACTION_BLOCK
     \<and> (\<forall>g \<in> F. filter_matches p g \<longrightarrow> flt_weight g \<le> flt_weight f))"

lemma blocks_pair:
  "blocks {udpBlockFilter prov key, tapDeviceWhitelistFilter prov key ifx} p \<longleftrightarrow>
     pkt_protocol p = IPPROTO_UDP \<and> pkt_remote_port p = 53 \<and> pkt_local_interface p \<noteq> ifx"
  by (auto simp: blocks_def filter_matches_def udpBlockFilter_def tapDeviceWhitelistFilter_def
      LOWER_FILTER_WEIGHT_def HIGHER_FILTER_WEIGHT_def)

lemma ran_pair: "a \<noteq> b \<Longrightarrow> ran [a \<mapsto> x, b \<mapsto> y] = {x, y}"
  by (auto simp: ran_def)

lemma blocks_empty [simp]: "\<not> blocks {} p"
  by (simp add: blocks_def)

section \<open>Documented behaviour of the platform\<close>

text \<open>
  \<open>flt w\<close> is the filters of the program's session: adding one under a fresh non-zero id when the
  call succeeds, nothing otherwise; deletion by id; a dynamic session loses all its filters when
  the engine is closed; an engine handle is returned exactly with success.
\<close>

definition fwp_laws :: "'w fwp_api \<Rightarrow> ('w \<Rightarrow> 64 word \<Rightarrow> fwpm_filter option) \<Rightarrow> bool" where
  "fwp_laws api flt \<longleftrightarrow>
     (\<forall>w r h w'. FwpmEngineOpen0 api w = (r, h, w') \<longrightarrow> flt w' = flt w \<and> (h \<noteq> 0 \<longleftrightarrow> r = 0))
   \<and> (\<forall>w k w'. UuidCreate api w = (k, w') \<longrightarrow> flt w' = flt w)
   \<and> (\<forall>h sl w r w'. FwpmSubLayerAdd0 api h sl w = (r, w') \<longrightarrow> flt w' = flt w)
   \<and> (\<forall>h f w r i w'. FwpmFilterAdd0 api h f w = (r, i, w') \<longrightarrow>
        (if r = 0 then i \<noteq> 0 \<and> flt w i = None \<and> flt w' = (flt w)(i \<mapsto> f) else flt w' = flt w))
   \<and> (\<forall>h i w. flt (FwpmFilterDeleteById0 api h i w) = (flt w)(i := None))
   \<and> (\<forall>h k w. flt (FwpmSubLayerDeleteByKey0 api h k w) = flt w)
   \<and> (\<forall>h w. flt (FwpmEngineClose0 api h w) = Map.empty)"

text \<open>Filters installed: all or nothing.\<close>

definition dns_consistent ::
  "('w \<Rightarrow> 64 word \<Rightarrow> fwpm_filter option) \<Rightarrow> wstr \<Rightarrow> dns_state \<times> 'w \<Rightarrow> bool" where
  "dns_consistent flt prov = (\<lambda>(d, w).
     if engine d = 0 then filterId d = 0 \<and> filterId2 d = 0 \<and> flt w = Map.empty
     else filterId d \<noteq> 0 \<and> filterId2 d \<noteq> 0 \<and> filterId d \<noteq> filterId2 d
       \<and> (\<exists>ifx. flt w = [filterId d \<mapsto> udpBlockFilter prov (sublayer_key d),
                        filterId2 d \<mapsto> tapDeviceWhitelistFilter prov (sublayer_key d) ifx]))"

lemma fwp_laws_open:
  assumes "fwp_laws api flt" and "FwpmEngineOpen0 api w = (r, h, w')"
  shows "flt w' = flt w \<and> (h \<noteq> 0 \<longleftrightarrow> r = 0)"
proof -
  have "\<forall>w r h w'. FwpmEngineOpen0 api w = (r, h, w') \<longrightarrow> flt w' = flt w \<and> (h \<noteq> 0 \<longleftrightarrow> r = 0)"
    using assms(1) unfolding fwp_laws_def by (elim conjE) assumption
  from this [rule_format, OF assms(2)] show ?thesis .
qed

lemma fwp_laws_uuid:
  assumes "fwp_laws api flt" and "UuidCreate api w = (k, w')"
  shows "flt w' = flt w"
proof -
  have "\<forall>w k w'. UuidCreate api w = (k, w') \<longrightarrow> flt w' = flt w"
    using assms(1) unfolding fwp_laws_def by (elim conjE) assumption
  from this [rule_format, OF assms(2)] show ?thesis .
qed

lemma fwp_laws_sublayer:
  assumes "fwp_laws api flt" and "FwpmSubLayerAdd0 api h sl w = (r, w')"
  shows "flt w' = flt w"
proof -
  have "\<forall>h sl w r w'. FwpmSubLayerAdd0 api h sl w = (r, w') \<longrightarrow> flt w' = flt w"
    using assms(1) unfolding fwp_laws_def by (elim conjE) assumption
  from this [rule_format, OF assms(2)] show ?thesis .
qed

lemma fwp_laws_add:
  assumes "fwp_laws api flt" and "FwpmFilterAdd0 api h f w = (0, i, w')"
  shows "i \<noteq> 0 \<and> flt w i = None \<and> flt w' = (flt w)(i \<mapsto> f)"
proof -
  have "\<forall>h f w r i w'. FwpmFilterAdd0 api h f w = (r, i, w') \<longrightarrow>
        (if r = 0 then i \<noteq> 0 \<and> flt w i = None \<and> flt w' = (flt w)(i \<mapsto> f) else flt w' = flt w)"
    using assms(1) unfolding fwp_laws_def by (elim conjE) assumption
  from this [rule_format, OF assms(2)] show ?thesis by simp
qed

lemmas fwp_lawsD = fwp_laws_open fwp_laws_uuid fwp_laws_sublayer fwp_laws_add

lemma end_consistent:
  assumes laws: "fwp_laws api flt" and "engine d = 0 \<longrightarrow> flt w = Map.empty"
  shows "dns_consistent flt prov (end_smart_dns_block api d w)"
  using assms by (auto simp: fwp_laws_def dns_consistent_def end_smart_dns_block_def Let_def)

lemma install_filters_engine:
  assumes laws: "fwp_laws api flt" and inst: "install_filters api prov ifx d w = (r, s, d', w')"
    and empty: "flt w = Map.empty"
  shows "engine d' = 0 \<longrightarrow> flt w' = Map.empty"
proof -
  obtain r0 h w1 where opn: "FwpmEngineOpen0 api w = (r0, h, w1)"
    by (cases "FwpmEngineOpen0 api w")
  have law: "flt w1 = flt w" "h \<noteq> 0 \<longleftrightarrow> r0 = 0"
    using fwp_lawsD(1) [OF laws opn] by blast+
  have eng: "engine d' = h"
    using inst opn by (auto simp: install_filters_def Let_def split: prod.splits if_splits)
  show ?thesis
  proof (cases "r0 = 0")
    case True
    with law eng show ?thesis by simp
  next
    case False
    with inst opn have "w' = w1" by (simp add: install_filters_def Let_def)
    with law empty show ?thesis by simp
  qed
qed

lemma install_filters_consistent:
  assumes laws: "fwp_laws api flt" and empty: "flt w = Map.empty"
    and inst: "install_filters api prov ifx d w = (r, True, d', w')"
  shows "engine d' \<noteq> 0 \<and> filterId d' \<noteq> 0 \<and> filterId2 d' \<noteq> 0 \<and> filterId d' \<noteq> filterId2 d'
    \<and> flt w' = [filterId d' \<mapsto> udpBlockFilter prov (sublayer_key d'),
               filterId2 d' \<mapsto> tapDeviceWhitelistFilter prov (sublayer_key d') ifx]"
proof -
  obtain h w1 key w2 w3 id1 w4 id2 where
    calls: "FwpmEngineOpen0 api w = (0, h, w1)" "UuidCreate api w1 = (key, w2)"
      "FwpmSubLayerAdd0 api h \<lparr>sl_key = key, sl_weight = MAXUINT16\<rparr> w2 = (0, w3)"
      "FwpmFilterAdd0 api h (udpBlockFilter prov key) w3 = (0, id1, w4)"
      "FwpmFilterAdd0 api h (tapDeviceWhitelistFilter prov key ifx) w4 = (0, id2, w')"
    and d': "d' = d\<lparr>engine := h, sublayer_key := key, filterId := id1, filterId2 := id2\<rparr>"
    using install_filters_success [OF inst] by blast
  have open_ok: "h \<noteq> 0" and w1: "flt w1 = Map.empty"
    using fwp_lawsD(1) [OF laws calls(1)] empty by simp_all
  have w3: "flt w3 = Map.empty"
    using fwp_lawsD(2) [OF laws calls(2)] fwp_lawsD(3) [OF laws calls(3)] w1 by simp
  have id1: "id1 \<noteq> 0" and w4: "flt w4 = [id1 \<mapsto> udpBlockFilter prov key]"
    using fwp_lawsD(4) [OF laws calls(4)] w3 by simp_all
  have id2: "id2 \<noteq> 0" "flt w4 id2 = None"
    and w': "flt w' = (flt w4)(id2 \<mapsto> tapDeviceWhitelistFilter prov key ifx)"
    using fwp_lawsD(4) [OF laws calls(5)] by simp_all
  have "id1 \<noteq> id2" using id2(2) w4 by auto
  with open_ok id1 id2 w4 w' d' show ?thesis by auto
qed

lemma begin_consistent:
  assumes laws: "fwp_laws api flt" and ok: "dns_consistent flt prov (d, w)"
  shows "dns_consistent flt prov (snd (begin_smart_dns_block api tap prov d w))"
proof (cases "engine d = 0")
  case False
  with ok show ?thesis by (simp add: begin_smart_dns_block_def)
next
  case True
  with ok have empty: "flt w = Map.empty" by (simp add: dns_consistent_def)
  obtain res n adapters where
    ga: "GetAdaptersAddresses4 api (GET_ADAPTERS_ADDRESSES_BUFFER_SIZE d) w = (res, n, adapters)"
    by (cases "GetAdaptersAddresses4 api (GET_ADAPTERS_ADDRESSES_BUFFER_SIZE d) w")
  let ?d0 = "d\<lparr>GET_ADAPTERS_ADDRESSES_BUFFER_SIZE := n\<rparr>"
  have ended: "dns_consistent flt prov (end_smart_dns_block api ?d0 w)"
    by (rule end_consistent [OF laws]) (simp add: empty)
  show ?thesis
  proof (cases "res = 0 \<and> find (\<lambda>a. fst a = tap) adapters \<noteq> None")
    case False
    with True ga ended show ?thesis
      by (auto simp: begin_smart_dns_block_def Let_def split: prod.split option.split)
  next
    case found: True
    then obtain a where a: "find (\<lambda>a. fst a = tap) adapters = Some a" by auto
    obtain r s d' w' where inst: "install_filters api prov (snd a) ?d0 w = (r, s, d', w')"
      by (cases "install_filters api prov (snd a) ?d0 w")
    have eng: "engine d' = 0 \<longrightarrow> flt w' = Map.empty"
      by (rule install_filters_engine [OF laws inst empty])
    show ?thesis
    proof (cases s)
      case True
      with install_filters_consistent [OF laws empty] inst
      have "dns_consistent flt prov (d', w')" by (auto simp: dns_consistent_def)
      with True \<open>engine d = 0\<close> ga found a inst show ?thesis
        by (simp add: begin_smart_dns_block_def)
    next
      case False
      with end_consistent [OF laws eng] \<open>engine d = 0\<close> ga found a inst show ?thesis
        by (simp add: begin_smart_dns_block_def split: prod.split)
    qed
  qed
qed

lemma begin_success_engine:
  assumes laws: "fwp_laws api flt" and beg: "begin_smart_dns_block api tap prov d w = (0, d', w')"
  shows "engine d' \<noteq> 0"
proof (cases rule: begin_smart_dns_block_cases [of d api tap prov w])
  case running
  with beg show ?thesis by simp
next
  case (failed result d1 w1)
  with beg show ?thesis by simp
next
  case (installed n adapters a d2 w2)
  from install_filters_success [OF installed(4)] obtain h w3 key id1 id2 where
    "FwpmEngineOpen0 api w = (0, h, w3)" "engine d2 = h" by auto
  with fwp_laws_open [OF laws] installed(5) beg show ?thesis by auto
qed

section \<open>Runs of the service\<close>

text \<open>
  The service begins the block when routing is configured and ends it when routing is reset or
  configuration fails; between two events nothing else touches the globals.
\<close>

datatype dns_event = Begin wstr | End

fun dns_step :: "'w fwp_api \<Rightarrow> wstr \<Rightarrow> dns_state \<times> 'w \<Rightarrow> dns_event \<Rightarrow> dns_state \<times> 'w" where
  "dns_step api prov (d, w) (Begin tap) = snd (begin_smart_dns_block api tap prov d w)"
| "dns_step api prov (d, w) End = end_smart_dns_block api d w"

lemma dns_step_consistent:
  assumes "fwp_laws api flt" and "dns_consistent flt prov s"
  shows "dns_consistent flt prov (dns_step api prov s e)"
proof (cases s; cases e)
  fix d w tap
  assume "s = (d, w)" and "e = Begin tap"
  with begin_consistent [OF assms(1), of prov d w] assms(2) show ?thesis by simp
next
  fix d w
  assume "s = (d, w)" and "e = End"
  moreover from this assms(2) have "engine d = 0 \<longrightarrow> flt w = Map.empty"
    by (simp add: dns_consistent_def split: if_splits)
  ultimately show ?thesis using end_consistent [OF assms(1)] by simp
qed

text \<open>
  The state machine whose states are the runs' states under laws of the platform: the laws are
  part of the invariant, so the interpretation is unconditional.
\<close>

interpretation dns: event_machine "dns_step api prov"
  "\<lambda>s. fwp_laws api flt \<and> dns_consistent flt prov s" for api prov flt
  by unfold_locales (auto intro: dns_step_consistent)

text \<open>A session table with an id counter: a platform that obeys the laws.\<close>

type_synonym demo_world = "(64 word \<rightharpoonup> fwpm_filter) \<times> 64 word"

definition demo_fwp :: "(wstr \<times> 32 word) list \<Rightarrow> demo_world fwp_api" where
  "demo_fwp adapters =
     \<lparr>GetAdaptersAddresses4 = (\<lambda>n w. (0, n, adapters)),
      FwpmEngineOpen0 = (\<lambda>w. (0, 1, w)),
      UuidCreate = (\<lambda>w. (7, w)),
      FwpmSubLayerAdd0 = (\<lambda>h sl w. (0, w)),
      FwpmFilterAdd0 = (\<lambda>h f w. case w of (m, i) \<Rightarrow>
         if i = 0 \<or> m i \<noteq> None then (1, 0, w) else (0, i, (m(i \<mapsto> f), i + 1))),
      FwpmFilterDeleteById0 = (\<lambda>h i w. case w of (m, n) \<Rightarrow> (m(i := None), n)),
      FwpmSubLayerDeleteByKey0 = (\<lambda>h k w. w),
      FwpmEngineClose0 = (\<lambda>h w. (Map.empty, snd w))\<rparr>"

lemma demo_fwp_laws: "fwp_laws (demo_fwp adapters) fst"
  by (auto simp: fwp_laws_def demo_fwp_def split: if_splits prod.splits)

section \<open>Properties\<close>

text \<open>
  C9: The DNS block is never half installed. Whatever sequence of begins (with any TAP name) and
  ends the service performs, and whichever of the platform's calls fail on the way, the session
  holds either no filter at all and the globals are cleared, or exactly the pair of the UDP port 53
  block and the TAP whitelist under the two ids the globals record.
\<close>

theorem dns_block_all_or_nothing:
  assumes "fwp_laws api flt" and "flt w = Map.empty"
  shows "dns_consistent flt prov (foldl (dns_step api prov) (dns_init, w) es)"
proof -
  have "dns_consistent flt prov (dns_init, w)"
    using assms(2) by (simp add: dns_consistent_def dns_init_def)
  with dns.run_inv [of api flt prov] assms(1) show ?thesis by blast
qed

lemma dns_block_all_or_nothing_witness:
  "dns_consistent fst (L ''p'')
     (foldl (dns_step (demo_fwp [(L ''tap'', 5)]) (L ''p'')) (dns_init, (Map.empty, 1))
        [Begin (L ''tap''), Begin (L ''tun''), End, Begin (L ''tap'')])"
  by (rule dns_block_all_or_nothing [OF demo_fwp_laws]) simp



text \<open>
  While a block is running, a begin with any other TAP device and provider changes nothing and
  still reports success: the whitelist keeps permitting the adapter of the first begin.
\<close>

theorem begin_smart_dns_block_running_ignores_tap:
  assumes "engine d \<noteq> 0"
  shows "begin_smart_dns_block api tap prov d w = (0, d, w)"
  using assms by (simp add: begin_smart_dns_block_def)

lemma begin_smart_dns_block_running_ignores_tap_witness:
  "begin_smart_dns_block (demo_fwp []) (L ''other'') (L ''p'') (dns_init\<lparr>engine := 1\<rparr>) (Map.empty, 1)
     = (0, dns_init\<lparr>engine := 1\<rparr>, (Map.empty, 1))"
  by (rule begin_smart_dns_block_running_ignores_tap) simp

end
