(* ===== verification/Text_Util.thy ===== *)
theory Text_Util
  imports Win_Prelude
begin

text \<open>
  The string conversions (utf8\_to\_wchar.c, last\_error\_to\_string.c). The code page conversions
  and \<open>FormatMessageW\<close> are arguments: a conversion gives the text it would write, empty when it
  reports 0 elements. An absent pointer is \<open>None\<close>; \<open>alloc\<close> is the caller's allocator: absent, or
  whether a request for so many bytes is granted.
\<close>

type_synonym allocator = "(nat \<Rightarrow> bool) option"

definition wchar_string_to_utf8 ::
  "(wstr \<Rightarrow> string) \<Rightarrow> allocator \<Rightarrow> wstr option \<Rightarrow> string option" where
  "wchar_string_to_utf8 WideCharToMultiByte alloc str =
     (case (str, alloc) of
        (Some w, Some grants) \<Rightarrow>
          if w = [] then None
          else
            let receiver = WideCharToMultiByte w
            in if receiver = [] then None
               else if \<not> grants (length receiver + 1) then None
               else Some receiver
      | _ \<Rightarrow> None)"

definition utf8_to_wchar_string ::
  "(string \<Rightarrow> wstr) \<Rightarrow> allocator \<Rightarrow> string option \<Rightarrow> wstr option" where
  "utf8_to_wchar_string MultiByteToWideChar alloc str =
     (case (str, alloc) of
        (Some s, Some grants) \<Rightarrow>
          if s = [] then None
          else
            let receiver = MultiByteToWideChar s
            in if receiver = [] then None
               else if \<not> grants (2 * (length receiver + 1)) then None
               else Some receiver
      | _ \<Rightarrow> None)"

definition get_last_error_to_string ::
  "(32 word \<Rightarrow> wstr option) \<Rightarrow> allocator \<Rightarrow> 32 word \<Rightarrow> wstr option" where
  "get_last_error_to_string FormatMessageW alloc errorMessageID =
     (case alloc of
        None \<Rightarrow> None
      | Some grants \<Rightarrow>
          let messageBuffer = FormatMessageW errorMessageID;
              sz = (case messageBuffer of None \<Rightarrow> 0 | Some m \<Rightarrow> length m)
          in if \<not> grants (2 * (sz + 1)) then None
             else (case messageBuffer of None \<Rightarrow> Some [] | Some m \<Rightarrow> Some m))"

text \<open>
  Both conversions undo each other on the texts their code pages carry over, and neither ever
  returns an empty string: callers that test the pointer have tested the text.
\<close>

lemma utf8_to_wchar_string_nonempty:
  "utf8_to_wchar_string mb alloc s = Some w \<Longrightarrow> w \<noteq> []"
  by (auto simp: utf8_to_wchar_string_def Let_def split: option.splits if_splits)

lemma wchar_string_to_utf8_nonempty:
  "wchar_string_to_utf8 wc alloc w = Some s \<Longrightarrow> s \<noteq> []"
  by (auto simp: wchar_string_to_utf8_def Let_def split: option.splits if_splits)

lemma utf8_round_trip:
  assumes "utf8_to_wchar_string mb alloc (Some s) = Some w" and "wc (mb s) = s"
    and "\<And>n. grants n"
  shows "wchar_string_to_utf8 wc (Some grants) (Some w) = Some s"
  using assms
  by (auto simp: wchar_string_to_utf8_def utf8_to_wchar_string_def Let_def split: option.splits if_splits)

text \<open>UTF-8 carries ASCII over unchanged.\<close>

definition ascii_law :: "(string \<Rightarrow> wstr) \<Rightarrow> bool" where
  "ascii_law mb \<longleftrightarrow> (\<forall>s. (\<forall>c \<in> set s. (of_char c :: nat) < 128) \<longrightarrow> mb s = L s)"

lemma utf8_to_wchar_ascii:
  "ascii_law mb \<Longrightarrow> \<forall>n. grants n \<Longrightarrow> \<forall>c \<in> set s. (of_char c :: nat) < 128 \<Longrightarrow> s \<noteq> [] \<Longrightarrow>
     utf8_to_wchar_string mb (Some grants) (Some s) = Some (L s)"
  by (simp add: utf8_to_wchar_string_def ascii_law_def Let_def)

end
