(* ===== verification/Net_Monitor.thy ===== *)
theory Net_Monitor
  imports Cmd_Runner
begin

text \<open>
  The address change monitor of the route service (net\_change\_monitor.c): a thread that calls
  the notification at every change of the address table until its exit event is signalled.
\<close>

record net_change_ctx =
  hThread :: HANDLE
  hEventExit :: HANDLE
  has_notification :: bool

text \<open>
  The thread. Each round is answered by the system with the return value of \<open>NotifyAddrChange\<close>,
  the error \<open>WSAGetLastError\<close> reports, and which object ended the wait. The thread returns the
  number of notifications it made, or \<open>None\<close> while it still waits for the next answer.
\<close>

datatype wait_result = Addr_Changed | Exit_Signaled | Wait_Error

definition WSA_IO_PENDING :: "32 word" where
  "WSA_IO_PENDING = 997"

record monitor_round =
  notify_ret :: "32 word"
  wsa_error :: "32 word"
  waited :: wait_result

fun net_monitor_thread_proc :: "net_change_ctx \<Rightarrow> monitor_round list \<Rightarrow> nat \<Rightarrow> nat option res" where
  "net_monitor_thread_proc ctx [] n = Inr None"
| "net_monitor_thread_proc ctx (r # rs) n =
     (if notify_ret r \<noteq> 0 \<and> wsa_error r \<noteq> WSA_IO_PENDING then Inl Assert_Failed
      else (case waited r of
        Addr_Changed \<Rightarrow> net_monitor_thread_proc ctx rs (if has_notification ctx then n + 1 else n)
      | Exit_Signaled \<Rightarrow> Inr (Some n)
      | Wait_Error \<Rightarrow> net_monitor_thread_proc ctx rs n))"

text \<open>
  Start and stop, with the handles \<open>CreateEvent\<close> and \<open>CreateThread\<close> answer. An allocation
  failure is not checked.
\<close>

definition net_status_start_monitor ::
  "bool \<Rightarrow> HANDLE \<Rightarrow> HANDLE \<Rightarrow> bool \<Rightarrow> ledger \<Rightarrow> (net_change_ctx \<times> ledger) res" where
  "net_status_start_monitor calloc_ok event thread notification s =
     (if \<not> calloc_ok then Inl Null_Deref
      else Inr (\<lparr>hThread = thread, hEventExit = event, has_notification = notification\<rparr>,
                open_handle thread (open_handle event s)))"

definition net_status_stop_monitor :: "net_change_ctx option \<Rightarrow> ledger \<Rightarrow> ledger res" where
  "net_status_stop_monitor c s =
     (case c of
        None \<Rightarrow> Inr s
      | Some ctx \<Rightarrow>
          if hEventExit ctx = NULL_HANDLE \<or> \<not> has_notification ctx \<or> hThread ctx = NULL_HANDLE
          then Inl Assert_Failed
          else Inr (CloseHandle (hThread ctx) (CloseHandle (hEventExit ctx) s)))"

lemma net_monitor_thread_proc_count:
  assumes "\<forall>r \<in> set rs. notify_ret r = 0 \<or> wsa_error r = WSA_IO_PENDING"
    and "\<forall>r \<in> set rs. waited r \<noteq> Exit_Signaled"
    and "has_notification ctx"
    and "notify_ret e = 0" and "waited e = Exit_Signaled"
  shows "net_monitor_thread_proc ctx (rs @ e # es) n =
     Inr (Some (n + length [r \<leftarrow> rs. waited r = Addr_Changed]))"
  using assms(1,2)
proof (induction rs arbitrary: n)
  case Nil
  then show ?case using assms(4,5) by simp
next
  case (Cons r rs)
  then show ?case using assms(3) by (cases "waited r") auto
qed

text \<open>Stopping what was started gives both handles back.\<close>

lemma start_stop_held:
  assumes "net_status_start_monitor c ev th True s = Inr (ctx, s1)"
    and "net_status_stop_monitor (Some ctx) s1 = Inr s2"
  shows "held s2 = held s"
  using assms
  by (auto simp: net_status_start_monitor_def net_status_stop_monitor_def split: if_splits)

end
