(* ===== verification/Route_Service.thy ===== *)
theory Route_Service
  imports Route_Commands Dns_Block Text_Util Net_Monitor
begin

text \<open>
  The route service's message handler (cmd\_handler.c): requests parsed from JSON, the gateway
  search, \<open>configure_routing\<close>, \<open>reset_routing\<close>, and the response. What the service calls outside its
  sources is the record \<open>service_env\<close>; the JSON parser is one of its fields (Json\_Parser models it).
\<close>

section \<open>Requests and responses\<close>

abbreviation CMD_BUFF_SIZE :: nat where
  "CMD_BUFF_SIZE \<equiv> 128"

text \<open>
  Parsed JSON (json.h). A string value is its characters, which may include NUL.
\<close>

datatype json_value =
    JNull
  | JObject "(string \<times> json_value) list"
  | JArray "json_value list"
  | JInteger int
  | JDouble
  | JString string
  | JBoolean int

text \<open>What a C string function sees of a character array.\<close>

definition cstr :: "string \<Rightarrow> string" where
  "cstr s = takeWhile (\<lambda>c. c \<noteq> CHR 0x00) s"

record service_request =
  action :: string
  proxyIp :: string
  req_tapDeviceName :: string
  tapDeviceGatewayIp :: string
  isAutoConnect :: int

definition request_zero :: service_request where
  "request_zero = \<lparr>action = [], proxyIp = [], req_tapDeviceName = [], tapDeviceGatewayIp = [],
     isAutoConnect = 0\<rparr>"

text \<open>\<open>assert(type == json_type_string); strcpy(field, ptr)\<close>\<close>

definition string_field :: "json_value \<Rightarrow> string res" where
  "string_field v = (case v of JString s \<Rightarrow> copy_into CMD_BUFF_SIZE (cstr s) | _ \<Rightarrow> Inl Assert_Failed)"

fun process_parameters :: "(string \<times> json_value) list \<Rightarrow> service_request \<Rightarrow> service_request res" where
  "process_parameters [] req = Inr req"
| "process_parameters ((name, v) # es) req =
     bindr (if cstr name = ''proxyIp'' then
              bindr (string_field v) (\<lambda>s. Inr (req\<lparr>proxyIp := s\<rparr>))
            else if cstr name = ''tapDeviceName'' then
              bindr (string_field v) (\<lambda>s. Inr (req\<lparr>req_tapDeviceName := s\<rparr>))
            else if cstr name = ''tapDeviceGatewayIp'' then
              bindr (string_field v) (\<lambda>s. Inr (req\<lparr>tapDeviceGatewayIp := s\<rparr>))
            else if cstr name = ''isAutoConnect'' then
              (case v of JBoolean b \<Rightarrow> Inr (req\<lparr>isAutoConnect := b\<rparr>) | _ \<Rightarrow> Inl Assert_Failed)
            else Inr req)
       (process_parameters es)"

fun process_entries :: "(string \<times> json_value) list \<Rightarrow> service_request \<Rightarrow> service_request res" where
  "process_entries [] req = Inr req"
| "process_entries ((name, v) # es) req =
     bindr (if cstr name = ''action'' then
              bindr (string_field v) (\<lambda>s. Inr (req\<lparr>action := s\<rparr>))
            else if cstr name = ''parameters'' then
              (case v of JObject ps \<Rightarrow> process_parameters ps req | _ \<Rightarrow> Inl Assert_Failed)
            else Inr req)
       (process_entries es)"

definition process_json_generic :: "json_value \<Rightarrow> service_request \<Rightarrow> service_request res" where
  "process_json_generic v req =
     (case v of JObject es \<Rightarrow> process_entries es req | _ \<Rightarrow> Inl Assert_Failed)"

text \<open>
  A message is the whole buffer the pipe read into; \<open>strlen\<close> runs past its end when it holds no NUL.
\<close>

definition parse_request ::
  "(string \<Rightarrow> json_value option) \<Rightarrow> string \<Rightarrow> service_request \<Rightarrow> service_request res" where
  "parse_request json_parse buffer req =
     (if CHR 0x00 \<notin> set buffer then Inl Out_Of_Bounds
      else (case json_parse (cstr buffer) of
              None \<Rightarrow> Inr req
            | Some v \<Rightarrow> process_json_generic v req))"

definition dquote :: string where
  "dquote = [CHR 0x22]"

definition build_response :: "string \<Rightarrow> int \<Rightarrow> string \<Rightarrow> nat \<Rightarrow> string res" where
  "build_response act code msg n =
     copy_into n (''{'' @ dquote @ ''action'' @ dquote @ '':'' @ dquote @ act @ dquote @ '', ''
       @ dquote @ ''statusCode'' @ dquote @ '': '' @ show_int code @ '', ''
       @ dquote @ ''errorMessage'' @ dquote @ '': '' @ dquote @ msg @ dquote @ '', ''
       @ dquote @ ''connectionStatus'' @ dquote @ '':0 }'')"

section \<open>Addresses\<close>

text \<open>\<open>inet_ntoa\<close> of an address in network byte order: its bytes from the low one up.\<close>

definition inet_ntoa :: "32 word \<Rightarrow> string" where
  "inet_ntoa a =
     show_nat (unat a mod 256) @ ''.'' @ show_nat (unat a div 256 mod 256) @ ''.''
       @ show_nat (unat a div 65536 mod 256) @ ''.'' @ show_nat (unat a div 16777216 mod 256)"

text \<open>
  \<open>getaddrinfo\<close> answers with the entries of its list, family and IPv4 address, or fails. The
  code copies the text into 100 bytes.
\<close>

definition adjust_ipv4_addr ::
  "(string \<Rightarrow> (nat \<times> 32 word) list option) \<Rightarrow> allocator \<Rightarrow> string option \<Rightarrow> string option res" where
  "adjust_ipv4_addr getaddrinfo alloc addr_str =
     (case (addr_str, alloc) of
        (Some a, Some grants) \<Rightarrow>
          (case getaddrinfo a of
             None \<Rightarrow> Inr None
           | Some entries \<Rightarrow>
               (case find (\<lambda>e. fst e = AF_INET) entries of
                  None \<Rightarrow> Inr None
                | Some e \<Rightarrow> if \<not> grants 100 then Inr None
                            else map_sum id Some (copy_into 100 (inet_ntoa (snd e)))))
      | _ \<Rightarrow> Inr None)"

section \<open>Adapter callbacks\<close>

definition interfaces_with_ipv4_gateways :: "adapter \<Rightarrow> wstr \<Rightarrow> nat \<Rightarrow> wstr" where
  "interfaces_with_ipv4_gateways a ip n =
     (case find (\<lambda>g. sa_family g = AF_INET) (gateways a) of
        None \<Rightarrow> ip
      | Some g \<Rightarrow> take n (draft_inet_ntop g [] INET6_ADDRSTRLEN))"

definition pick_live_adapter :: "adapter \<Rightarrow> 'm router_info \<Rightarrow> (bool \<times> 'm router_info) res" where
  "pick_live_adapter a info =
     (if IfType a = IF_TYPE_SOFTWARE_LOOPBACK then Inr (False, info)
      else if FriendlyName a = tapDeviceName info then Inr (False, info)
      else if OperStatus a \<noteq> IfOperStatusUp then Inr (False, info)
      else if find (\<lambda>g. sa_family g = AF_INET) (gateways a) = None then Inr (False, info)
      else bindr (copy_into MAX_PATH (FriendlyName a))
             (\<lambda>name. Inr (True, info\<lparr>gatewayInterfaceName := name\<rparr>)))"

definition retrieve_tap_gateway_ip :: "adapter \<Rightarrow> 'm router_info \<Rightarrow> (bool \<times> 'm router_info) res" where
  "retrieve_tap_gateway_ip a info =
     Inr (if FriendlyName a \<noteq> tapDeviceName info then (False, info)
          else
            let info1 = info\<lparr>tapInterfaceIndex := sint (IfIndex a)\<rparr>
            in if find (\<lambda>g. sa_family g = AF_INET) (gateways a) = None then (False, info1)
               else (True, info1\<lparr>tapGatewayIp :=
                      interfaces_with_ipv4_gateways a (tapGatewayIp info1) MAX_PATH\<rparr>))"

section \<open>The default gateway\<close>

definition get_system_ipv4_gateway :: "int \<Rightarrow> forward_row \<Rightarrow> forward_row \<Rightarrow> bool \<times> forward_row" where
  "get_system_ipv4_gateway tap row best_row =
     (if dwForwardDest row \<noteq> 0 then (False, best_row)
      else if dwForwardIfIndex row = word_of_int tap then (False, best_row)
      else if best_row = zero_row \<or> dwForwardMetric1 row < dwForwardMetric1 best_row then (False, row)
      else (False, best_row))"

section \<open>Configuring and resetting\<close>

text \<open>
  Everything the service calls that is not in its sources, over a world \<open>'w\<close>. The monitor's
  context comes from \<open>CreateEvent\<close> and \<open>CreateThread\<close>.
\<close>

record 'w service_env =
  fwp :: "'w fwp_api"
  run_cmd :: "'w runner"
  json_parser :: "string \<Rightarrow> json_value option"
  resolver :: "string \<Rightarrow> (nat \<times> 32 word) list option"
  MultiByteToWideChar :: "string \<Rightarrow> wstr"
  mallocs :: "nat \<Rightarrow> bool"
  adapters_api :: "'w \<Rightarrow> nat \<Rightarrow> nat \<Rightarrow> gaa_answer"
  forward_api :: "'w \<Rightarrow> forward_table_api"
  best_interface :: "'w \<Rightarrow> nat \<Rightarrow> (32 word) option"
  CreateEvent_handle :: HANDLE
  CreateThread_handle :: HANDLE

text \<open>
  The state of the service process: the router, the globals of the DNS block, its handles, and
  the world.
\<close>

record 'w service =
  router :: "net_change_ctx router_info"
  dns :: dns_state
  handles :: ledger
  world :: 'w

definition FILTER_PROVIDER_NAME :: wstr where
  "FILTER_PROVIDER_NAME = L ''ssrRouteService''"

definition TAP_DEVICE_GATEWAY_IP :: wstr where
  "TAP_DEVICE_GATEWAY_IP = L ''10.0.85.1''"

abbreviation TAP_NAME_SIZE :: nat where
  "TAP_NAME_SIZE \<equiv> MAX_PATH div 4"

definition widen :: "'w service_env \<Rightarrow> string \<Rightarrow> wstr option" where
  "widen env s = utf8_to_wchar_string (MultiByteToWideChar env) (Some (mallocs env)) (Some s)"

text \<open>
  Lines 339-345: the device's name. A conversion without result leaves \<open>lstrcpyW\<close> a null source.
\<close>

definition choose_tap_name :: "'w service_env \<Rightarrow> string \<Rightarrow> wstr res" where
  "choose_tap_name env name =
     (if name \<noteq> []
      then (case widen env name of None \<Rightarrow> Inl Null_Deref | Some tmp \<Rightarrow> copy_into TAP_NAME_SIZE tmp)
      else copy_into TAP_NAME_SIZE TAP_DEVICE_NAME)"

text \<open>Lines 356-386: the addresses of both gateways; \<open>None\<close> when there is no default gateway.\<close>

definition find_tap_gateway ::
  "'w service_env \<Rightarrow> string \<Rightarrow> 'm router_info \<Rightarrow> 'w \<Rightarrow> 'm router_info res" where
  "find_tap_gateway env gatewayIpArg r w =
     bindr (enum_adapter_info (mallocs env) (adapters_api env w) retrieve_tap_gateway_ip r) (\<lambda>r1.
       if tapGatewayIp r1 \<noteq> [] then Inr r1
       else bindr (copy_into MAX_PATH
              (if gatewayIpArg \<noteq> [] then (case widen env gatewayIpArg of None \<Rightarrow> [] | Some tmp \<Rightarrow> tmp)
               else TAP_DEVICE_GATEWAY_IP))
              (\<lambda>ip. Inr (r1\<lparr>tapGatewayIp := ip\<rparr>)))"

definition find_system_gateway ::
  "'w service_env \<Rightarrow> 'm router_info \<Rightarrow> 'w \<Rightarrow> 'm router_info option" where
  "find_system_gateway env r w =
     (let best_row = enum_ip_forward_table (forward_api env w)
                       (get_system_ipv4_gateway (tapInterfaceIndex r)) zero_row
      in if best_row = zero_row then None
         else Some (r\<lparr>gatewayInterfaceIndex := sint (dwForwardIfIndex best_row),
                      gatewayIp := lstrcpyn MAX_PATH
                        (case widen env (inet_ntoa (dwForwardNextHop best_row)) of
                           None \<Rightarrow> [] | Some tmp \<Rightarrow> tmp)\<rparr>))"

text \<open>
  The body of the \<open>do ... while (0)\<close> block: result and state at the point where it is left.
\<close>

definition configure_body ::
  "'w service_env \<Rightarrow> string \<Rightarrow> string \<Rightarrow> string \<Rightarrow> 'w service \<Rightarrow> (int \<times> 'w service) res" where
  "configure_body env proxy tapName tapGateway s =
     (if proxy = [] then Inr (- 1, s)
      else bindr (adjust_ipv4_addr (resolver env) (Some (mallocs env)) (Some proxy)) (\<lambda>new_proxy_ip.
        case new_proxy_ip of
          None \<Rightarrow> Inr (- 1, s)
        | Some ip \<Rightarrow> bindr (choose_tap_name env tapName) (\<lambda>name.
            let r1 = (router s)\<lparr>tapDeviceName := name\<rparr>;
                (result, d, w) = begin_smart_dns_block (fwp env) name FILTER_PROVIDER_NAME (dns s) (world s);
                s1 = s\<lparr>router := r1, dns := d, world := w\<rparr>
            in if result \<noteq> 0 then Inr (result, s1)
            else bindr (copy_into MAX_PATH (case widen env ip of None \<Rightarrow> [] | Some tmp \<Rightarrow> tmp)) (\<lambda>remote.
              bindr (find_tap_gateway env tapGateway (r1\<lparr>remoteProxyIp := remote\<rparr>) w) (\<lambda>r2.
                bindr (enum_adapter_info (mallocs env) (adapters_api env w) pick_live_adapter r2) (\<lambda>r3.
                  case find_system_gateway env r3 w of
                    None \<Rightarrow> Inr (result, s1\<lparr>router := r3\<rparr>)
                  | Some r4 \<Rightarrow>
                      (case install_routes (run_cmd env) (best_interface env) r4 w of (result, w1) \<Rightarrow>
                         Inr (result, s1\<lparr>router := r4, world := w1\<rparr>))))))))"

definition end_block :: "'w service_env \<Rightarrow> 'w service \<Rightarrow> 'w service" where
  "end_block env s = (case end_smart_dns_block (fwp env) (dns s) (world s) of (d, w) \<Rightarrow> s\<lparr>dns := d, world := w\<rparr>)"

definition configure_routing ::
  "'w service_env \<Rightarrow> string \<Rightarrow> string \<Rightarrow> string \<Rightarrow> 'w service \<Rightarrow> (int \<times> 'w service) res" where
  "configure_routing env proxy tapName tapGateway s =
     bindr (configure_body env proxy tapName tapGateway s) (\<lambda>(result, s1).
       Inr (result, if result \<noteq> 0 then end_block env s1 else s1))"

definition reset_routing :: "'w service_env \<Rightarrow> 'w service \<Rightarrow> int \<times> 'w service" where
  "reset_routing env s =
     (case remove_routes (run_cmd env) (best_interface env) (Some (router s)) (world s) of
        (result, w) \<Rightarrow> (result, end_block env (s\<lparr>world := w\<rparr>)))"

section \<open>Requests\<close>

definition stop_monitor :: "'w service \<Rightarrow> 'w service res" where
  "stop_monitor s =
     bindr (net_status_stop_monitor (monitor (router s)) (handles s)) (\<lambda>h.
       Inr (s\<lparr>handles := h, router := (router s)\<lparr>monitor := None\<rparr>\<rparr>))"

definition start_monitor :: "'w service_env \<Rightarrow> 'w service \<Rightarrow> 'w service res" where
  "start_monitor env s =
     bindr (net_status_start_monitor (mallocs env 0) (CreateEvent_handle env) (CreateThread_handle env)
              True (handles s))
       (\<lambda>(ctx, h). Inr (s\<lparr>handles := h, router := (router s)\<lparr>monitor := Some ctx\<rparr>\<rparr>))"

definition handle_request ::
  "'w service_env \<Rightarrow> service_request \<Rightarrow> 'w service \<Rightarrow> (int \<times> 'w service) res" where
  "handle_request env req s =
     bindr (stop_monitor s) (\<lambda>s0.
       bindr (if action req = ''configureRouting''
              then bindr (configure_routing env (proxyIp req) (req_tapDeviceName req) (tapDeviceGatewayIp req) s0)
                     (\<lambda>(result, s1). bindr (start_monitor env s1) (\<lambda>s2. Inr (result, s2)))
              else Inr (- 1, s0))
         (\<lambda>(result, s1).
           Inr (if action req = ''resetRouting''
                then if remoteProxyIp (router s1) = []
                     then (0, s1\<lparr>router := (router s1)\<lparr>shut_down := True\<rparr>\<rparr>)
                     else (case reset_routing env s1 of (result, s2) \<Rightarrow> (result, s2\<lparr>router := router_zero\<rparr>))
                else (result, s1))))"

text \<open>
  The message handler: the flag that keeps the connection, the response and the state. Without a
  message (the pipe is broken) it resets and writes no response.
\<close>

abbreviation BUFSIZE :: nat where
  "BUFSIZE \<equiv> 512"

definition svc_message_handler ::
  "'w service_env \<Rightarrow> string option \<Rightarrow> nat \<Rightarrow> 'w service \<Rightarrow> (bool \<times> string \<times> 'w service) res" where
  "svc_message_handler env msg n s =
     (case msg of
        None \<Rightarrow>
          bindr (handle_request env (request_zero\<lparr>action := ''resetRouting''\<rparr>) s) (\<lambda>(result, s1).
            Inr (True, [], s1\<lparr>router := (router s1)\<lparr>shut_down := False\<rparr>\<rparr>))
      | Some buffer \<Rightarrow>
          bindr (parse_request (json_parser env) buffer request_zero) (\<lambda>req.
            bindr (handle_request env req s) (\<lambda>(result, s1).
              bindr (build_response (action req) (if result \<noteq> 0 then 1 else 0) [] n) (\<lambda>response.
                if shut_down (router s1)
                then Inr (False, response, s1\<lparr>router := (router s1)\<lparr>shut_down := False\<rparr>\<rparr>)
                else Inr (True, response, s1)))))"

section \<open>Lemmas\<close>

subsection \<open>Dotted addresses\<close>

definition addr_char :: "char \<Rightarrow> bool" where
  "addr_char c \<longleftrightarrow> is_digit c \<or> c = CHR ''.''"

lemma inet_ntoa_chars: "c \<in> set (inet_ntoa a) \<Longrightarrow> addr_char c"
  by (auto simp: inet_ntoa_def addr_char_def dest: show_nat_digits)

lemma length_show_byte: "length (show_nat (n mod 256)) \<le> 3"
  using show_nat_bound [of "n mod 256" 2] by (simp add: numeral_3_eq_3 order_le_less_trans [of _ 255])

lemma length_inet_ntoa: "length (inet_ntoa a) \<le> 15"
  using length_show_byte [of "unat a"] length_show_byte [of "unat a div 256"]
    length_show_byte [of "unat a div 65536"] length_show_byte [of "unat a div 16777216"]
  by (simp add: inet_ntoa_def)

lemma inet_ntoa_nonempty [simp]: "inet_ntoa a \<noteq> []"
  by (simp add: inet_ntoa_def)

lemma addr_char_ascii: "addr_char c \<Longrightarrow> (of_char c :: nat) < 128"
  by (auto simp: addr_char_def is_digit_def)

lemma addr_no_slash: "\<forall>c \<in> set s. addr_char c \<Longrightarrow> CHR ''/'' \<notin> set s"
  by (auto simp: addr_char_def is_digit_def)

text \<open>
  The text of an address always fits in the 100 bytes allocated for it, so \<open>adjust_ipv4_addr\<close>
  never faults: it returns the first IPv4 address, or nothing.
\<close>

lemma adjust_ipv4_addr_eq:
  "adjust_ipv4_addr res (Some grants) (Some a) =
     Inr (case res a of None \<Rightarrow> None | Some es \<Rightarrow>
       (case find (\<lambda>e. fst e = AF_INET) es of
          None \<Rightarrow> None | Some e \<Rightarrow> if grants 100 then Some (inet_ntoa (snd e)) else None))"
proof -
  have "copy_into 100 (inet_ntoa x) = Inr (inet_ntoa x)" for x
    using length_inet_ntoa [of x] by (simp add: copy_into_def fits_def)
  then show ?thesis by (simp add: adjust_ipv4_addr_def del: copy_into_Inr split: option.split)
qed

lemma widen_ascii:
  assumes "ascii_law (MultiByteToWideChar env)" and "\<forall>n. mallocs env n"
    and "\<forall>c \<in> set s. (of_char c :: nat) < 128" and "s \<noteq> []"
  shows "widen env s = Some (L s)"
  using assms by (simp add: widen_def utf8_to_wchar_string_def ascii_law_def Let_def)

lemma widen_addr:
  assumes "ascii_law (MultiByteToWideChar env)" and "\<forall>n. mallocs env n"
  shows "widen env (inet_ntoa a) = Some (L (inet_ntoa a))"
  using assms by (intro widen_ascii) (auto dest: inet_ntoa_chars addr_char_ascii)

subsection \<open>The gateway search\<close>

definition eligible :: "int \<Rightarrow> forward_row \<Rightarrow> bool" where
  "eligible tap r \<longleftrightarrow> dwForwardDest r = 0 \<and> dwForwardIfIndex r \<noteq> word_of_int tap"

definition first_best :: "int \<Rightarrow> forward_row list \<Rightarrow> forward_row \<Rightarrow> bool" where
  "first_best tap rows b \<longleftrightarrow> (\<exists>xs ys. rows = xs @ b # ys \<and> eligible tap b
     \<and> (\<forall>r \<in> set xs. eligible tap r \<longrightarrow> dwForwardMetric1 b < dwForwardMetric1 r)
     \<and> (\<forall>r \<in> set ys. eligible tap r \<longrightarrow> dwForwardMetric1 b \<le> dwForwardMetric1 r))"

lemma get_system_ipv4_gateway_eq:
  "get_system_ipv4_gateway tap r b =
     (False, if eligible tap r \<and> (b = zero_row \<or> dwForwardMetric1 r < dwForwardMetric1 b) then r else b)"
  by (simp add: get_system_ipv4_gateway_def eligible_def)

lemma walk_rows_snoc:
  "walk_rows (get_system_ipv4_gateway tap) (xs @ [r]) b =
     snd (get_system_ipv4_gateway tap r (walk_rows (get_system_ipv4_gateway tap) xs b))"
  by (induction xs arbitrary: b) (simp_all add: get_system_ipv4_gateway_eq)

lemma first_best_extend: "first_best tap rows b \<Longrightarrow> \<not> (eligible tap r \<and> dwForwardMetric1 r < dwForwardMetric1 b)
  \<Longrightarrow> first_best tap (rows @ [r]) b"
proof -
  assume "first_best tap rows b" and r: "\<not> (eligible tap r \<and> dwForwardMetric1 r < dwForwardMetric1 b)"
  then obtain xs ys where *: "rows = xs @ b # ys" "eligible tap b"
      "\<forall>r \<in> set xs. eligible tap r \<longrightarrow> dwForwardMetric1 b < dwForwardMetric1 r"
      "\<forall>r \<in> set ys. eligible tap r \<longrightarrow> dwForwardMetric1 b \<le> dwForwardMetric1 r"
    unfolding first_best_def by blast
  show ?thesis unfolding first_best_def
    by (rule exI [of _ xs], rule exI [of _ "ys @ [r]"]) (use * r in auto)
qed

lemma first_best_mem: "first_best tap rows b \<Longrightarrow> b \<in> set rows"
  by (auto simp: first_best_def)

lemma first_best_new:
  assumes "first_best tap rows b" and "eligible tap r" and "dwForwardMetric1 r < dwForwardMetric1 b"
  shows "first_best tap (rows @ [r]) r"
proof -
  have "\<forall>x \<in> set rows. eligible tap x \<longrightarrow> dwForwardMetric1 b \<le> dwForwardMetric1 x"
    using assms(1) unfolding first_best_def by (auto simp: less_imp_le)
  then have "\<forall>x \<in> set rows. eligible tap x \<longrightarrow> dwForwardMetric1 r < dwForwardMetric1 x"
    using assms(3) by (auto intro: less_le_trans)
  with assms(2) show ?thesis unfolding first_best_def
    by (intro exI [of _ rows] exI [of _ "[]"]) simp
qed

lemma walk_rows_gateway:
  assumes "zero_row \<notin> set rows"
  shows "if \<exists>r \<in> set rows. eligible tap r
    then first_best tap rows (walk_rows (get_system_ipv4_gateway tap) rows zero_row)
    else walk_rows (get_system_ipv4_gateway tap) rows zero_row = zero_row"
  using assms
proof (induction rows rule: rev_induct)
  case Nil
  then show ?case by simp
next
  case (snoc r rows)
  let ?b = "walk_rows (get_system_ipv4_gateway tap) rows zero_row"
  have step: "walk_rows (get_system_ipv4_gateway tap) (rows @ [r]) zero_row =
      (if eligible tap r \<and> (?b = zero_row \<or> dwForwardMetric1 r < dwForwardMetric1 ?b) then r else ?b)"
    by (simp add: walk_rows_snoc get_system_ipv4_gateway_eq)
  show ?case
  proof (cases "\<exists>r \<in> set rows. eligible tap r")
    case True
    with snoc have fb: "first_best tap rows ?b" by simp
    then have "?b \<in> set rows" by (rule first_best_mem)
    with snoc.prems have "?b \<noteq> zero_row" by auto
    with True fb show ?thesis
      by (auto simp: step intro: first_best_extend first_best_new)
  next
    case False
    with snoc have "?b = zero_row" by simp
    moreover have "first_best tap (rows @ [r]) r" if "eligible tap r"
      unfolding first_best_def by (rule exI [of _ rows], rule exI [of _ "[]"]) (use that False in auto)
    ultimately show ?thesis using False by (auto simp: step)
  qed
qed

subsection \<open>The exits of configure\_routing\<close>

lemma find_tap_gateway_keeps:
  assumes "find_tap_gateway env g r w = Inr r'"
  shows "remoteProxyIp r' = remoteProxyIp r \<and> tapDeviceName r' = tapDeviceName r"
proof -
  obtain r1 where "enum_adapter_info (mallocs env) (adapters_api env w) retrieve_tap_gateway_ip r = Inr r1"
    and r': "remoteProxyIp r' = remoteProxyIp r1" "tapDeviceName r' = tapDeviceName r1"
    using assms by (auto simp: find_tap_gateway_def bindr_eq_Inr split: if_splits)
  from this(1) have "remoteProxyIp r1 = remoteProxyIp r \<and> tapDeviceName r1 = tapDeviceName r"
    by (rule enum_adapter_info_inv
        [where P = "\<lambda>x. remoteProxyIp x = remoteProxyIp r \<and> tapDeviceName x = tapDeviceName r", rotated 2])
      (auto simp: retrieve_tap_gateway_ip_def Let_def split: if_splits)
  with r' show ?thesis by simp
qed

lemma pick_live_adapter_keeps:
  assumes "enum_adapter_info m g pick_live_adapter r = Inr r'"
  shows "remoteProxyIp r' = remoteProxyIp r \<and> tapDeviceName r' = tapDeviceName r"
  using assms
  by (rule enum_adapter_info_inv
      [where P = "\<lambda>x. remoteProxyIp x = remoteProxyIp r \<and> tapDeviceName x = tapDeviceName r", rotated 2])
    (auto simp: pick_live_adapter_def bindr_eq_Inr split: if_splits)

lemma find_system_gateway_keeps:
  "find_system_gateway env r w = Some r' \<Longrightarrow>
     remoteProxyIp r' = remoteProxyIp r \<and> tapDeviceName r' = tapDeviceName r"
  by (auto simp: find_system_gateway_def Let_def split: if_splits)

lemma configure_routing_cases:
  assumes "configure_routing env p t g s = Inr (result, s')"
  obtains (rejected) "result = - 1" "s' = end_block env s"
      "p = [] \<or> adjust_ipv4_addr (resolver env) (Some (mallocs env)) (Some p) = Inr None"
  | (blocked) name d w where "choose_tap_name env t = Inr name"
      "begin_smart_dns_block (fwp env) name FILTER_PROVIDER_NAME (dns s) (world s) = (result, d, w)"
      "result \<noteq> 0"
      "s' = end_block env (s\<lparr>router := (router s)\<lparr>tapDeviceName := name\<rparr>, dns := d, world := w\<rparr>)"
  | (gatewayless) ip name d w r3 where
      "adjust_ipv4_addr (resolver env) (Some (mallocs env)) (Some p) = Inr (Some ip)"
      "choose_tap_name env t = Inr name"
      "begin_smart_dns_block (fwp env) name FILTER_PROVIDER_NAME (dns s) (world s) = (0, d, w)"
      "find_system_gateway env r3 w = None" "result = 0" "tapDeviceName r3 = name"
      "s' = s\<lparr>router := r3, dns := d, world := w\<rparr>"
      "remoteProxyIp r3 = (case widen env ip of None \<Rightarrow> [] | Some tmp \<Rightarrow> tmp)"
  | (routed) ip name d w r3 r4 w1 where
      "adjust_ipv4_addr (resolver env) (Some (mallocs env)) (Some p) = Inr (Some ip)"
      "choose_tap_name env t = Inr name"
      "begin_smart_dns_block (fwp env) name FILTER_PROVIDER_NAME (dns s) (world s) = (0, d, w)"
      "find_system_gateway env r3 w = Some r4" "tapDeviceName r4 = name"
      "remoteProxyIp r4 = (case widen env ip of None \<Rightarrow> [] | Some tmp \<Rightarrow> tmp)"
      "install_routes (run_cmd env) (best_interface env) r4 w = (result, w1)"
      "s' = (let s1 = s\<lparr>router := r4, dns := d, world := w1\<rparr>
             in if result \<noteq> 0 then end_block env s1 else s1)"
proof -
  obtain s1 where body: "configure_body env p t g s = Inr (result, s1)"
    and s': "s' = (if result \<noteq> 0 then end_block env s1 else s1)"
    using assms by (auto simp: configure_routing_def bindr_eq_Inr)
  show ?thesis
  proof (cases "p = [] \<or> adjust_ipv4_addr (resolver env) (Some (mallocs env)) (Some p) = Inr None")
    case True
    with body have "result = - 1 \<and> s1 = s"
      by (auto simp: configure_body_def split: if_splits)
    with s' True show ?thesis by (intro rejected) auto
  next
    case False
    then have p: "p \<noteq> []" by simp
    with body obtain new where new: "adjust_ipv4_addr (resolver env) (Some (mallocs env)) (Some p) = Inr new"
      by (cases "adjust_ipv4_addr (resolver env) (Some (mallocs env)) (Some p)")
        (auto simp: configure_body_def)
    with False obtain ip where
      ip: "adjust_ipv4_addr (resolver env) (Some (mallocs env)) (Some p) = Inr (Some ip)"
      by (cases new) auto
    with body p obtain name where name: "choose_tap_name env t = Inr name"
      by (cases "choose_tap_name env t") (auto simp: configure_body_def)
    obtain res d w where
      beg: "begin_smart_dns_block (fwp env) name FILTER_PROVIDER_NAME (dns s) (world s) = (res, d, w)"
      by (cases "begin_smart_dns_block (fwp env) name FILTER_PROVIDER_NAME (dns s) (world s)")
    show ?thesis
    proof (cases "res = 0")
      case False
      with body p ip name beg have "result = res
          \<and> s1 = s\<lparr>router := (router s)\<lparr>tapDeviceName := name\<rparr>, dns := d, world := w\<rparr>"
        by (auto simp: configure_body_def Let_def)
      with False s' name beg show ?thesis by (intro blocked [of name d w]) simp_all
    next
      case True
      let ?s1 = "s\<lparr>router := (router s)\<lparr>tapDeviceName := name\<rparr>, dns := d, world := w\<rparr>"
      let ?remote = "case widen env ip of None \<Rightarrow> [] | Some tmp \<Rightarrow> tmp"
      from body p ip name beg True obtain r2 r3 where
        r2: "find_tap_gateway env g ((router s)\<lparr>tapDeviceName := name, remoteProxyIp := ?remote\<rparr>) w = Inr r2"
        and r3: "enum_adapter_info (mallocs env) (adapters_api env w) pick_live_adapter r2 = Inr r3"
        and out: "(case find_system_gateway env r3 w of
              None \<Rightarrow> Inr (0, ?s1\<lparr>router := r3\<rparr>)
            | Some r4 \<Rightarrow> (case install_routes (run_cmd env) (best_interface env) r4 w of (result, w1) \<Rightarrow>
                 Inr (result, ?s1\<lparr>router := r4, world := w1\<rparr>))) = (Inr (result, s1) :: _ res)"
        by (auto simp: configure_body_def Let_def bindr_eq_Inr)
      have keep: "remoteProxyIp r3 = ?remote" "tapDeviceName r3 = name"
        using find_tap_gateway_keeps [OF r2] pick_live_adapter_keeps [OF r3] by simp_all
      show ?thesis
      proof (cases "find_system_gateway env r3 w")
        case None
        with out s' keep show ?thesis
          using ip name beg True by (intro gatewayless [of ip name d w r3]) auto
      next
        case (Some r4)
        with out obtain w1 where "install_routes (run_cmd env) (best_interface env) r4 w = (result, w1)"
          "s1 = s\<lparr>router := r4, dns := d, world := w1\<rparr>"
          by (auto split: prod.splits)
        with Some s' keep find_system_gateway_keeps [OF Some] show ?thesis
          using ip name beg True by (intro routed [of ip name d w r3 r4 w1]) (auto simp: Let_def)
      qed
    qed
  qed
qed

text \<open>What every command keeps, the installation keeps.\<close>

lemma or_else_keeps: "P w \<Longrightarrow> (\<And>w. P w \<Longrightarrow> P (snd (f w))) \<Longrightarrow> (\<And>w. P w \<Longrightarrow> P (snd (g w))) \<Longrightarrow>
  P (snd (or_else f g w))"
  by (simp add: or_else_def split_beta)

lemma install_routes_keeps:
  assumes run: "\<And>c f a w. P w \<Longrightarrow> P (snd (run c f a w))" and "P w"
  shows "P (snd (install_routes run b r w))"
proof -
  have "P (snd (add_ipv4_redirect run (Some r) w))" "P (snd (stop_routing_ipv6 run i w))"
    "P (snd (add_or_update_proxy_route run r w))" "P (snd (add_or_update_reserved_subnet_bypass run r w))"
    if "P w" for i w
    unfolding add_ipv4_redirect_def option.case stop_routing_ipv6_def add_or_update_proxy_route_def
      add_or_update_reserved_subnet_bypass_def
    by (auto intro!: for_break_keeps [where P = P] or_else_keeps [where P = P] run that)
  with assms(2) show ?thesis by (simp add: install_routes_def split_beta)
qed

subsection \<open>The monitor's handles\<close>

text \<open>
  What the process holds beyond what it held at start: the two handles of a running monitor.
\<close>

definition monitor_handles :: "net_change_ctx option \<Rightarrow> HANDLE multiset" where
  "monitor_handles m =
     (case m of None \<Rightarrow> {#} | Some c \<Rightarrow> hmset (hThread c) + hmset (hEventExit c))"

definition handles_inv :: "HANDLE multiset \<Rightarrow> 'w service \<Rightarrow> bool" where
  "handles_inv base s \<longleftrightarrow> held (handles s) = monitor_handles (monitor (router s)) + base"

lemma end_block_fields [simp]:
  "router (end_block env s) = router s" "handles (end_block env s) = handles s"
  "engine (dns (end_block env s)) = 0"
  by (cases "end_smart_dns_block (fwp env) (dns s) (world s)";
      use end_engine(1) [of "fwp env" "dns s" "world s"] in \<open>simp add: end_block_def\<close>)+

lemma stop_monitor_held:
  "handles_inv base s \<Longrightarrow> stop_monitor s = Inr s' \<Longrightarrow>
     held (handles s') = base \<and> monitor (router s') = None"
  by (auto simp: stop_monitor_def net_status_stop_monitor_def bindr_eq_Inr handles_inv_def
      monitor_handles_def split: option.splits if_splits)

lemma start_monitor_inv:
  "held (handles s) = base \<Longrightarrow> start_monitor env s = Inr s' \<Longrightarrow> handles_inv base s'"
  by (auto simp: start_monitor_def net_status_start_monitor_def bindr_eq_Inr handles_inv_def
      monitor_handles_def ac_simps split: if_splits)

lemma configure_routing_handles:
  assumes "configure_routing env p t g s = Inr (result, s')"
  shows "handles s' = handles s"
  using assms by (rule configure_routing_cases) (simp_all add: Let_def)

lemma reset_routing_handles [simp]: "handles (snd (reset_routing env s)) = handles s"
  by (simp add: reset_routing_def split: prod.split)

lemma handle_request_inv:
  assumes inv: "handles_inv base s" and h: "handle_request env req s = Inr (result, s')"
  shows "handles_inv base s'"
proof -
  obtain s0 where s0: "stop_monitor s = Inr s0"
    using h by (auto simp: handle_request_def bindr_eq_Inr)
  with stop_monitor_held [OF inv] have held0: "held (handles s0) = base" "monitor (router s0) = None"
    by blast+
  show ?thesis
  proof (cases "action req = ''configureRouting''")
    case True
    with h s0 obtain r1 s1 where "configure_routing env (proxyIp req) (req_tapDeviceName req)
        (tapDeviceGatewayIp req) s0 = Inr (r1, s1)" and st: "start_monitor env s1 = Inr s'"
      by (auto simp: handle_request_def bindr_eq_Inr)
    from this(1) have "handles s1 = handles s0" by (rule configure_routing_handles)
    with start_monitor_inv [OF _ st] held0 show ?thesis by simp
  next
    case False
    with h s0 have "s' = (if action req = ''resetRouting''
        then if remoteProxyIp (router s0) = [] then s0\<lparr>router := (router s0)\<lparr>shut_down := True\<rparr>\<rparr>
             else (snd (reset_routing env s0))\<lparr>router := router_zero\<rparr> else s0)"
      by (auto simp: handle_request_def split: if_splits prod.splits)
    then have "handles s' = handles s0 \<and> monitor (router s') = None"
      using held0(2) by (auto simp: router_zero_def)
    with held0 show ?thesis by (simp add: handles_inv_def monitor_handles_def)
  qed
qed

lemma svc_message_handler_inv:
  assumes "handles_inv base s" and "svc_message_handler env msg n s = Inr (keep, resp, s')"
  shows "handles_inv base s' \<and> (\<not> shut_down (router s'))"
proof -
  obtain req result s1 where h: "handle_request env req s = Inr (result, s1)"
    and s': "s' = s1 \<and> \<not> shut_down (router s1) \<or> s' = s1\<lparr>router := (router s1)\<lparr>shut_down := False\<rparr>\<rparr>"
    using assms(2)
    by (auto simp: svc_message_handler_def bindr_eq_Inr split: option.splits if_splits)
  from handle_request_inv [OF assms(1) h] s' show ?thesis
    by (auto simp: handles_inv_def)
qed

subsection \<open>Runs of messages\<close>

definition svc_step :: "'w service_env \<Rightarrow> 'w service res \<Rightarrow> string option \<Rightarrow> 'w service res" where
  "svc_step env r msg =
     bindr r (\<lambda>s. bindr (svc_message_handler env msg BUFSIZE s) (\<lambda>(keep, response, s'). Inr s'))"

definition res_inv :: "('a \<Rightarrow> bool) \<Rightarrow> 'a res \<Rightarrow> bool" where
  "res_inv P r = (case r of Inl e \<Rightarrow> True | Inr x \<Rightarrow> P x)"

lemma svc_step_inv:
  "res_inv (\<lambda>s. handles_inv base s \<and> \<not> shut_down (router s)) r \<Longrightarrow>
     res_inv (\<lambda>s. handles_inv base s \<and> \<not> shut_down (router s)) (svc_step env r msg)"
  using svc_message_handler_inv [of base _ env msg BUFSIZE]
  by (auto simp: svc_step_def res_inv_def bindr_def split: sum.splits)

interpretation svc: event_machine "svc_step env"
  "res_inv (\<lambda>s. handles_inv base s \<and> \<not> shut_down (router s))" for env base
  by unfold_locales (rule svc_step_inv)

subsection \<open>A small system\<close>

text \<open>
  A world for the witnesses: the DNS filters with their id counter, and the routing table; every
  routing command succeeds.
\<close>

type_synonym demo_system = "demo_world \<times> route_table"

definition lift_fwp :: "demo_world fwp_api \<Rightarrow> demo_system fwp_api" where
  "lift_fwp a =
     \<lparr>GetAdaptersAddresses4 = (\<lambda>n w. GetAdaptersAddresses4 a n (fst w)),
      FwpmEngineOpen0 = (\<lambda>w. case FwpmEngineOpen0 a (fst w) of (r, h, x) \<Rightarrow> (r, h, (x, snd w))),
      UuidCreate = (\<lambda>w. case UuidCreate a (fst w) of (k, x) \<Rightarrow> (k, (x, snd w))),
      FwpmSubLayerAdd0 = (\<lambda>h sl w. case FwpmSubLayerAdd0 a h sl (fst w) of (r, x) \<Rightarrow> (r, (x, snd w))),
      FwpmFilterAdd0 = (\<lambda>h f w. case FwpmFilterAdd0 a h f (fst w) of (r, i, x) \<Rightarrow> (r, i, (x, snd w))),
      FwpmFilterDeleteById0 = (\<lambda>h i w. (FwpmFilterDeleteById0 a h i (fst w), snd w)),
      FwpmSubLayerDeleteByKey0 = (\<lambda>h k w. (FwpmSubLayerDeleteByKey0 a h k (fst w), snd w)),
      FwpmEngineClose0 = (\<lambda>h w. (FwpmEngineClose0 a h (fst w), snd w))\<rparr>"

definition demo_run :: "demo_system runner" where
  "demo_run cmd fmt args w = (0, (fst w, apply_op (op_of cmd fmt args) (snd w)))"

definition demo_row :: forward_row where
  "demo_row = \<lparr>dwForwardDest = 0, dwForwardNextHop = 0x0101A8C0, dwForwardIfIndex = 3,
     dwForwardMetric1 = 25, dwForwardRest = replicate 10 0\<rparr>"

definition demo_env :: "forward_row list \<Rightarrow> demo_system service_env" where
  "demo_env rows =
     \<lparr>fwp = lift_fwp (demo_fwp [(TAP_DEVICE_NAME, 7)]), run_cmd = demo_run,
      json_parser = (\<lambda>s. if s = ''reset'' then Some (JObject [(''action'', JString ''resetRouting'')])
        else if s = ''bad'' then Some (JObject [(''action'', JString (replicate 128 CHR ''a''))])
        else Some (JObject [(''action'', JString ''configureRouting''),
          (''parameters'', JObject [(''proxyIp'', JString s)])])),
      resolver = (\<lambda>a. Some [(AF_INET, 0x04030201)]),
      MultiByteToWideChar = L, mallocs = (\<lambda>n. True),
      adapters_api = (\<lambda>w k n. \<lparr>ga_result = 0, ga_outBufLen = 0, ga_adapters = []\<rparr>),
      forward_api = (\<lambda>w. \<lparr>size_query = ERROR_INSUFFICIENT_BUFFER, heap_alloc_ok = True, table_query = (0, rows)\<rparr>),
      best_interface = (\<lambda>w family. Some 1),
      CreateEvent_handle = 100, CreateThread_handle = 104\<rparr>"

definition demo_service :: "demo_system service" where
  "demo_service = \<lparr>router = router_zero, dns = dns_init,
     handles = \<lparr>opened = [], last_error = 0, PipeSerialNumber = 0\<rparr>,
     world = ((Map.empty, 1), \<lparr>v4 = Map.empty, v6 = Map.empty\<rparr>)\<rparr>"

lemma demo_route_laws: "route_laws (run_cmd (demo_env rows)) snd"
  by (simp add: route_laws_def demo_env_def demo_run_def)

lemma demo_fwp_service_laws: "fwp_laws (fwp (demo_env rows)) (fst \<circ> fst)"
  by (auto simp: fwp_laws_def demo_env_def lift_fwp_def demo_fwp_def split: if_splits prod.splits)

lemma demo_ascii: "ascii_law (MultiByteToWideChar (demo_env rows))"
  by (simp add: ascii_law_def demo_env_def)

lemma demo_mallocs: "mallocs (demo_env rows) n"
  by (simp add: demo_env_def)


text \<open>The evaluation of the small system, stage by stage.\<close>

lemma demo_begin:
  "begin_smart_dns_block (fwp (demo_env rows)) TAP_DEVICE_NAME prov dns_init ((Map.empty, 1), t)
  = (0, \<lparr>GET_ADAPTERS_ADDRESSES_BUFFER_SIZE = 16384, engine = 1, sublayer_key = 7, filterId = 1, filterId2 = 2\<rparr>,
     (([1 \<mapsto> udpBlockFilter prov 7, 2 \<mapsto> tapDeviceWhitelistFilter prov 7 7], 3), t))"
  by (simp add: begin_smart_dns_block_def demo_env_def lift_fwp_def demo_fwp_def install_filters_def
      Let_def dns_init_def)

lemma choose_default_name: "choose_tap_name env [] = Inr TAP_DEVICE_NAME"
  by (simp add: choose_tap_name_def TAP_DEVICE_NAME_def)

lemma demo_widen: "widen (demo_env rows) s = (if s = [] then None else Some (L s))"
  by (simp add: widen_def utf8_to_wchar_string_def demo_env_def Let_def)

lemma demo_enum: "enum_adapter_info (mallocs (demo_env rows)) (adapters_api (demo_env rows) w) f r = Inr r"
  by (simp add: enum_adapter_info_def demo_env_def numeral_3_eq_3 ERROR_BUFFER_OVERFLOW_def)

lemma demo_tap_gateway:
  "tapGatewayIp r = [] \<Longrightarrow>
     find_tap_gateway (demo_env rows) [] r w = Inr (r\<lparr>tapGatewayIp := TAP_DEVICE_GATEWAY_IP\<rparr>)"
  by (simp add: find_tap_gateway_def demo_enum TAP_DEVICE_GATEWAY_IP_def)

lemma lstrcpyn_inet_ntoa: "lstrcpyn MAX_PATH (L (inet_ntoa a)) = L (inet_ntoa a)"
  using length_inet_ntoa [of a] by (intro lstrcpyn_id) (simp add: fits_def)

lemma demo_system_gateway:
  "find_system_gateway (demo_env rows) r w =
     (let b = walk_rows (get_system_ipv4_gateway (tapInterfaceIndex r)) rows zero_row
      in if b = zero_row then None
         else Some (r\<lparr>gatewayInterfaceIndex := sint (dwForwardIfIndex b),
                      gatewayIp := L (inet_ntoa (dwForwardNextHop b))\<rparr>))"
proof -
  have "enum_ip_forward_table (forward_api (demo_env rows) w) (get_system_ipv4_gateway (tapInterfaceIndex r))
      zero_row = walk_rows (get_system_ipv4_gateway (tapInterfaceIndex r)) rows zero_row"
    by (simp add: enum_ip_forward_table_def demo_env_def)
  moreover have "(case widen (demo_env rows) (inet_ntoa a) of None \<Rightarrow> [] | Some tmp \<Rightarrow> tmp) = L (inet_ntoa a)" for a
    by (simp add: demo_widen)
  ultimately show ?thesis
    by (simp only: find_system_gateway_def lstrcpyn_inet_ntoa)
qed

lemma or_else_zero: "(\<And>w. fst (f w) = 0) \<Longrightarrow> fst (or_else f g w) = 0"
  by (simp add: or_else_def split_beta)

lemma install_routes_zero:
  assumes "\<And>c f a w. fst (run c f a w) = 0"
  shows "fst (install_routes run b r w) = 0"
proof -
  have "fst (add_ipv4_redirect run (Some r) w) = 0" "fst (stop_routing_ipv6 run i w) = 0"
    "fst (add_or_update_proxy_route run r w) = 0" "fst (add_or_update_reserved_subnet_bypass run r w) = 0"
    for i w
    unfolding add_ipv4_redirect_def option.case stop_routing_ipv6_def add_or_update_proxy_route_def
      add_or_update_reserved_subnet_bypass_def
    by (intro for_break_zero or_else_zero assms)+
  then show ?thesis by (simp add: install_routes_def split_beta)
qed

lemma demo_install_zero: "fst (install_routes (run_cmd (demo_env rows)) b r w) = 0"
  by (rule install_routes_zero) (simp add: demo_env_def demo_run_def)

lemma demo_resolve:
  "adjust_ipv4_addr (resolver (demo_env rows)) (Some (mallocs (demo_env rows))) (Some a)
     = Inr (Some (inet_ntoa 0x04030201))"
  by (simp add: adjust_ipv4_addr_eq demo_env_def)

definition demo_router :: "net_change_ctx router_info" where
  "demo_router = router_zero\<lparr>tapDeviceName := TAP_DEVICE_NAME, remoteProxyIp := L (inet_ntoa 0x04030201),
     tapGatewayIp := TAP_DEVICE_GATEWAY_IP, gatewayInterfaceIndex := 3, gatewayIp := L (inet_ntoa 0x0101A8C0)\<rparr>"

lemma demo_configure:
  "\<exists>s'. configure_routing (demo_env [demo_row]) ''x'' [] [] demo_service = Inr (0, s')
     \<and> router s' = demo_router \<and> engine (dns s') = 1"
proof -
  have w: "get_system_ipv4_gateway 0 demo_row zero_row = (False, demo_row)"
    by (simp add: get_system_ipv4_gateway_def demo_row_def zero_row_def)
  have nz: "demo_row \<noteq> zero_row" by (simp add: demo_row_def zero_row_def)
  have small: "length (inet_ntoa a) < 260" for a
    using length_inet_ntoa [of a] by simp
  have f: "dwForwardIfIndex demo_row = 3" "dwForwardNextHop demo_row = 0x0101A8C0"
    by (simp_all add: demo_row_def)
  obtain w1 where inst: "install_routes (run_cmd (demo_env [demo_row])) (best_interface (demo_env [demo_row]))
      demo_router (snd (snd (begin_smart_dns_block (fwp (demo_env [demo_row])) TAP_DEVICE_NAME
        FILTER_PROVIDER_NAME (dns demo_service) (world demo_service)))) = (0, w1)"
    using demo_install_zero [of "[demo_row]"] by (metis prod.collapse)
  then show ?thesis
    by (simp add: configure_routing_def configure_body_def demo_resolve choose_default_name Let_def
        demo_service_def demo_begin demo_widen small demo_tap_gateway demo_enum demo_system_gateway
        w nz f router_zero_def demo_router_def)
qed

section \<open>Properties\<close>

text \<open>
  C20: The default gateway. When the routing table names an interface in every row, the row the
  service goes through is the first one of least metric among the rows for destination 0.0.0.0
  that do not lead through the TAP device, and it finds none exactly when there is none.
\<close>

theorem default_gateway_first_minimal:
  assumes "size_query api = ERROR_INSUFFICIENT_BUFFER" and "heap_alloc_ok api"
    and "table_query api = (0, rows)" and "zero_row \<notin> set rows"
  shows "if \<exists>r \<in> set rows. eligible tap r
    then first_best tap rows (enum_ip_forward_table api (get_system_ipv4_gateway tap) zero_row)
    else enum_ip_forward_table api (get_system_ipv4_gateway tap) zero_row = zero_row"
  using walk_rows_gateway [OF assms(4), of tap] assms(1-3) by (simp add: enum_ip_forward_table_def)

lemma default_gateway_first_minimal_witness:
  "first_best 7 [demo_row] (enum_ip_forward_table
     \<lparr>size_query = ERROR_INSUFFICIENT_BUFFER, heap_alloc_ok = True, table_query = (0, [demo_row])\<rparr>
     (get_system_ipv4_gateway 7) zero_row)"
proof -
  have "zero_row \<notin> set [demo_row]" "eligible 7 demo_row"
    by (simp_all add: zero_row_def demo_row_def eligible_def)
  then show ?thesis
    using default_gateway_first_minimal [of "\<lparr>size_query = ERROR_INSUFFICIENT_BUFFER,
        heap_alloc_ok = True, table_query = (0, [demo_row])\<rparr>" "[demo_row]" 7]
    by simp
qed

text \<open>
  C5: What success of \<open>configure_routing\<close> means. With an ASCII-preserving conversion, a platform
  that obeys its documentation and commands that do what they say, a configuration that returns 0
  leaves the DNS block running, and either the routing table sends both halves of the IPv4 space to
  the TAP device's gateway, the IPv6 prefixes to the loopback interface, and the proxy and all
  reserved subnets to the system's gateway; or there was no default gateway and no route was
  touched.
\<close>

theorem configure_routing_success:
  assumes laws: "route_laws (run_cmd env) tbl" "fwp_laws (fwp env) flt"
    and conv: "ascii_law (MultiByteToWideChar env)" "\<forall>n. mallocs env n"
    and ok: "configure_routing env p t g s = Inr (0, s')"
  shows "engine (dns s') \<noteq> 0
    \<and> ((\<exists>loopback. routes_installed (router s') loopback (tbl (world s')))
       \<or> (\<exists>w. world s' = w \<and> find_system_gateway env (router s') w = None
            \<and> (0, dns s', w) =
               begin_smart_dns_block (fwp env) (tapDeviceName (router s')) FILTER_PROVIDER_NAME (dns s) (world s)))"
  using ok
proof (cases rule: configure_routing_cases)
  case rejected
  then show ?thesis by simp
next
  case (blocked name d w)
  then show ?thesis by simp
next
  case (gatewayless ip name d w r3)
  with begin_success_engine [OF laws(2) gatewayless(3)] show ?thesis by auto
next
  case (routed ip name d w r3 r4 w1)
  from routed(1) obtain a where ip: "ip = inet_ntoa a"
    by (auto simp: adjust_ipv4_addr_eq split: option.splits if_splits)
  with routed(6) widen_addr [OF conv, of a] have remote: "remoteProxyIp r4 = L (inet_ntoa a)" by simp
  have "CHR ''/'' \<notin> set (inet_ntoa a)"
    by (rule addr_no_slash) (simp add: inet_ntoa_chars)
  with remote have "(47 :: wchar) \<notin> set (remoteProxyIp r4)" by simp
  from install_routes_table [OF laws(1) this, of "best_interface env" w] routed(7,8)
  have "\<exists>lb. routes_installed (router s') lb (tbl (world s'))" by auto
  moreover have "engine (dns s') \<noteq> 0"
    using begin_success_engine [OF laws(2) routed(3)] routed(8) by simp
  ultimately show ?thesis by blast
qed

lemma configure_routing_success_witness:
  "\<exists>s'. configure_routing (demo_env [demo_row]) ''x'' [] [] demo_service = Inr (0, s')
    \<and> engine (dns s') \<noteq> 0"
proof -
  obtain s' where "configure_routing (demo_env [demo_row]) ''x'' [] [] demo_service = Inr (0, s')"
    using demo_configure by blast
  with configure_routing_success [OF demo_route_laws demo_fwp_service_laws demo_ascii _ this]
  show ?thesis by (auto simp: demo_mallocs)
qed

text \<open>Every exit of \<open>configure_routing\<close> leaves a consistent session, a failing one a closed session.\<close>

lemma end_block_clears:
  assumes "fwp_laws (fwp env) flt" and "dns_consistent flt FILTER_PROVIDER_NAME (dns s, world s)"
  shows "dns_consistent flt FILTER_PROVIDER_NAME (dns (end_block env s), world (end_block env s))"
proof -
  from assms(2) have "engine (dns s) = 0 \<longrightarrow> flt (world s) = Map.empty"
    by (simp add: dns_consistent_def split: if_splits)
  from end_consistent [OF assms(1) this, of FILTER_PROVIDER_NAME] show ?thesis
    by (cases "end_smart_dns_block (fwp env) (dns s) (world s)") (simp add: end_block_def)
qed

lemma closed_session_empty:
  "dns_consistent flt prov (d, w) \<Longrightarrow> engine d = 0 \<Longrightarrow> flt w = Map.empty"
  by (simp add: dns_consistent_def)

lemma dns_consistent_view: "dns_consistent flt prov (d, w) \<Longrightarrow> flt w' = flt w \<Longrightarrow> dns_consistent flt prov (d, w')"
  by (simp add: dns_consistent_def)

lemma configure_routing_dns:
  assumes laws: "fwp_laws (fwp env) flt" and view: "\<And>c f a w. flt (snd (run_cmd env c f a w)) = flt w"
    and start: "dns_consistent flt FILTER_PROVIDER_NAME (dns s, world s)"
    and conf: "configure_routing env p t g s = Inr (result, s')"
  shows "dns_consistent flt FILTER_PROVIDER_NAME (dns s', world s') \<and> (result \<noteq> 0 \<longrightarrow> engine (dns s') = 0)"
proof -
  have runs: "flt (snd (install_routes (run_cmd env) b r w)) = flt w" for b r w
    by (rule install_routes_keeps [where P = "\<lambda>x. flt x = flt w"]) (simp_all add: view)
  have begun: "dns_consistent flt FILTER_PROVIDER_NAME (d, w)"
    if "begin_smart_dns_block (fwp env) name FILTER_PROVIDER_NAME (dns s) (world s) = (x, d, w)" for x name d w
    using begin_consistent [OF laws start, of name] that by simp
  from conf show ?thesis
  proof (cases rule: configure_routing_cases)
    case rejected
    with end_block_clears [OF laws start] show ?thesis by simp
  next
    case (blocked name d w)
    with end_block_clears [OF laws, of "s\<lparr>router := (router s)\<lparr>tapDeviceName := name\<rparr>, dns := d, world := w\<rparr>"] begun
    show ?thesis by simp
  next
    case (gatewayless ip name d w r3)
    with begun show ?thesis by simp
  next
    case (routed ip name d w r3 r4 w1)
    have "flt w1 = flt w" using runs [of "best_interface env" r4 w] routed(7) by simp
    with begun [OF routed(3)] have "dns_consistent flt FILTER_PROVIDER_NAME (d, w1)"
      by (rule dns_consistent_view)
    with end_block_clears [OF laws, of "s\<lparr>router := r4, dns := d, world := w1\<rparr>"] routed(8)
    show ?thesis by (simp add: Let_def)
  qed
qed

text \<open>
  C15: A configuration that fails, for whatever reason, leaves no DNS block behind: the session holds
  no filter, so no packet is blocked.
\<close>

theorem configure_routing_failure_unblocks:
  assumes laws: "fwp_laws (fwp env) flt" and view: "\<And>c f a w. flt (snd (run_cmd env c f a w)) = flt w"
    and start: "dns_consistent flt FILTER_PROVIDER_NAME (dns s, world s)"
    and fails: "configure_routing env p t g s = Inr (result, s')" "result \<noteq> 0"
  shows "engine (dns s') = 0 \<and> (\<forall>pkt. \<not> blocks (ran (flt (world s'))) pkt)"
  using configure_routing_dns [OF laws view start fails(1)] fails(2)
  by (auto simp: blocks_def dest: closed_session_empty)

lemma demo_choose_zz: "choose_tap_name (demo_env rows) ''zz'' = Inr (L ''zz'')"
  by (simp add: choose_tap_name_def demo_widen)

lemma demo_begin_zz:
  "begin_smart_dns_block (fwp (demo_env rows)) (L ''zz'') prov dns_init ((Map.empty, 1), t)
     = (- 1, dns_init, ((Map.empty, 1), t))"
  by (simp add: begin_smart_dns_block_def demo_env_def lift_fwp_def demo_fwp_def Let_def dns_init_def
      TAP_DEVICE_NAME_def end_smart_dns_block_def)

lemma configure_routing_failure_unblocks_witness:
  "\<exists>s'. configure_routing (demo_env []) ''x'' ''zz'' [] demo_service = Inr (- 1, s')
     \<and> (\<forall>pkt. \<not> blocks (ran (fst (fst (world s')))) pkt)"
proof -
  have "\<exists>s'. configure_routing (demo_env []) ''x'' ''zz'' [] demo_service = Inr (- 1, s')"
    by (simp add: configure_routing_def configure_body_def demo_resolve demo_choose_zz demo_service_def
        demo_begin_zz Let_def)
  then obtain s' where "configure_routing (demo_env []) ''x'' ''zz'' [] demo_service = Inr (- 1, s')" ..
  with configure_routing_failure_unblocks [OF demo_fwp_service_laws _ _ this]
  show ?thesis
    by (simp add: demo_env_def demo_run_def demo_service_def dns_consistent_def dns_init_def)
qed

text \<open>
  Without a default gateway \<open>configure_routing\<close> still answers 0, success: it stops after the
  DNS block was installed, before any routing command.
\<close>

theorem configure_without_gateway_reports_success:
  assumes ip: "adjust_ipv4_addr (resolver env) (Some (mallocs env)) (Some p) = Inr (Some ip)" and "p \<noteq> []"
    and name: "choose_tap_name env t = Inr name"
    and beg: "begin_smart_dns_block (fwp env) name FILTER_PROVIDER_NAME (dns s) (world s) = (0, d, w)"
    and rows: "\<forall>r \<in> set (snd (table_query (forward_api env w))). dwForwardDest r \<noteq> 0"
    and returns: "configure_routing env p t g s = Inr (result, s')"
  shows "result = 0 \<and> dns s' = d \<and> world s' = w"
proof -
  have none: "find_system_gateway env r w = None" for r :: "net_change_ctx router_info"
  proof -
    have "walk_rows (get_system_ipv4_gateway tap) rs zero_row = zero_row"
      if "\<forall>r \<in> set rs. dwForwardDest r \<noteq> 0" for rs tap
      using that by (induction rs) (simp_all add: get_system_ipv4_gateway_def)
    with rows show ?thesis
      by (simp add: find_system_gateway_def enum_ip_forward_table_def split_beta)
  qed
  show ?thesis
    using returns
  proof (cases rule: configure_routing_cases)
    case rejected
    with ip \<open>p \<noteq> []\<close> show ?thesis by simp
  next
    case (blocked name' d' w')
    with name beg show ?thesis by simp
  next
    case (gatewayless ip' name' d' w' r3)
    with name beg show ?thesis by simp
  next
    case (routed ip' name' d' w' r3 r4 w1)
    with name beg none show ?thesis by simp
  qed
qed

lemma configure_without_gateway_reports_success_witness:
  "\<exists>s'. configure_routing (demo_env []) ''x'' [] [] demo_service = Inr (0, s')
     \<and> snd (world s') = \<lparr>v4 = Map.empty, v6 = Map.empty\<rparr> \<and> engine (dns s') = 1"
proof -
  have "\<exists>r s'. configure_routing (demo_env []) ''x'' [] [] demo_service = Inr (r, s')"
    using length_inet_ntoa [of "0x04030201"]
    by (simp add: configure_routing_def configure_body_def demo_resolve choose_default_name
        demo_service_def demo_begin demo_widen demo_tap_gateway demo_enum demo_system_gateway
        Let_def router_zero_def)
  then obtain r s' where conf: "configure_routing (demo_env []) ''x'' [] [] demo_service = Inr (r, s')" by blast
  have "begin_smart_dns_block (fwp (demo_env [])) TAP_DEVICE_NAME FILTER_PROVIDER_NAME
      (dns demo_service) (world demo_service)
    = (0, \<lparr>GET_ADAPTERS_ADDRESSES_BUFFER_SIZE = 16384, engine = 1, sublayer_key = 7, filterId = 1, filterId2 = 2\<rparr>,
     (([1 \<mapsto> udpBlockFilter FILTER_PROVIDER_NAME 7, 2 \<mapsto> tapDeviceWhitelistFilter FILTER_PROVIDER_NAME 7 7], 3),
      \<lparr>v4 = Map.empty, v6 = Map.empty\<rparr>))"
    by (simp add: demo_service_def demo_begin)
  from configure_without_gateway_reports_success [OF demo_resolve _ choose_default_name this _ conf]
  have "r = 0 \<and> dns s' = \<lparr>GET_ADAPTERS_ADDRESSES_BUFFER_SIZE = 16384, engine = 1, sublayer_key = 7,
      filterId = 1, filterId2 = 2\<rparr> \<and> snd (world s') = \<lparr>v4 = Map.empty, v6 = Map.empty\<rparr>"
    by (simp add: demo_env_def)
  with conf show ?thesis by simp
qed

text \<open>
  C12: Reset after a configuration. Even when every command succeeds, \<open>reset_routing\<close> removes both
  halves of the IPv4 redirect, the IPv6 prefixes and the proxy's route, but leaves every reserved
  subnet routed through the system's gateway: its commands read \<open>route delete route <subnet>\<close>.
\<close>

theorem reset_keeps_reserved_routes:
  assumes laws: "route_laws (run_cmd env) tbl" and ok: "\<And>c f a w. fst (run_cmd env c f a w) = 0"
    and fview: "\<And>d w. tbl (snd (end_smart_dns_block (fwp env) d w)) = tbl w"
    and tap: "tapDeviceName (router s) \<noteq> []"
    and remote: "remoteProxyIp (router s) \<noteq> []" "(47 :: wchar) \<notin> set (remoteProxyIp (router s))"
    and inst: "routes_installed (router s) loopback (tbl (world s))"
    and reset: "reset_routing env s = (result, s')"
  shows "result = 0 \<and> engine (dns s') = 0
    \<and> (\<forall>d \<in> set IPV4_SUBNETS. v4 (tbl (world s')) d = None)
    \<and> (\<forall>d \<in> set IPV6_SUBNETS. v6 (tbl (world s')) d = None)
    \<and> v4 (tbl (world s')) (proxy_key (remoteProxyIp (router s))) = None
    \<and> (\<forall>d \<in> set IPV4_RESERVED_SUBNETS. v4 (tbl (world s')) d =
         Some (gatewayIp (router s), D (gatewayInterfaceIndex (router s))))"
proof -
  note left = remove_routes_table [OF laws ok tap remote, where best = "best_interface env" and w = "world s"]
  obtain r w where rm: "remove_routes (run_cmd env) (best_interface env) (Some (router s)) (world s) = (r, w)"
    by (cases "remove_routes (run_cmd env) (best_interface env) (Some (router s)) (world s)")
  have s': "s' = end_block env (s\<lparr>world := w\<rparr>)" and r: "result = r"
    using reset rm by (simp_all add: reset_routing_def)
  have t: "tbl (world s') = tbl w"
    using fview [of "dns s" w] by (simp add: s' end_block_def split_beta)
  have keep: "v4 (tbl w) d = v4 (tbl (world s)) d" if "d \<in> set IPV4_RESERVED_SUBNETS" for d
  proof -
    have "d \<noteq> route_word_key" "d \<notin> insert (proxy_key (remoteProxyIp (router s))) (set IPV4_SUBNETS)"
      using that route_word_key_fresh subnets_disjoint proxy_key_fresh(2) [of "remoteProxyIp (router s)"]
      by blast+
    from left(2) [OF this] show ?thesis by (simp add: rm)
  qed
  have "v4 (tbl w) d = None" if "d \<in> insert (proxy_key (remoteProxyIp (router s))) (set IPV4_SUBNETS)" for d
    using left(1) [OF that] by (simp add: rm)
  moreover have "v6 (tbl w) d = None" if "d \<in> set IPV6_SUBNETS" for d
    using left(3) that by (simp add: rm)
  moreover have "r = 0" using left(4) by (simp add: rm)
  ultimately show ?thesis
    using keep inst end_block_fields(3) [of env "s\<lparr>world := w\<rparr>"]
    by (simp add: t r) (simp add: s' routes_installed_def)
qed

definition demo_installed :: "demo_system service" where
  "demo_installed = demo_service\<lparr>router := demo_router,
     world := ((Map.empty, 1), \<lparr>
       v4 = (\<lambda>d. if d \<in> set IPV4_SUBNETS then Some (tapGatewayIp demo_router, S (tapDeviceName demo_router))
         else Some (gatewayIp demo_router, D (gatewayInterfaceIndex demo_router))),
       v6 = (\<lambda>d. Some 1)\<rparr>)\<rparr>"

lemma demo_router_proxy: "(47 :: wchar) \<notin> set (remoteProxyIp demo_router)"
  using addr_no_slash [of "inet_ntoa 0x04030201"] inet_ntoa_chars by (simp add: demo_router_def)

lemma reset_keeps_reserved_routes_witness:
  "v4 (snd (world (snd (reset_routing (demo_env []) demo_installed)))) (L ''10.0.0.0/8'')
     = Some (L (inet_ntoa 0x0101A8C0), D 3)"
proof -
  have inst: "routes_installed (router demo_installed) 1 (snd (world demo_installed))"
    using proxy_key_fresh(1) [of "remoteProxyIp demo_router"] subnets_disjoint
    by (auto simp: routes_installed_def demo_installed_def)
  have view: "snd (snd (end_smart_dns_block (fwp (demo_env [])) d w)) = snd w" for d w
    by (simp add: end_smart_dns_block_def demo_env_def lift_fwp_def Let_def)
  have rt: "router demo_installed = demo_router" by (simp add: demo_installed_def)
  have in10: "L ''10.0.0.0/8'' \<in> set IPV4_RESERVED_SUBNETS" by (simp add: IPV4_RESERVED_SUBNETS_def)
  obtain r s' where reset: "reset_routing (demo_env []) demo_installed = (r, s')" by (cases "reset_routing (demo_env []) demo_installed")
  have "tapDeviceName (router demo_installed) \<noteq> []" "remoteProxyIp (router demo_installed) \<noteq> []"
    "(47 :: wchar) \<notin> set (remoteProxyIp (router demo_installed))"
    using demo_router_proxy by (simp_all add: rt demo_router_def TAP_DEVICE_NAME_def)
  moreover have "fst (run_cmd (demo_env []) c f a w) = 0" for c f a w
    by (simp add: demo_env_def demo_run_def)
  ultimately show ?thesis
    using reset_keeps_reserved_routes [OF demo_route_laws _ view _ _ _ inst reset] in10
    by (simp add: rt reset) (simp add: demo_router_def)
qed

lemma string_field_length: "string_field v = Inr s \<Longrightarrow> length s < CMD_BUFF_SIZE"
  by (auto simp: string_field_def split: json_value.splits)

definition request_fits :: "service_request \<Rightarrow> bool" where
  "request_fits req \<longleftrightarrow> fits CMD_BUFF_SIZE (action req) \<and> fits CMD_BUFF_SIZE (proxyIp req)
     \<and> fits CMD_BUFF_SIZE (req_tapDeviceName req) \<and> fits CMD_BUFF_SIZE (tapDeviceGatewayIp req)"

lemma process_parameters_fits:
  "request_fits req \<Longrightarrow> process_parameters es req = Inr req' \<Longrightarrow> request_fits req'"
proof (induction es req arbitrary: req' rule: process_parameters.induct)
  case (2 name v es req)
  from 2(3) obtain req1 where
    "(if cstr name = ''proxyIp'' then bindr (string_field v) (\<lambda>s. Inr (req\<lparr>proxyIp := s\<rparr>))
      else if cstr name = ''tapDeviceName'' then bindr (string_field v) (\<lambda>s. Inr (req\<lparr>req_tapDeviceName := s\<rparr>))
      else if cstr name = ''tapDeviceGatewayIp'' then bindr (string_field v) (\<lambda>s. Inr (req\<lparr>tapDeviceGatewayIp := s\<rparr>))
      else if cstr name = ''isAutoConnect'' then
        (case v of JBoolean b \<Rightarrow> Inr (req\<lparr>isAutoConnect := b\<rparr>) | _ \<Rightarrow> Inl Assert_Failed)
      else Inr req) = Inr req1" and rest: "process_parameters es req1 = Inr req'"
    by (auto simp: bindr_eq_Inr)
  from this(1) 2(2) have "request_fits req1"
    by (auto simp: request_fits_def fits_def bindr_eq_Inr dest!: string_field_length
        split: if_splits json_value.splits)
  from 2(1) [OF this rest] show ?case .
qed simp

lemma request_fits_action:
  "request_fits req \<Longrightarrow> request_fits (req\<lparr>action := s\<rparr>) \<longleftrightarrow> length s < CMD_BUFF_SIZE"
  by (simp add: request_fits_def fits_def)

lemma process_entries_fits:
  "request_fits req \<Longrightarrow> process_entries es req = Inr req' \<Longrightarrow> request_fits req'"
proof (induction es req arbitrary: req' rule: process_entries.induct)
  case (2 name v es req)
  from 2(3) obtain req1 where
    "(if cstr name = ''action'' then bindr (string_field v) (\<lambda>s. Inr (req\<lparr>action := s\<rparr>))
      else if cstr name = ''parameters'' then
        (case v of JObject ps \<Rightarrow> process_parameters ps req | _ \<Rightarrow> Inl Assert_Failed)
      else Inr req) = Inr req1" and rest: "process_entries es req1 = Inr req'"
    by (auto simp: bindr_eq_Inr)
  from this(1) 2(2) have "request_fits req1"
    by (auto simp: bindr_eq_Inr request_fits_action dest!: string_field_length
        dest: process_parameters_fits split: if_splits json_value.splits)
  from 2(1) [OF this rest] show ?case .
qed simp

lemma parse_request_fits: "parse_request jp buf request_zero = Inr req \<Longrightarrow> request_fits req"
  using process_entries_fits [of request_zero]
  by (auto simp: parse_request_def process_json_generic_def request_fits_def fits_def request_zero_def
      split: if_splits option.splits json_value.splits)

text \<open>
  C23: The response never overflows the pipe's buffer. For every message the parser accepts,
  with either status code, the formatted response and its NUL fit in \<open>BUFSIZE\<close> bytes.
\<close>

theorem response_fits_buffer:
  assumes "parse_request jp buf request_zero = Inr req" and "0 \<le> code" and "code \<le> 1"
  shows "\<exists>response. build_response (action req) code [] BUFSIZE = Inr response"
proof -
  have "length (action req) < 128"
    using parse_request_fits [OF assms(1)] by (simp add: request_fits_def fits_def)
  moreover have "length (show_int code) \<le> 11"
    using assms(2,3) by (intro length_show_int) simp_all
  ultimately show ?thesis by (simp add: build_response_def dquote_def)
qed

lemma response_fits_buffer_witness:
  "\<exists>response. build_response (action request_zero) 1 [] BUFSIZE = Inr response"
  by (rule response_fits_buffer [of "\<lambda>_. None" "[CHR 0x00]"]) (simp_all add: parse_request_def)

text \<open>
  A request whose action, or whose parameters, carry 128 characters or more overruns the
  request's buffer: \<open>strcpy\<close> has no bound, and the message buffer is four times as long.
\<close>

theorem long_action_overflows:
  assumes "CHR 0x00 \<in> set buf" and "json_parser env (cstr buf) = Some (JObject ((name, JString v) # es))"
    and "cstr name = ''action''" and "CMD_BUFF_SIZE \<le> length (cstr v)"
  shows "svc_message_handler env (Some buf) n s = Inl Buffer_Overflow"
  using assms
  by (simp add: svc_message_handler_def parse_request_def process_json_generic_def string_field_def)

lemma cstr_id: "CHR 0x00 \<notin> set s \<Longrightarrow> cstr s = s"
  by (induction s) (auto simp: cstr_def)

lemma long_action_overflows_witness:
  "svc_message_handler (demo_env []) (Some (''bad'' @ [CHR 0x00])) BUFSIZE demo_service = Inl Buffer_Overflow"
  by (rule long_action_overflows [of _ _ "''action''" "replicate 128 CHR ''a''" "[]"])
    (simp_all add: demo_env_def cstr_id, simp_all add: cstr_def)

text \<open>
  The device name's two bounds differ. A request may carry a name of up to 127 characters, but
  the router's buffer holds 65: an ASCII name of 65 to 127 characters is accepted by the parser
  and overruns the buffer in \<open>configure_routing\<close>, shorter ones are copied whole.
\<close>

theorem tap_name_bound:
  assumes conv: "ascii_law (MultiByteToWideChar env)" "\<forall>n. mallocs env n"
    and ascii: "\<forall>c \<in> set name. (of_char c :: nat) < 128" and "name \<noteq> []"
    and ip: "adjust_ipv4_addr (resolver env) (Some (mallocs env)) (Some p) = Inr (Some ip)" "p \<noteq> []"
  shows "if length name < 65 then choose_tap_name env name = Inr (L name)
    else configure_routing env p name g s = Inl Buffer_Overflow"
  using widen_ascii [OF conv ascii \<open>name \<noteq> []\<close>] assms(4-6)
  by (simp add: choose_tap_name_def configure_routing_def configure_body_def)

lemma tap_name_bound_witness:
  "configure_routing (demo_env []) ''x'' (replicate 65 CHR ''t'') [] demo_service = Inl Buffer_Overflow"
  using tap_name_bound [where env = "demo_env []" and name = "replicate 65 CHR ''t''" and p = "''x''"
      and g = "[]" and s = demo_service, OF demo_ascii _ _ _ demo_resolve]
  by (simp add: demo_mallocs)

text \<open>
  A reset when nothing is configured. The handler answers FALSE, which makes the pipe thread
  close the connection before the response it built is written; router, DNS block and world are
  those of before, without a monitor.
\<close>

theorem reset_unconfigured_closes:
  assumes "CHR 0x00 \<in> set buf" and "json_parser env (cstr buf) = Some (JObject [(''action'', JString ''resetRouting'')])"
    and "remoteProxyIp (router s) = []" and "stop_monitor s = Inr s0"
  shows "svc_message_handler env (Some buf) BUFSIZE s =
     bindr (build_response ''resetRouting'' 0 [] BUFSIZE) (\<lambda>response.
       Inr (False, response, s0\<lparr>router := (router s0)\<lparr>shut_down := False\<rparr>\<rparr>))"
proof -
  have "remoteProxyIp (router s0) = []"
    using assms(3,4) by (auto simp: stop_monitor_def bindr_eq_Inr)
  moreover have "cstr ''action'' = ''action''" "cstr ''resetRouting'' = ''resetRouting''"
    by (simp_all add: cstr_def)
  ultimately show ?thesis
    using assms
    by (simp add: svc_message_handler_def parse_request_def process_json_generic_def string_field_def
        request_zero_def handle_request_def)
qed

lemma reset_unconfigured_closes_witness:
  "\<exists>response s'. svc_message_handler (demo_env []) (Some (''reset'' @ [CHR 0x00])) BUFSIZE demo_service
     = Inr (False, response, s')"
proof -
  have "stop_monitor demo_service = Inr (demo_service\<lparr>router := (router demo_service)\<lparr>monitor := None\<rparr>\<rparr>)"
    by (simp add: stop_monitor_def demo_service_def router_zero_def net_status_stop_monitor_def)
  moreover have "json_parser (demo_env []) (cstr (''reset'' @ [CHR 0x00]))
      = Some (JObject [(''action'', JString ''resetRouting'')])"
    by (simp add: demo_env_def cstr_def)
  ultimately show ?thesis
    using reset_unconfigured_closes [of "''reset'' @ [CHR 0x00]" "demo_env []" demo_service]
    by (simp add: build_response_def dquote_def show_int_def show_nat.simps demo_service_def router_zero_def)
qed



end
