(* ===== verification/Pipe_Service.thy ===== *)
theory Pipe_Service
  imports Route_Service Text_Util
begin

text \<open>
  The service process (pipe\_service.c) and the client's side of its pipe (comm\_with\_named\_pipe.c):
  one thread per connection that hands messages to the handler, the loop that accepts connections,
  the service's states, and how it is stopped. What the pipe and the service manager answer are
  arguments, in the order they are asked.
\<close>

section \<open>Texts\<close>

text \<open>A buffer read as a C string: the text before the first NUL, a fault when there is none.\<close>

definition c_string :: "string \<Rightarrow> string res" where
  "c_string buf = (if CHR 0x00 \<in> set buf then Inr (cstr buf) else Inl Out_Of_Bounds)"

definition nl :: char where
  "nl = CHR 0x0A"

text \<open>\<open>_snprintf\<close> into twice \<open>MAX_PATH\<close> bytes cuts the line; the output is the debugger's.\<close>

definition write_to_log :: "string \<Rightarrow> string" where
  "write_to_log str = take (MAX_PATH * 2) (str @ [nl])"

definition quote :: string where
  "quote = [CHR 0x22]"

section \<open>One connection\<close>

text \<open>
  The answers of \<open>ReadFile\<close>: whether it succeeded, the bytes it delivered (at most \<open>BUFSIZE\<close>) and
  \<open>GetLastError\<close>; and of \<open>WriteFile\<close>: whether it succeeded, the number of bytes written and the
  system's text for the last error.
\<close>

record pipe_read =
  read_ok :: bool
  read_bytes :: string
  read_error :: "32 word"

record pipe_write =
  write_ok :: bool
  write_done :: nat
  write_error :: "string option"

definition ERROR_BROKEN_PIPE :: "32 word" where
  "ERROR_BROKEN_PIPE = 109"

text \<open>
  The callback: the message, or none when the connection is lost, and the size of the result buffer;
  whether to go on, the result, and the new state. \<open>connection\<close> is what a connection has logged, sent
  and handed to the callback; it is closed when its thread ends.
\<close>

type_synonym 's callback = "string option \<Rightarrow> nat \<Rightarrow> 's \<Rightarrow> (bool \<times> string \<times> 's) res"

record connection =
  logged :: "string list"
  sent :: "string list"
  handed :: "string option list"
  open_pipe :: bool

definition log_line :: "string \<Rightarrow> connection \<Rightarrow> connection" where
  "log_line str c = c\<lparr>logged := logged c @ [write_to_log str]\<rparr>"

definition read_failed :: "'s callback \<Rightarrow> 32 word \<Rightarrow> connection \<Rightarrow> 's \<Rightarrow> (connection \<times> 's) res" where
  "read_failed callback err c s =
     bindr (copy_into BUFSIZE (if err = ERROR_BROKEN_PIPE then ''client disconnected.'' @ [nl]
                               else ''ReadFile failed with error '' @ show_int (sint err) @ [nl])) (\<lambda>buffer.
       bindr (callback None 0 s) (\<lambda>(go, result, s').
         Inr ((log_line buffer c)\<lparr>handed := handed c @ [None]\<rparr>, s')))"

text \<open>
  The loop of a connection's thread over the answers it gets; without more answers it waits in
  \<open>ReadFile\<close>. The message lies in a zeroed buffer of \<open>BUFSIZE\<close> bytes.
\<close>

definition message_buffer :: "string \<Rightarrow> string" where
  "message_buffer bytes = bytes @ replicate (BUFSIZE - length bytes) (CHR 0x00)"

fun client_loop :: "'s callback \<Rightarrow> (pipe_read \<times> pipe_write) list \<Rightarrow> connection \<Rightarrow> 's \<Rightarrow> (connection \<times> 's) res" where
  "client_loop callback [] c s = Inr (c, s)"
| "client_loop callback ((rd, wr) # answers) c s =
     (if \<not> read_ok rd \<or> read_bytes rd = []
      then bindr (read_failed callback (read_error rd) c s) (\<lambda>(c1, s1). Inr (c1\<lparr>open_pipe := False\<rparr>, s1))
      else
        let buffer = message_buffer (read_bytes rd)
        in bindr (c_string buffer) (\<lambda>str.
             let c1 = log_line str c
             in bindr (callback (Some buffer) BUFSIZE s) (\<lambda>(go, result, s1).
                  let c2 = c1\<lparr>handed := handed c1 @ [Some buffer]\<rparr>
                  in if \<not> go then Inr (c2\<lparr>open_pipe := False\<rparr>, s1)
                     else if \<not> write_ok wr \<or> write_done wr \<noteq> length result
                     then bindr (copy_into BUFSIZE (''WriteFile failed for '' @ quote
                                   @ (case write_error wr of Some t \<Rightarrow> t | None \<Rightarrow> []) @ quote @ [nl])) (\<lambda>line.
                            Inr ((log_line line c2)\<lparr>open_pipe := False\<rparr>, s1))
                     else client_loop callback answers (c2\<lparr>sent := sent c2 @ [result]\<rparr>) s1)))"

definition new_connection :: connection where
  "new_connection = \<lparr>logged = [], sent = [], handed = [], open_pipe = True\<rparr>"

text \<open>\<open>client_thread\<close>: without a callback the pipe is closed at once.\<close>

definition client_thread ::
  "'s callback option \<Rightarrow> (pipe_read \<times> pipe_write) list \<Rightarrow> 's \<Rightarrow> (connection \<times> 's) res" where
  "client_thread callback answers s =
     (case callback of
        None \<Rightarrow> Inr (new_connection\<lparr>open_pipe := False\<rparr>, s)
      | Some cb \<Rightarrow> client_loop cb answers new_connection s)"

definition svc_message_handler_dummy :: "'s callback" where
  "svc_message_handler_dummy msg result_size s =
     (case msg of
        None \<Rightarrow> Inl Null_Deref
      | Some m \<Rightarrow> Inr (True, take (min (length m) result_size) m, s))"

section \<open>Accepting connections\<close>

definition pipe_path :: "string \<Rightarrow> string res" where
  "pipe_path pipe_name = copy_into MAX_PATH ([CHR 0x5C, CHR 0x5C] @ ''.'' @ [CHR 0x5C] @ ''pipe'' @ [CHR 0x5C] @ pipe_name)"

text \<open>
  What one round of the loop meets: no pipe, no connection, no thread, or a connection whose thread
  got the pipe; and whether the flag to stop was set when the round began. \<open>server\<close> counts the pipes
  the process has open and the threads it started.
\<close>

datatype accept = Create_Failed "32 word" | Connect_Failed | Thread_Failed "32 word" | Accepted

record server =
  open_pipes :: nat
  threads :: nat
  server_log :: "string list"
  serving :: bool

fun pipe_loop :: "(bool \<times> accept) list \<Rightarrow> server \<Rightarrow> server res" where
  "pipe_loop [] srv = Inr srv"
| "pipe_loop ((pipe_exit_flag, a) # rounds) srv =
     (if pipe_exit_flag then Inr (srv\<lparr>serving := False\<rparr>)
      else (case a of
              Create_Failed err \<Rightarrow>
                bindr (copy_into MAX_PATH (''CreateNamedPipe failed with error '' @ show_int (sint err) @ [nl])) (\<lambda>buffer.
                  Inr (srv\<lparr>server_log := server_log srv @ [write_to_log buffer], serving := False\<rparr>))
            | Connect_Failed \<Rightarrow> pipe_loop rounds srv
            | Thread_Failed err \<Rightarrow>
                bindr (copy_into MAX_PATH (''CreateThread failed, GLE='' @ show_int (sint err) @ ''.'' @ [nl])) (\<lambda>buffer.
                  pipe_loop rounds (srv\<lparr>server_log := server_log srv @ [write_to_log buffer]\<rparr>))
            | Accepted \<Rightarrow> pipe_loop rounds (srv\<lparr>open_pipes := open_pipes srv + 1, threads := threads srv + 1\<rparr>)))"

definition pipe_infinite_loop ::
  "string \<Rightarrow> 's callback option \<Rightarrow> (bool \<times> accept) list \<Rightarrow> server \<Rightarrow> server res" where
  "pipe_infinite_loop pipe_name process_message rounds srv =
     (case process_message of
        None \<Rightarrow> Inr (srv\<lparr>serving := False\<rparr>)
      | Some cb \<Rightarrow> bindr (pipe_path pipe_name) (\<lambda>_. pipe_loop rounds srv))"

section \<open>The client's side\<close>

record comm_api =
  WaitNamedPipe_error :: "32 word option"
  comm_CreateFile_error :: "32 word option"
  comm_WriteFile :: "32 word + nat"
  comm_ReadFile :: "32 word + string"

text \<open>
  The error number, the buffer and the number of bytes the caller's function gets: the error's text,
  the response, or the bytes written when no response was asked for. The buffer has ten times
  \<open>MAX_PATH\<close> bytes.
\<close>

definition comm_with_named_pipe :: "comm_api \<Rightarrow> string \<Rightarrow> bool \<Rightarrow> (32 word \<times> string \<times> nat) res" where
  "comm_with_named_pipe api pipe_name need_response =
     (let buffer_size = MAX_PATH * 10;
          failed = (\<lambda>msg e. bindr (copy_into buffer_size (msg @ show_int (sint e) @ [nl])) (\<lambda>b. Inr (e, b, length b)))
      in bindr (copy_into buffer_size ([CHR 0x5C, CHR 0x5C] @ ''.'' @ [CHR 0x5C] @ ''Pipe'' @ [CHR 0x5C] @ pipe_name)) (\<lambda>path.
           case WaitNamedPipe_error api of
             Some e \<Rightarrow> failed ''WaitNamedPipe failed with error '' e
           | None \<Rightarrow>
               (case comm_CreateFile_error api of
                  Some e \<Rightarrow> failed ''CreateFile failed with error '' e
                | None \<Rightarrow>
                    (case comm_WriteFile api of
                       Inl e \<Rightarrow> failed ''WriteFile failed with error '' e
                     | Inr done_size \<Rightarrow>
                         if \<not> need_response then Inr (0, [], done_size)
                         else (case comm_ReadFile api of
                                 Inl e \<Rightarrow> failed ''ReadFile failed with error '' e
                               | Inr response \<Rightarrow> Inr (0, take buffer_size response, min buffer_size (length response)))))))"

text \<open>
  Stopping the loop: the flag is set first, then a connection of its own wakes the loop up; its
  message is a GUID in a zeroed buffer, 260 bytes in all.
\<close>

definition guid_generator :: "string option \<Rightarrow> nat \<Rightarrow> string" where
  "guid_generator uuid sz =
     (case uuid of
        None \<Rightarrow> replicate sz (CHR 0x00)
      | Some str \<Rightarrow> take sz (str @ replicate (sz - length str) (CHR 0x00)))"

definition pipe_exit_loop :: "comm_api \<Rightarrow> string option \<Rightarrow> string \<Rightarrow> (bool \<times> string \<times> 32 word) res" where
  "pipe_exit_loop api uuid pipe_name =
     (let buffer = guid_generator uuid MAX_PATH
      in bindr (comm_with_named_pipe api pipe_name False) (\<lambda>(error_num, _). Inr (True, buffer, error_num)))"

section \<open>The service\<close>

datatype service_state = SERVICE_START_PENDING | SERVICE_RUNNING | SERVICE_STOPPED

datatype control = SERVICE_CONTROL_STOP | SERVICE_CONTROL_SHUTDOWN | SERVICE_CONTROL_OTHER

text \<open>
  \<open>reported\<close> is what \<open>SetServiceStatus\<close> was told, state and exit code; \<open>quit_posted\<close> whether the
  message loop's thread was asked to end.
\<close>

record service_status =
  dwCurrentState :: service_state
  dwWin32ExitCode :: int
  quit_posted :: bool
  reported :: "(service_state \<times> int) list"

definition SetServiceStatus :: "service_status \<Rightarrow> service_status" where
  "SetServiceStatus st = st\<lparr>reported := reported st @ [(dwCurrentState st, dwWin32ExitCode st)]\<rparr>"

definition service_control_handler :: "control \<Rightarrow> service_status \<Rightarrow> service_status" where
  "service_control_handler request st =
     SetServiceStatus (case request of
         SERVICE_CONTROL_OTHER \<Rightarrow> st
       | _ \<Rightarrow> st\<lparr>quit_posted := True, dwWin32ExitCode := 0, dwCurrentState := SERVICE_STOPPED\<rparr>)"

text \<open>
  The message loop handles requests until it was asked to end; requests that come later are still
  answered by the control handler, on another thread.
\<close>

fun run_message_loop :: "control list \<Rightarrow> service_status \<Rightarrow> control list \<times> service_status" where
  "run_message_loop [] st = ([], st)"
| "run_message_loop (r # rs) st =
     (let st' = service_control_handler r st
      in if quit_posted st' then (rs, st') else run_message_loop rs st')"

definition PIPE_NAME :: string where
  "PIPE_NAME = ''ssrRouteServicePipe''"

definition init_service :: int where
  "init_service = 0"

text \<open>
  \<open>service_main\<close>: \<open>rounds\<close> is what the pipe's thread meets while the service lives. The service
  returns when its thread has ended; \<open>Thread_Waits\<close> is the wait for a thread that has not.
\<close>

datatype service_end = Not_Registered | Init_Failed | No_Thread | Message_Loop_Waits | Thread_Waits | Stopped

definition service_main ::
  "bool \<Rightarrow> bool \<Rightarrow> 's callback option \<Rightarrow> (bool \<times> accept) list \<Rightarrow> comm_api \<Rightarrow> string option \<Rightarrow> control list
   \<Rightarrow> (service_end \<times> service_status) res" where
  "service_main registered thread_ok g_handler rounds api uuid controls =
     (let st0 = \<lparr>dwCurrentState = SERVICE_START_PENDING, dwWin32ExitCode = 0, quit_posted = False, reported = []\<rparr>;
          stopped = (\<lambda>st. SetServiceStatus (st\<lparr>dwCurrentState := SERVICE_STOPPED, dwWin32ExitCode := - 1\<rparr>))
      in if \<not> registered then Inr (Not_Registered, st0)
         else if init_service \<noteq> 0 then Inr (Init_Failed, stopped st0)
         else let st1 = SetServiceStatus (st0\<lparr>dwCurrentState := SERVICE_RUNNING\<rparr>)
              in if \<not> thread_ok then Inr (No_Thread, stopped st1)
                 else bindr (pipe_infinite_loop PIPE_NAME g_handler rounds
                              \<lparr>open_pipes = 0, threads = 0, server_log = [], serving = True\<rparr>) (\<lambda>srv.
                        case run_message_loop controls st1 of (rs, st2) \<Rightarrow>
                          if \<not> quit_posted st2 then Inr (Message_Loop_Waits, st2)
                          else bindr (pipe_exit_loop api uuid PIPE_NAME) (\<lambda>_.
                                 Inr (if serving srv then Thread_Waits else Stopped, st2))))"

section \<open>Lemmas\<close>

lemma length_show_word: "length (show_int (sint (e :: 32 word))) \<le> 11"
  using sint_range_size [of e] by (intro length_show_int) (simp_all add: word_size)

lemma handler_None_size: "svc_message_handler env None n s = svc_message_handler env None m s"
  by (simp add: svc_message_handler_def)

text \<open>What the thread hands to the callback for one answer of \<open>ReadFile\<close>.\<close>

definition delivered :: "pipe_read \<times> pipe_write \<Rightarrow> string option" where
  "delivered answer = (if \<not> read_ok (fst answer) \<or> read_bytes (fst answer) = [] then None
     else Some (message_buffer (read_bytes (fst answer))))"

text \<open>Each round of the loop is one message handled by the service, or the end of the connection.\<close>

definition message_run :: "'w service_env \<Rightarrow> 'w service \<Rightarrow> string option list \<Rightarrow> 'w service \<Rightarrow> bool" where
  "message_run env s msgs s' \<longleftrightarrow> foldl (svc_step env) (Inr s) msgs = Inr s'"

lemma message_run_Nil [simp]: "message_run env s [] s"
  by (simp add: message_run_def)

lemma message_run_Cons:
  "svc_message_handler env m n s = Inr (keep, resp, s1) \<Longrightarrow> m = None \<or> n = BUFSIZE \<Longrightarrow>
   message_run env s1 ms s' \<Longrightarrow> message_run env s (m # ms) s'"
  using handler_None_size [of env n s BUFSIZE] by (auto simp: message_run_def svc_step_def)

lemma log_line_fields [simp]:
  "handed (log_line str c) = handed c" "sent (log_line str c) = sent c" "open_pipe (log_line str c) = open_pipe c"
  by (simp_all add: log_line_def)

lemma read_failed_Inr:
  "read_failed callback err c s = Inr (c1, s1) \<Longrightarrow>
   \<exists>go result. callback None 0 s = Inr (go, result, s1) \<and> handed c1 = handed c @ [None] \<and> sent c1 = sent c"
  by (auto simp: read_failed_def bindr_eq_Inr)

lemma client_loop_round:
  assumes "\<not> (\<not> read_ok rd \<or> read_bytes rd = [])"
    and "client_loop callback ((rd, wr) # answers) c s = Inr (c', s')"
  shows "\<exists>go result s1 str. callback (Some (message_buffer (read_bytes rd))) BUFSIZE s = Inr (go, result, s1)
    \<and> ((\<not> open_pipe c' \<and> s' = s1 \<and> handed c' = handed c @ [Some (message_buffer (read_bytes rd))] \<and> sent c' = sent c)
      \<or> client_loop callback answers
          ((log_line str c)\<lparr>handed := handed c @ [Some (message_buffer (read_bytes rd))], sent := sent c @ [result]\<rparr>) s1
        = Inr (c', s'))"
proof -
  let ?b = "message_buffer (read_bytes rd)"
  from assms obtain str where str: "c_string ?b = Inr str"
    by (cases "c_string ?b") (simp_all add: Let_def)
  from assms str obtain go result s1 where cb: "callback (Some ?b) BUFSIZE s = Inr (go, result, s1)"
    by (cases "callback (Some ?b) BUFSIZE s") (auto simp: Let_def)
  let ?c2 = "(log_line str c)\<lparr>handed := handed c @ [Some ?b]\<rparr>"
  consider (stop) "\<not> go" | (fail) "go" "\<not> write_ok wr \<or> write_done wr \<noteq> length result"
    | (next_round) "go" "write_ok wr" "write_done wr = length result" by blast
  then have "(\<not> open_pipe c' \<and> s' = s1 \<and> handed c' = handed c @ [Some ?b] \<and> sent c' = sent c)
      \<or> client_loop callback answers (?c2\<lparr>sent := sent c @ [result]\<rparr>) s1 = Inr (c', s')"
  proof cases
    case stop
    with assms str cb show ?thesis by (auto simp: Let_def)
  next
    case fail
    with assms str cb show ?thesis by (simp add: Let_def bindr_eq_Inr) fastforce
  next
    case next_round
    with assms str cb show ?thesis by (simp add: Let_def)
  qed
  with cb show ?thesis by (intro exI [of _ go] exI [of _ result] exI [of _ s1] exI [of _ str]) simp
qed

text \<open>The first \<open>n\<close> answers account for a run of the loop from \<open>c\<close> and \<open>s\<close> to \<open>c'\<close> and \<open>s'\<close>.\<close>

definition accounts ::
  "'w service_env \<Rightarrow> (pipe_read \<times> pipe_write) list \<Rightarrow> connection \<times> 'w service \<Rightarrow> connection \<times> 'w service \<Rightarrow> nat \<Rightarrow> bool" where
  "accounts env answers cs cs' n \<longleftrightarrow>
     n \<le> length answers
     \<and> handed (fst cs') = handed (fst cs) @ map delivered (take n answers)
     \<and> message_run env (snd cs) (map delivered (take n answers)) (snd cs')
     \<and> length (sent (fst cs')) \<le> length (sent (fst cs)) + n
     \<and> (open_pipe (fst cs') \<longrightarrow> n = length answers)
     \<and> None \<notin> set (map delivered (take (n - 1) answers))"

lemma accounts_last:
  assumes "svc_message_handler env (delivered a) m s = Inr (keep, resp, s')" "delivered a = None \<or> m = BUFSIZE"
    and "handed c' = handed c @ [delivered a]" "sent c' = sent c" "\<not> open_pipe c'"
  shows "accounts env (a # answers) (c, s) (c', s') 1"
  using message_run_Cons [OF assms(1,2) message_run_Nil] assms(3-5) by (simp add: accounts_def)

lemma accounts_more:
  assumes "svc_message_handler env (delivered a) BUFSIZE s = Inr (keep, resp, s1)" "delivered a \<noteq> None"
    and "accounts env answers (c1, s1) cs' n"
    and "handed c1 = handed c @ [delivered a]" "length (sent c1) = Suc (length (sent c))"
  shows "accounts env (a # answers) (c, s) cs' (Suc n)"
proof -
  from assms(3) have run: "message_run env s1 (map delivered (take n answers)) (snd cs')"
    by (simp add: accounts_def)
  from message_run_Cons [OF assms(1) _ run]
  have "message_run env s (map delivered (take (Suc n) (a # answers))) (snd cs')" by simp
  moreover from assms(2,3) have "None \<notin> set (map delivered (take n (a # answers)))"
    by (cases n) (auto simp: accounts_def)
  ultimately show ?thesis
    using assms(3-5) by (simp add: accounts_def)
qed

lemma accounts_butlast:
  "accounts env answers cs cs' n \<Longrightarrow>
   butlast (map delivered (take n answers)) = map delivered (take (n - 1) answers)"
  by (auto simp: accounts_def butlast_conv_take take_map min_def)

lemma client_loop_accounts:
  "client_loop (svc_message_handler env) answers c s = Inr (c', s') \<Longrightarrow>
   \<exists>n. accounts env answers (c, s) (c', s') n"
proof (induction answers arbitrary: c s)
  case Nil
  then show ?case by (simp add: accounts_def)
next
  case (Cons a answers)
  obtain rd wr where a: "a = (rd, wr)" by (cases a)
  show ?case
  proof (cases "\<not> read_ok rd \<or> read_bytes rd = []")
    case True
    then have d: "delivered a = None" by (auto simp: delivered_def a)
    from Cons.prems True have "bindr (read_failed (svc_message_handler env) (read_error rd) c s)
        (\<lambda>(c1, s1). Inr (c1\<lparr>open_pipe := False\<rparr>, s1)) = Inr (c', s')"
      by (simp only: a client_loop.simps if_True)
    then obtain c1 where
      rf: "read_failed (svc_message_handler env) (read_error rd) c s = Inr (c1, s')" and c1: "c' = c1\<lparr>open_pipe := False\<rparr>"
      by (cases "read_failed (svc_message_handler env) (read_error rd) c s") (auto split: prod.splits)
    from read_failed_Inr [OF rf] obtain go result where
      h: "svc_message_handler env None 0 s = Inr (go, result, s')" and "handed c1 = handed c @ [None]" "sent c1 = sent c"
      by blast
    with c1 d h accounts_last [of env a 0 s go result s' c' c answers] show ?thesis by auto
  next
    case False
    let ?b = "message_buffer (read_bytes rd)"
    from False have d: "delivered a = Some ?b" by (simp add: delivered_def a)
    from client_loop_round [OF False Cons.prems [unfolded a]] obtain go result s1 str where
      h: "svc_message_handler env (Some ?b) BUFSIZE s = Inr (go, result, s1)"
      and rest: "(\<not> open_pipe c' \<and> s' = s1 \<and> handed c' = handed c @ [Some ?b] \<and> sent c' = sent c)
        \<or> client_loop (svc_message_handler env) answers
            ((log_line str c)\<lparr>handed := handed c @ [Some ?b], sent := sent c @ [result]\<rparr>) s1 = Inr (c', s')"
      by metis
    from rest show ?thesis
    proof
      assume "\<not> open_pipe c' \<and> s' = s1 \<and> handed c' = handed c @ [Some ?b] \<and> sent c' = sent c"
      then show ?thesis using h d accounts_last [of env a BUFSIZE s go result s' c' c answers] by auto
    next
      assume "client_loop (svc_message_handler env) answers
            ((log_line str c)\<lparr>handed := handed c @ [Some ?b], sent := sent c @ [result]\<rparr>) s1 = Inr (c', s')"
      from Cons.IH [OF this] obtain n where n: "accounts env answers
          ((log_line str c)\<lparr>handed := handed c @ [Some ?b], sent := sent c @ [result]\<rparr>, s1) (c', s') n" ..
      have "accounts env (a # answers) (c, s) (c', s') (Suc n)"
        by (rule accounts_more [OF _ _ n]) (use h d in simp_all)
      then show ?thesis ..
    qed
  qed
qed

section \<open>Properties\<close>

text \<open>A small system's connection that is lost at once.\<close>

definition demo_read :: "string \<Rightarrow> pipe_read" where
  "demo_read bytes = \<lparr>read_ok = bytes \<noteq> [], read_bytes = bytes, read_error = ERROR_BROKEN_PIPE\<rparr>"

definition demo_write :: "nat \<Rightarrow> pipe_write" where
  "demo_write n = \<lparr>write_ok = True, write_done = n, write_error = None\<rparr>"

lemma demo_disconnect:
  "\<exists>c s'. client_thread (Some (svc_message_handler (demo_env rows))) [(demo_read [], demo_write 0)] demo_service
     = Inr (c, s') \<and> handed c = [None]"
  by (simp add: client_thread_def demo_read_def read_failed_def svc_message_handler_def handle_request_def
      stop_monitor_def net_status_stop_monitor_def demo_service_def router_zero_def request_zero_def
      new_connection_def ERROR_BROKEN_PIPE_def log_line_def)

text \<open>
  C2: A connection's thread refines the message handler. Whatever the pipe answers, a thread that
  runs without a fault has handed a prefix of what it read to the handler, in order, and has the
  state that handling exactly those messages gives; it has written at most one response for each;
  a lost connection is handed over once and last; and a connection still open has been read to the end.
\<close>

theorem connection_refines_messages:
  assumes "client_thread (Some (svc_message_handler env)) answers s = Inr (c, s')"
  shows "\<exists>n \<le> length answers. handed c = map delivered (take n answers)
    \<and> foldl (svc_step env) (Inr s) (handed c) = Inr s'
    \<and> length (sent c) \<le> n \<and> None \<notin> set (butlast (handed c)) \<and> (open_pipe c \<longrightarrow> n = length answers)"
proof -
  from client_loop_accounts assms obtain n where n: "accounts env answers (new_connection, s) (c, s') n"
    by (fastforce simp: client_thread_def)
  then show ?thesis
    by (intro exI [of _ n]) (simp add: accounts_butlast [OF n] accounts_def message_run_def new_connection_def)
qed

lemma connection_refines_messages_witness:
  "\<exists>s'. foldl (svc_step (demo_env [])) (Inr demo_service) [None] = Inr s'"
proof -
  obtain c s' where "client_thread (Some (svc_message_handler (demo_env []))) [(demo_read [], demo_write 0)]
      demo_service = Inr (c, s')" "handed c = [None]"
    using demo_disconnect by blast
  with connection_refines_messages [OF this(1)] show ?thesis by auto
qed

text \<open>
  A message that fills the buffer without a NUL makes the thread read past the buffer, before
  the handler sees it: the log line takes the buffer for a string.
\<close>

theorem full_message_overreads:
  assumes "length m = BUFSIZE" and "CHR 0x00 \<notin> set m"
  shows "client_thread (Some callback) ((\<lparr>read_ok = True, read_bytes = m, read_error = e\<rparr>, wr) # answers) s
    = Inl Out_Of_Bounds"
proof -
  have "m \<noteq> []" using assms(1) by auto
  with assms show ?thesis by (simp add: client_thread_def message_buffer_def c_string_def Let_def)
qed

lemma full_message_overreads_witness:
  "client_thread (Some svc_message_handler_dummy)
     [(\<lparr>read_ok = True, read_bytes = replicate BUFSIZE CHR ''x'', read_error = 0\<rparr>, demo_write 0)] () = Inl Out_Of_Bounds"
  by (rule full_message_overreads) simp_all

text \<open>
  The service's end. The control handler's effect does not depend on what was requested before, so a
  run of the message loop is decided by the first request to stop.
\<close>

lemma run_message_loop_end:
  "\<not> quit_posted st \<Longrightarrow> run_message_loop cs st = (rs, st') \<Longrightarrow>
   (if \<exists>c \<in> set cs. c \<noteq> SERVICE_CONTROL_OTHER
    then quit_posted st' \<and> dwCurrentState st' = SERVICE_STOPPED \<and> dwWin32ExitCode st' = 0
      \<and> reported st' \<noteq> [] \<and> last (reported st') = (SERVICE_STOPPED, 0)
    else \<not> quit_posted st' \<and> dwCurrentState st' = dwCurrentState st \<and> rs = []
      \<and> reported st' = reported st @ replicate (length cs) (dwCurrentState st, dwWin32ExitCode st))"
proof (induction cs arbitrary: st)
  case (Cons c cs)
  show ?case
  proof (cases c)
    case SERVICE_CONTROL_OTHER
    then have one: "service_control_handler c st
        = st\<lparr>reported := reported st @ [(dwCurrentState st, dwWin32ExitCode st)]\<rparr>"
      by (simp add: service_control_handler_def SetServiceStatus_def)
    with Cons.prems have "run_message_loop cs (service_control_handler c st) = (rs, st')" by (simp add: Let_def)
    from Cons.IH [OF _ this] one Cons.prems(1) SERVICE_CONTROL_OTHER show ?thesis
      by (auto split: if_splits)
  qed (use Cons.prems in \<open>auto simp: service_control_handler_def SetServiceStatus_def Let_def\<close>)
qed simp

lemma sprintf_word_fits:
  "length msg + 11 + length tail < n \<Longrightarrow> length (msg @ show_int (sint (e :: 32 word)) @ tail) < n"
  using length_show_word [of e] by simp

lemma pipe_loop_total: "\<exists>srv'. pipe_loop rounds srv = Inr srv'"
proof (induction rounds arbitrary: srv)
  case (Cons r rounds)
  have "length (''CreateNamedPipe failed with error '' @ show_int (sint e) @ [nl]) < MAX_PATH"
    "length (''CreateThread failed, GLE='' @ show_int (sint e) @ ''.'' @ [nl]) < MAX_PATH" for e :: "32 word"
    by (rule sprintf_word_fits; simp)+
  with Cons show ?case by (cases r; cases "snd r") simp_all
qed simp

lemma pipe_loop_flag: "(True, a) \<in> set rounds \<Longrightarrow> pipe_loop rounds srv = Inr srv' \<Longrightarrow> \<not> serving srv'"
proof (induction rounds arbitrary: srv)
  case (Cons r rounds)
  obtain flag acc where r: "r = (flag, acc)" by (cases r)
  show ?case
  proof (cases flag)
    case False
    then have mem: "(True, a) \<in> set rounds" using Cons.prems(1) r by auto
    with Cons.IH [OF mem] Cons.prems(2) r False show ?thesis
      by (cases acc) (auto simp: bindr_eq_Inr)
  qed (use Cons.prems r in auto)
qed simp

lemma pipe_exit_loop_total: "\<exists>x. pipe_exit_loop api uuid PIPE_NAME = Inr x"
proof -
  have "length (''WaitNamedPipe failed with error '' @ show_int (sint e) @ [nl]) < MAX_PATH * 10"
    "length (''CreateFile failed with error '' @ show_int (sint e) @ [nl]) < MAX_PATH * 10"
    "length (''WriteFile failed with error '' @ show_int (sint e) @ [nl]) < MAX_PATH * 10" for e :: "32 word"
    by (rule sprintf_word_fits; simp)+
  then show ?thesis
    by (simp add: pipe_exit_loop_def comm_with_named_pipe_def PIPE_NAME_def Let_def ex_bool_eq
        split: option.split sum.split)
qed



end
