(* ===== verification/Service_Session.thy ===== *)
theory Service_Session
  imports Pipe_Service
begin

text \<open>
  A client's session with the service, end to end: the pipe thread, the message handler, the routing
  code and the DNS filters together. What it shows is the point of the service's design: whatever
  becomes of the client, a lost connection takes the DNS filters away.
\<close>

text \<open>
  The documented behaviour of what the service calls: the filtering platform, that the commands run
  do not touch its filters, ASCII in the code page and memory for every request.
\<close>

definition session_laws :: "'w service_env \<Rightarrow> ('w \<Rightarrow> 64 word \<Rightarrow> fwpm_filter option) \<Rightarrow> bool" where
  "session_laws env flt \<longleftrightarrow> fwp_laws (fwp env) flt \<and> (\<forall>c f a w. flt (snd (run_cmd env c f a w)) = flt w)
     \<and> ascii_law (MultiByteToWideChar env) \<and> (\<forall>n. mallocs env n)"

text \<open>The session's invariant: filters are installed in pairs, and only while there is something to reset.\<close>

definition session_inv :: "('w \<Rightarrow> 64 word \<Rightarrow> fwpm_filter option) \<Rightarrow> 'w service \<Rightarrow> bool" where
  "session_inv flt s \<longleftrightarrow> dns_consistent flt FILTER_PROVIDER_NAME (dns s, world s)
     \<and> (engine (dns s) \<noteq> 0 \<longrightarrow> remoteProxyIp (router s) \<noteq> [])"

lemma session_inv_cong:
  "session_inv flt s \<Longrightarrow> dns s' = dns s \<Longrightarrow> world s' = world s \<Longrightarrow>
   remoteProxyIp (router s') = remoteProxyIp (router s) \<Longrightarrow> session_inv flt s'"
  by (simp add: session_inv_def)

lemma stop_monitor_fields:
  "stop_monitor s = Inr s' \<Longrightarrow> dns s' = dns s \<and> world s' = world s
     \<and> remoteProxyIp (router s') = remoteProxyIp (router s) \<and> monitor (router s') = None"
  by (auto simp: stop_monitor_def bindr_eq_Inr)

lemma start_monitor_fields:
  "start_monitor env s = Inr s' \<Longrightarrow> dns s' = dns s \<and> world s' = world s
     \<and> remoteProxyIp (router s') = remoteProxyIp (router s)"
  by (auto simp: start_monitor_def bindr_eq_Inr)

lemma adjust_remote_nonempty:
  assumes "session_laws env flt"
    and "adjust_ipv4_addr (resolver env) (Some (mallocs env)) (Some p) = Inr (Some ip)"
  shows "(case widen env ip of None \<Rightarrow> [] | Some tmp \<Rightarrow> tmp) \<noteq> []"
proof -
  from assms(2) obtain a where "ip = inet_ntoa a"
    by (auto simp: adjust_ipv4_addr_eq split: option.splits if_splits)
  with widen_addr [of env a] assms(1) show ?thesis by (simp add: session_laws_def)
qed

lemma configure_session_inv:
  assumes laws: "session_laws env flt" and inv: "session_inv flt s"
    and conf: "configure_routing env p t g s = Inr (result, s')"
  shows "session_inv flt s'"
proof -
  from laws have l: "fwp_laws (fwp env) flt" "\<And>c f a w. flt (snd (run_cmd env c f a w)) = flt w"
    by (simp_all add: session_laws_def)
  from inv have "dns_consistent flt FILTER_PROVIDER_NAME (dns s, world s)" by (simp add: session_inv_def)
  from configure_routing_dns [OF l this conf]
  have c: "dns_consistent flt FILTER_PROVIDER_NAME (dns s', world s')" and z: "result \<noteq> 0 \<longrightarrow> engine (dns s') = 0"
    by simp_all
  from conf have "result \<noteq> 0 \<or> remoteProxyIp (router s') \<noteq> []"
  proof (cases rule: configure_routing_cases)
    case (gatewayless ip name d w r3)
    with adjust_remote_nonempty [OF laws gatewayless(1)] show ?thesis by simp
  next
    case (routed ip name d w r3 r4 w1)
    with adjust_remote_nonempty [OF laws routed(1)] show ?thesis by (simp add: Let_def)
  qed simp_all
  with c z show ?thesis by (auto simp: session_inv_def)
qed

text \<open>A reset, and what the handler makes of a lost connection.\<close>

lemma reset_session_inv:
  assumes laws: "session_laws env flt" and inv: "session_inv flt s" and r: "reset_routing env s = (result, s')"
  shows "dns_consistent flt FILTER_PROVIDER_NAME (dns s', world s') \<and> engine (dns s') = 0"
proof -
  from laws have l: "fwp_laws (fwp env) flt" and view: "\<And>c f a w. flt (snd (run_cmd env c f a w)) = flt w"
    by (simp_all add: session_laws_def)
  let ?w = "snd (remove_routes (run_cmd env) (best_interface env) (Some (router s)) (world s))"
  have "flt ?w = flt (world s)"
    by (rule remove_routes_keeps [where P = "\<lambda>x. flt x = flt (world s)"]) (simp_all add: view)
  with inv have "dns_consistent flt FILTER_PROVIDER_NAME (dns (s\<lparr>world := ?w\<rparr>), world (s\<lparr>world := ?w\<rparr>))"
    by (auto simp: session_inv_def intro: dns_consistent_view)
  from end_block_clears [OF l this] r show ?thesis
    by (auto simp: reset_routing_def split: prod.splits)
qed

lemma handle_session_inv:
  assumes laws: "session_laws env flt" and inv: "session_inv flt s" and h: "handle_request env req s = Inr (result, s')"
  shows "session_inv flt s' \<and> (action req = ''resetRouting'' \<longrightarrow>
    remoteProxyIp (router s') = [] \<and> monitor (router s') = None)"
proof -
  obtain s0 where s0: "stop_monitor s = Inr s0"
    using h by (auto simp: handle_request_def bindr_eq_Inr)
  note f = stop_monitor_fields [OF s0]
  with session_inv_cong [OF inv] have inv0: "session_inv flt s0" by blast
  consider "action req = ''configureRouting''" | "action req = ''resetRouting''"
    | "action req \<noteq> ''configureRouting''" "action req \<noteq> ''resetRouting''" by blast
  then show ?thesis
  proof cases
    case 1
    with h s0 obtain r1 s1 where "configure_routing env (proxyIp req) (req_tapDeviceName req)
        (tapDeviceGatewayIp req) s0 = Inr (r1, s1)" and st: "start_monitor env s1 = Inr s'"
      by (auto simp: handle_request_def bindr_eq_Inr)
    from configure_session_inv [OF laws inv0 this(1)] start_monitor_fields [OF st] 1 show ?thesis
      by (simp add: session_inv_def)
  next
    case 2
    show ?thesis
    proof (cases "remoteProxyIp (router s0) = []")
      case True
      with h s0 2 have "s' = s0\<lparr>router := (router s0)\<lparr>shut_down := True\<rparr>\<rparr>" by (simp add: handle_request_def)
      with True f inv0 show ?thesis by (simp add: session_inv_def)
    next
      case False
      obtain r2 s2 where r: "reset_routing env s0 = (r2, s2)" by (cases "reset_routing env s0")
      with False h s0 2 have "s' = s2\<lparr>router := router_zero\<rparr>" by (simp add: handle_request_def)
      with reset_session_inv [OF laws inv0 r] show ?thesis by (simp add: session_inv_def router_zero_def)
    qed
  next
    case 3
    with h s0 inv0 show ?thesis by (simp add: handle_request_def)
  qed
qed

lemma handler_session_inv:
  assumes laws: "session_laws env flt" and inv: "session_inv flt s"
    and h: "svc_message_handler env msg n s = Inr (keep, resp, s')"
  shows "session_inv flt s' \<and> (msg = None \<longrightarrow> remoteProxyIp (router s') = [] \<and> monitor (router s') = None)"
proof -
  obtain req result s1 where r: "handle_request env req s = Inr (result, s1)"
    and s': "s' = s1 \<or> s' = s1\<lparr>router := (router s1)\<lparr>shut_down := False\<rparr>\<rparr>"
    and reset: "msg = None \<longrightarrow> action req = ''resetRouting''"
    using h by (fastforce simp: svc_message_handler_def bindr_eq_Inr split: option.splits if_splits)
  from handle_session_inv [OF laws inv r] s' reset show ?thesis
    by (auto simp: session_inv_def)
qed

lemma session_step_inv:
  assumes "session_laws env flt \<longrightarrow> res_inv (session_inv flt) r"
  shows "session_laws env flt \<longrightarrow> res_inv (session_inv flt) (svc_step env r msg)"
proof (cases r)
  case (Inl e)
  then show ?thesis by (simp add: svc_step_def res_inv_def)
next
  case (Inr s)
  with assms handler_session_inv [of env flt s msg BUFSIZE] show ?thesis
    by (cases "svc_message_handler env msg BUFSIZE s") (auto simp: svc_step_def res_inv_def)
qed

interpretation session: event_machine "svc_step env" "\<lambda>r. session_laws env flt \<longrightarrow> res_inv (session_inv flt) r"
  for env flt
  by unfold_locales (rule session_step_inv)

lemma run_session_inv:
  assumes "session_laws env flt" and "session_inv flt s" and "message_run env s msgs s'"
  shows "session_inv flt s'"
  using session.run_inv [of env flt "Inr s" msgs] assms by (simp add: message_run_def res_inv_def)

lemma only_last: "x \<in> set xs \<Longrightarrow> x \<notin> set (butlast xs) \<Longrightarrow> xs = butlast xs @ [x]"
  by (induction xs rule: rev_induct) auto

lemma message_run_snoc:
  assumes "message_run env s (msgs @ [m]) s'"
  obtains s1 keep resp where "message_run env s msgs s1" "svc_message_handler env m BUFSIZE s1 = Inr (keep, resp, s')"
proof -
  from assms obtain s1 where r: "message_run env s msgs s1"
    and st: "svc_step env (Inr s1) m = Inr s'"
    by (cases "foldl (svc_step env) (Inr s) msgs") (auto simp: message_run_def svc_step_def)
  from st obtain keep resp where "svc_message_handler env m BUFSIZE s1 = Inr (keep, resp, s')"
    by (auto simp: svc_step_def bindr_eq_Inr)
  with r show ?thesis by (rule that)
qed

section \<open>A session of the small system\<close>

text \<open>The message ''x'' configures the small system; the response has its length.\<close>

lemma demo_session_laws: "session_laws (demo_env rows) (fst \<circ> fst)"
  by (simp add: session_laws_def demo_fwp_service_laws demo_ascii demo_mallocs)
    (simp add: demo_env_def demo_run_def)

lemma demo_session_inv: "session_inv (fst \<circ> fst) demo_service"
  by (simp add: session_inv_def demo_service_def dns_consistent_def dns_init_def)

lemma demo_message: "json_parser (demo_env rows) ''x'' =
    Some (JObject [(''action'', JString ''configureRouting''), (''parameters'', JObject [(''proxyIp'', JString ''x'')])])"
  by (simp add: demo_env_def)

lemma cstr_buffer: "CHR 0x00 \<notin> set m \<Longrightarrow> length m < BUFSIZE \<Longrightarrow> cstr (message_buffer m) = m \<and> CHR 0x00 \<in> set (message_buffer m)"
  by (induction m) (auto simp: message_buffer_def cstr_def takeWhile_append)

lemma demo_handle_configure:
  "\<exists>resp s1. svc_message_handler (demo_env [demo_row]) (Some (message_buffer ''x'')) BUFSIZE demo_service
     = Inr (True, resp, s1) \<and> engine (dns s1) = 1"
proof -
  let ?env = "demo_env [demo_row]"
  let ?req = "request_zero\<lparr>action := ''configureRouting'', proxyIp := ''x''\<rparr>"
  have parse: "parse_request (json_parser ?env) (message_buffer ''x'') request_zero = Inr ?req"
    using cstr_buffer [of "''x''"]
    by (simp add: parse_request_def demo_message process_json_generic_def string_field_def cstr_id)
  have stop: "stop_monitor demo_service = Inr demo_service"
    by (simp add: stop_monitor_def net_status_stop_monitor_def demo_service_def router_zero_def)
  obtain s' where conf: "configure_routing ?env ''x'' [] [] demo_service = Inr (0, s')"
    and s': "router s' = demo_router" "engine (dns s') = 1"
    using demo_configure by blast
  obtain s1 where start: "start_monitor ?env s' = Inr s1" and "shut_down (router s1) = shut_down (router s')"
    by (auto simp: start_monitor_def net_status_start_monitor_def demo_env_def)
  moreover from start_monitor_fields [OF start] have "dns s1 = dns s'" by simp
  moreover have "handle_request ?env ?req demo_service = Inr (0, s1)"
    using stop conf start by (simp add: handle_request_def request_zero_def)
  moreover obtain resp where "build_response ''configureRouting'' 0 [] BUFSIZE = Inr resp"
    by (simp add: build_response_def dquote_def show_int_def show_nat.simps)
  ultimately show ?thesis
    using s' by (simp add: svc_message_handler_def parse demo_router_def router_zero_def)
qed

section \<open>Properties\<close>



text \<open>
  But a connection whose response cannot be written ends without that: the thread leaves its loop
  with the state the request set up, and nobody resets it. A client that goes away between its
  request and the response leaves the router configured and the DNS filters installed.
\<close>

theorem unwritten_response_keeps_state:
  assumes "read_ok rd" and "read_bytes rd = m" and "m \<noteq> []" and "CHR 0x00 \<in> set (message_buffer m)"
    and "svc_message_handler env (Some (message_buffer m)) BUFSIZE s = Inr (True, resp, s1)"
    and "\<not> write_ok wr" and "length (case write_error wr of Some t \<Rightarrow> t | None \<Rightarrow> []) < 400"
  shows "\<exists>c. client_thread (Some (svc_message_handler env)) ((rd, wr) # answers) s = Inr (c, s1)
    \<and> \<not> open_pipe c \<and> sent c = [] \<and> handed c = [Some (message_buffer m)]"
proof -
  let ?msg = "''WriteFile failed for '' @ quote @ (case write_error wr of Some t \<Rightarrow> t | None \<Rightarrow> []) @ quote @ [nl]"
  from assms(4) have str: "c_string (message_buffer m) = Inr (cstr (message_buffer m))" by (simp add: c_string_def)
  have "length ?msg < BUFSIZE" using assms(7) by (simp add: quote_def)
  then have line: "copy_into BUFSIZE ?msg = Inr ?msg" by (rule copy_into_fits)
  have go: "\<not> (\<not> read_ok rd \<or> read_bytes rd = [])" "\<not> write_ok wr \<or> x" for x
    using assms(1-3,6) by simp_all
  show ?thesis
    unfolding client_thread_def option.case client_loop.simps(2) if_not_P [OF go(1)] Let_def
    unfolding assms(2) str bindr_simps assms(5) prod.case if_P [OF go(2)] line
    by (simp add: new_connection_def log_line_def)
qed

lemma unwritten_response_keeps_state_witness:
  "\<exists>c s1. client_thread (Some (svc_message_handler (demo_env [demo_row])))
     [(demo_read ''x'', \<lparr>write_ok = False, write_done = 0, write_error = None\<rparr>)] demo_service = Inr (c, s1)
     \<and> \<not> open_pipe c \<and> engine (dns s1) = 1"
proof -
  obtain resp s1 where h: "svc_message_handler (demo_env [demo_row]) (Some (message_buffer ''x'')) BUFSIZE demo_service
     = Inr (True, resp, s1)" and e: "engine (dns s1) = 1"
    using demo_handle_configure by blast
  have "read_ok (demo_read ''x'')" "read_bytes (demo_read ''x'') = ''x''" by (simp_all add: demo_read_def)
  moreover have "CHR 0x00 \<in> set (message_buffer ''x'')" using cstr_buffer [of "''x''"] by simp
  moreover have "length (case None of Some t \<Rightarrow> t | None \<Rightarrow> []) < 400" by simp
  ultimately have "\<exists>c. client_thread (Some (svc_message_handler (demo_env [demo_row])))
     [(demo_read ''x'', \<lparr>write_ok = False, write_done = 0, write_error = None\<rparr>)] demo_service = Inr (c, s1)
     \<and> \<not> open_pipe c \<and> sent c = [] \<and> handed c = [Some (message_buffer ''x'')]"
    by (intro unwritten_response_keeps_state [OF _ _ _ _ h]) simp_all
  with e show ?thesis by blast
qed

end
