(* ===== verification/Settings.thy ===== *)
theory Settings
  imports Win_Prelude
begin

text \<open>
  The settings file (settings\_json.c): a server configuration as JSON and back. The JSON library is
  the record \<open>json_c\<close> of the calls the file makes, over an abstract type of nodes; the configuration
  record's functions, field widths and the milliseconds constant, which the client library
  declares, are the record \<open>config_api\<close>.
\<close>

section \<open>The libraries\<close>

datatype json_type = json_type_null | json_type_boolean | json_type_double | json_type_int
  | json_type_object | json_type_array | json_type_string

text \<open>A null pointer is JSON null. The constructors allocate; their results are taken as present.\<close>

record 'j json_c =
  json_object_get_type :: "'j option \<Rightarrow> json_type"
  json_object_get_string :: "'j \<Rightarrow> string"
  json_object_get_int :: "'j \<Rightarrow> int"
  json_object_get_boolean :: "'j \<Rightarrow> bool"
  json_object_foreach :: "'j \<Rightarrow> (string \<times> 'j option) list"
  json_object_array_items :: "'j \<Rightarrow> 'j option list"
  json_object_new_object :: 'j
  json_object_new_array :: 'j
  json_object_new_string :: "string \<Rightarrow> 'j"
  json_object_new_int :: "int \<Rightarrow> 'j"
  json_object_new_boolean :: "bool \<Rightarrow> 'j"
  json_object_object_add :: "'j \<Rightarrow> string \<Rightarrow> 'j \<Rightarrow> 'j"
  json_object_array_add :: "'j \<Rightarrow> 'j \<Rightarrow> 'j"

record server_config =
  remarks :: "string option"
  password :: "string option"
  cfg_method :: "string option"
  protocol :: "string option"
  protocol_param :: "string option"
  obfs :: "string option"
  obfs_param :: "string option"
  udp :: bool
  idle_timeout :: int
  connect_timeout_ms :: int
  udp_timeout :: int
  remote_host :: "string option"
  remote_port :: int
  listen_host :: "string option"
  listen_port :: int
  over_tls_enable :: bool
  over_tls_server_domain :: "string option"
  over_tls_path :: "string option"
  over_tls_root_cert_file :: "string option"

text \<open>
  \<open>port_field\<close>, \<open>idle_field\<close> and \<open>timeout_field\<close> are what the fields keep of an assigned value.
\<close>

record config_api =
  config_create :: "server_config option"
  string_safe_assign :: "string option \<Rightarrow> string option \<Rightarrow> string option"
  port_field :: "int \<Rightarrow> int"
  idle_field :: "int \<Rightarrow> int"
  timeout_field :: "int \<Rightarrow> int"
  MILLISECONDS_PER_SECOND :: int

section \<open>Reading\<close>

type_synonym 'j iter = "string \<times> 'j option"

definition json_iter_extract_object :: "'j json_c \<Rightarrow> string \<Rightarrow> 'j iter \<Rightarrow> 'j option" where
  "json_iter_extract_object jc key it =
     (if fst it \<noteq> key then None
      else if json_object_get_type jc (snd it) \<noteq> json_type_object then None
      else snd it)"

definition json_iter_extract_string :: "'j json_c \<Rightarrow> string \<Rightarrow> 'j iter \<Rightarrow> string option" where
  "json_iter_extract_string jc key it =
     (if fst it \<noteq> key then None
      else if json_object_get_type jc (snd it) \<noteq> json_type_string then None
      else map_option (json_object_get_string jc) (snd it))"

definition json_iter_extract_int :: "'j json_c \<Rightarrow> string \<Rightarrow> 'j iter \<Rightarrow> int option" where
  "json_iter_extract_int jc key it =
     (if fst it \<noteq> key then None
      else if json_object_get_type jc (snd it) \<noteq> json_type_int then None
      else map_option (json_object_get_int jc) (snd it))"

definition json_iter_extract_bool :: "'j json_c \<Rightarrow> string \<Rightarrow> 'j iter \<Rightarrow> bool option" where
  "json_iter_extract_bool jc key it =
     (if fst it \<noteq> key then None
      else if json_object_get_type jc (snd it) \<noteq> json_type_boolean then None
      else map_option (json_object_get_boolean jc) (snd it))"

text \<open>
  The bodies of the loops are chains of \<open>if (extract(...)) { assign; continue; }\<close>: \<open>first_of\<close> takes the
  first extraction that applies. An assignment through the 64-bit fields multiplies modulo \<open>2 ^ 64\<close>.
\<close>

fun first_of :: "'c \<Rightarrow> 'c option list \<Rightarrow> 'c" where
  "first_of c [] = c"
| "first_of c (x # xs) = (case x of Some d \<Rightarrow> d | None \<Rightarrow> first_of c xs)"

definition mul64 :: "int \<Rightarrow> int \<Rightarrow> int" where
  "mul64 i m = uint ((word_of_int i :: 64 word) * word_of_int m)"

definition client_entry :: "config_api \<Rightarrow> 'j json_c \<Rightarrow> 'j iter \<Rightarrow> server_config \<Rightarrow> server_config" where
  "client_entry api jc it c =
     (let str = (\<lambda>key. json_iter_extract_string jc key it);
          int = (\<lambda>key. json_iter_extract_int jc key it);
          assign = string_safe_assign api
      in first_of c
        [map_option (\<lambda>s. c\<lparr>remote_host := assign (remote_host c) (Some s)\<rparr>) (str ''server''),
         map_option (\<lambda>i. c\<lparr>remote_port := port_field api i\<rparr>) (int ''server_port''),
         map_option (\<lambda>s. c\<lparr>listen_host := assign (listen_host c) (Some s)\<rparr>) (str ''listen_address''),
         map_option (\<lambda>i. c\<lparr>listen_port := port_field api i\<rparr>) (int ''listen_port'')])"

definition over_tls_entry :: "config_api \<Rightarrow> 'j json_c \<Rightarrow> 'j iter \<Rightarrow> server_config \<Rightarrow> server_config" where
  "over_tls_entry api jc it c =
     (let str = (\<lambda>key. json_iter_extract_string jc key it);
          assign = string_safe_assign api
      in first_of c
        [map_option (\<lambda>b. c\<lparr>over_tls_enable := b\<rparr>) (json_iter_extract_bool jc ''enable'' it),
         map_option (\<lambda>s. c\<lparr>over_tls_server_domain := assign (over_tls_server_domain c) (Some s)\<rparr>)
           (str ''server_domain''),
         map_option (\<lambda>s. c\<lparr>over_tls_path := assign (over_tls_path c) (Some s)\<rparr>) (str ''path''),
         map_option (\<lambda>s. c\<lparr>over_tls_root_cert_file := assign (over_tls_root_cert_file c) (Some s)\<rparr>)
           (str ''root_cert_file'')])"

definition config_entry :: "config_api \<Rightarrow> 'j json_c \<Rightarrow> 'j iter \<Rightarrow> server_config \<Rightarrow> server_config" where
  "config_entry api jc it c =
     (let str = (\<lambda>key. json_iter_extract_string jc key it);
          int = (\<lambda>key. json_iter_extract_int jc key it);
          obj = (\<lambda>key. json_iter_extract_object jc key it);
          assign = string_safe_assign api;
          ms = MILLISECONDS_PER_SECOND api
      in first_of c
        [map_option (\<lambda>s. c\<lparr>remarks := assign (remarks c) (Some s)\<rparr>) (str ''remarks''),
         map_option (\<lambda>s. c\<lparr>password := assign (password c) (Some s)\<rparr>) (str ''password''),
         map_option (\<lambda>s. c\<lparr>cfg_method := assign (cfg_method c) (Some s)\<rparr>) (str ''method''),
         map_option (\<lambda>s. c\<lparr>protocol := assign (protocol c)
           (if s = ''verify_sha1'' then None else Some s)\<rparr>) (str ''protocol''),
         map_option (\<lambda>s. c\<lparr>protocol_param := assign (protocol_param c) (Some s)\<rparr>) (str ''protocol_param''),
         map_option (\<lambda>s. c\<lparr>obfs := assign (obfs c) (Some s)\<rparr>) (str ''obfs''),
         map_option (\<lambda>s. c\<lparr>obfs_param := assign (obfs_param c) (Some s)\<rparr>) (str ''obfs_param''),
         map_option (\<lambda>b. c\<lparr>udp := b\<rparr>) (json_iter_extract_bool jc ''udp'' it),
         map_option (\<lambda>i. c\<lparr>idle_timeout := idle_field api (i * ms)\<rparr>) (int ''idle_timeout''),
         map_option (\<lambda>i. c\<lparr>connect_timeout_ms := timeout_field api (mul64 i ms)\<rparr>) (int ''connect_timeout''),
         map_option (\<lambda>i. c\<lparr>udp_timeout := timeout_field api (mul64 i ms)\<rparr>) (int ''udp_timeout''),
         map_option (\<lambda>j. fold (client_entry api jc) (json_object_foreach jc j) c) (obj ''client_settings''),
         map_option (\<lambda>j. fold (over_tls_entry api jc) (json_object_foreach jc j) c)
           (obj ''over_tls_settings'')])"

definition parse_config_from_json ::
  "config_api \<Rightarrow> 'j json_c \<Rightarrow> 'j option \<Rightarrow> server_config option" where
  "parse_config_from_json api jc jso =
     (case jso of
        None \<Rightarrow> None
      | Some j \<Rightarrow>
          (case config_create api of
             None \<Rightarrow> None
           | Some c \<Rightarrow> Some (fold (config_entry api jc) (json_object_foreach jc j) c)))"

text \<open>
  A settings file is an array of configurations; \<open>json_object_from_file\<close> is given as its result. The
  callback gets one configuration after the other, null where an element gives none.
\<close>

definition parse_settings_file ::
  "config_api \<Rightarrow> 'j json_c \<Rightarrow> 'j option \<Rightarrow> (server_config option \<Rightarrow> 'p \<Rightarrow> 'p) option \<Rightarrow> 'p \<Rightarrow> 'p" where
  "parse_settings_file api jc from_file fn p =
     (case from_file of
        None \<Rightarrow> p
      | Some jso \<Rightarrow>
          if json_object_get_type jc (Some jso) \<noteq> json_type_array then p
          else fold (\<lambda>obj p. case fn of
                 Some f \<Rightarrow> f (parse_config_from_json api jc obj) p | None \<Rightarrow> p)
               (json_object_array_items jc jso) p)"

section \<open>Writing\<close>

text \<open>
  \<open>json_object_new_string\<close> of a null pointer faults; the optional parameters are written as the empty
  string instead. \<open>(int32_t)\<close> wraps.
\<close>

definition new_string :: "'j json_c \<Rightarrow> string option \<Rightarrow> 'j res" where
  "new_string jc s = (case s of None \<Rightarrow> Inl Null_Deref | Some x \<Rightarrow> Inr (json_object_new_string jc x))"

definition new_optional :: "'j json_c \<Rightarrow> string option \<Rightarrow> 'j res" where
  "new_optional jc s = Inr (json_object_new_string jc (case s of None \<Rightarrow> [] | Some x \<Rightarrow> x))"

definition int32 :: "int \<Rightarrow> int" where
  "int32 i = sint (word_of_int i :: 32 word)"

fun add_members :: "'j json_c \<Rightarrow> 'j \<Rightarrow> (string \<times> 'j res) list \<Rightarrow> 'j res" where
  "add_members jc j [] = Inr j"
| "add_members jc j ((k, v) # ms) =
     bindr v (\<lambda>x. add_members jc (json_object_object_add jc j k x) ms)"

definition client_members :: "'j json_c \<Rightarrow> server_config \<Rightarrow> (string \<times> 'j res) list" where
  "client_members jc c =
     [(''server'', new_string jc (remote_host c)),
      (''server_port'', Inr (json_object_new_int jc (int32 (remote_port c)))),
      (''listen_address'', new_string jc (listen_host c)),
      (''listen_port'', Inr (json_object_new_int jc (int32 (listen_port c))))]"

definition over_tls_members :: "'j json_c \<Rightarrow> server_config \<Rightarrow> (string \<times> 'j res) list" where
  "over_tls_members jc c =
     [(''enable'', Inr (json_object_new_boolean jc (over_tls_enable c))),
      (''server_domain'', new_optional jc (over_tls_server_domain c)),
      (''path'', new_optional jc (over_tls_path c))]"

definition config_members :: "config_api \<Rightarrow> 'j json_c \<Rightarrow> server_config \<Rightarrow> (string \<times> 'j res) list" where
  "config_members api jc c =
     (let ms = MILLISECONDS_PER_SECOND api;
          seconds = (\<lambda>t. Inr (json_object_new_int jc (int32 (t div ms))))
      in [(''remarks'', new_string jc (remarks c)),
          (''password'', new_string jc (password c)),
          (''method'', new_string jc (cfg_method c)),
          (''protocol'', new_string jc (protocol c)),
          (''protocol_param'', new_optional jc (protocol_param c)),
          (''obfs'', new_string jc (obfs c)),
          (''obfs_param'', new_optional jc (obfs_param c)),
          (''udp'', Inr (json_object_new_boolean jc (udp c))),
          (''idle_timeout'', seconds (idle_timeout c)),
          (''connect_timeout'', seconds (connect_timeout_ms c)),
          (''udp_timeout'', seconds (udp_timeout c)),
          (''client_settings'', add_members jc (json_object_new_object jc) (client_members jc c)),
          (''over_tls_settings'', add_members jc (json_object_new_object jc) (over_tls_members jc c))])"

definition build_json_from_config :: "config_api \<Rightarrow> 'j json_c \<Rightarrow> server_config \<Rightarrow> 'j res" where
  "build_json_from_config api jc c = add_members jc (json_object_new_object jc) (config_members api jc c)"

text \<open>
  \<open>to_file\<close> and \<open>to_string\<close> are what \<open>json_object_to_file_ext\<close> (success) and
  \<open>json_object_to_json_string_ext\<close> answer for the document.
\<close>

definition save_single_config_to_json_file ::
  "config_api \<Rightarrow> 'j json_c \<Rightarrow> (string \<Rightarrow> 'j \<Rightarrow> bool) \<Rightarrow> server_config option \<Rightarrow> string option \<Rightarrow> bool res" where
  "save_single_config_to_json_file api jc to_file config file_path =
     (case (config, file_path) of
        (Some c, Some path) \<Rightarrow> bindr (build_json_from_config api jc c) (\<lambda>jso. Inr (to_file path jso))
      | _ \<Rightarrow> Inr False)"

definition config_to_json_string ::
  "config_api \<Rightarrow> 'j json_c \<Rightarrow> ('j \<Rightarrow> string option) \<Rightarrow> server_config option \<Rightarrow> (nat \<Rightarrow> bool) option
     \<Rightarrow> string option res" where
  "config_to_json_string api jc to_string config allocator =
     (case (config, allocator) of
        (Some c, Some grants) \<Rightarrow> bindr (build_json_from_config api jc c) (\<lambda>jso.
           case to_string jso of
             None \<Rightarrow> Inl Assert_Failed
           | Some tmp \<Rightarrow> Inr (if grants (length tmp + 1) then Some tmp else None))
      | _ \<Rightarrow> Inr None)"

record 'j config_json_saver =
  jso_array :: 'j
  saver_path :: string

definition config_json_saver_create ::
  "'j json_c \<Rightarrow> bool \<Rightarrow> string option \<Rightarrow> 'j config_json_saver option" where
  "config_json_saver_create jc calloc_ok file_path =
     (if \<not> calloc_ok then None
      else (case file_path of
              None \<Rightarrow> None
            | Some path \<Rightarrow> Some \<lparr>jso_array = json_object_new_array jc, saver_path = path\<rparr>))"

definition config_json_saver_add_item ::
  "config_api \<Rightarrow> 'j json_c \<Rightarrow> 'j config_json_saver option \<Rightarrow> server_config option
     \<Rightarrow> 'j config_json_saver option res" where
  "config_json_saver_add_item api jc saver config =
     (case (saver, config) of
        (Some s, Some c) \<Rightarrow> bindr (build_json_from_config api jc c)
           (\<lambda>jso. Inr (Some (s\<lparr>jso_array := json_object_array_add jc (jso_array s) jso\<rparr>)))
      | _ \<Rightarrow> Inr saver)"

definition config_json_saver_write_file ::
  "'j config_json_saver option \<Rightarrow> (string \<Rightarrow> 'j \<Rightarrow> 'w \<Rightarrow> 'w) \<Rightarrow> 'w \<Rightarrow> 'w" where
  "config_json_saver_write_file saver to_file w =
     (case saver of None \<Rightarrow> w | Some s \<Rightarrow> to_file (saver_path s) (jso_array s) w)"

text \<open>What \<open>config_json_saver_release\<close> gives back: the document, the path and the saver itself.\<close>

datatype 'j released = Released_Json 'j | Released_Path string | Released_Saver

definition config_json_saver_release :: "'j config_json_saver option \<Rightarrow> 'j released list" where
  "config_json_saver_release saver =
     (case saver of
        None \<Rightarrow> []
      | Some s \<Rightarrow> [Released_Json (jso_array s), Released_Path (saver_path s), Released_Saver])"

section \<open>Documented behaviour of the libraries\<close>

definition json_c_laws :: "'j json_c \<Rightarrow> bool" where
  "json_c_laws jc \<longleftrightarrow>
     (\<forall>s. json_object_get_type jc (Some (json_object_new_string jc s)) = json_type_string
        \<and> json_object_get_string jc (json_object_new_string jc s) = s)
   \<and> (\<forall>i. json_object_get_type jc (Some (json_object_new_int jc i)) = json_type_int
        \<and> (- (2 ^ 31) \<le> i \<and> i < 2 ^ 31 \<longrightarrow> json_object_get_int jc (json_object_new_int jc i) = i))
   \<and> (\<forall>b. json_object_get_type jc (Some (json_object_new_boolean jc b)) = json_type_boolean
        \<and> json_object_get_boolean jc (json_object_new_boolean jc b) = b)
   \<and> json_object_get_type jc (Some (json_object_new_object jc)) = json_type_object
   \<and> json_object_foreach jc (json_object_new_object jc) = []
   \<and> (\<forall>j k v. json_object_get_type jc (Some j) = json_type_object \<longrightarrow>
        json_object_get_type jc (Some (json_object_object_add jc j k v)) = json_type_object
        \<and> (k \<notin> fst ` set (json_object_foreach jc j) \<longrightarrow>
             json_object_foreach jc (json_object_object_add jc j k v) = json_object_foreach jc j @ [(k, Some v)]))
   \<and> json_object_get_type jc (Some (json_object_new_array jc)) = json_type_array
   \<and> json_object_array_items jc (json_object_new_array jc) = []
   \<and> (\<forall>a v. json_object_get_type jc (Some a) = json_type_array \<longrightarrow>
        json_object_get_type jc (Some (json_object_array_add jc a v)) = json_type_array
        \<and> json_object_array_items jc (json_object_array_add jc a v) = json_object_array_items jc a @ [Some v])"

definition config_laws :: "config_api \<Rightarrow> bool" where
  "config_laws api \<longleftrightarrow>
     (\<forall>old new. string_safe_assign api old new = new)
   \<and> (\<forall>i. 0 \<le> i \<and> i < 65536 \<longrightarrow> port_field api i = i)
   \<and> (\<forall>i. 0 \<le> i \<and> i < 2 ^ 31 \<longrightarrow> idle_field api i = i)
   \<and> (\<forall>i. 0 \<le> i \<and> i < 2 ^ 64 \<longrightarrow> timeout_field api i = i)
   \<and> 0 < MILLISECONDS_PER_SECOND api \<and> config_create api \<noteq> None"

section \<open>Round trip\<close>

lemma json_c_lawsD:
  assumes "json_c_laws jc"
  shows "json_object_get_type jc (Some (json_object_new_string jc s)) = json_type_string"
    and "json_object_get_string jc (json_object_new_string jc s) = s"
    and "json_object_get_type jc (Some (json_object_new_int jc i)) = json_type_int"
    and "- (2 ^ 31) \<le> i \<Longrightarrow> i < 2 ^ 31 \<Longrightarrow> json_object_get_int jc (json_object_new_int jc i) = i"
    and "json_object_get_type jc (Some (json_object_new_boolean jc b)) = json_type_boolean"
    and "json_object_get_boolean jc (json_object_new_boolean jc b) = b"
    and "json_object_get_type jc (Some (json_object_new_object jc)) = json_type_object"
    and "json_object_foreach jc (json_object_new_object jc) = []"
    and "json_object_get_type jc (Some (json_object_new_array jc)) = json_type_array"
    and "json_object_array_items jc (json_object_new_array jc) = []"
  using assms by (simp_all add: json_c_laws_def)

lemma json_c_laws_add:
  assumes "json_c_laws jc" and "json_object_get_type jc (Some j) = json_type_object"
  shows "json_object_get_type jc (Some (json_object_object_add jc j k v)) = json_type_object"
    and "k \<notin> fst ` set (json_object_foreach jc j) \<Longrightarrow>
      json_object_foreach jc (json_object_object_add jc j k v) = json_object_foreach jc j @ [(k, Some v)]"
proof -
  have "\<forall>j k v. json_object_get_type jc (Some j) = json_type_object \<longrightarrow>
        json_object_get_type jc (Some (json_object_object_add jc j k v)) = json_type_object
        \<and> (k \<notin> fst ` set (json_object_foreach jc j) \<longrightarrow>
             json_object_foreach jc (json_object_object_add jc j k v) = json_object_foreach jc j @ [(k, Some v)])"
    using assms(1) unfolding json_c_laws_def by (elim conjE) assumption
  from this [rule_format, OF assms(2)] show
    "json_object_get_type jc (Some (json_object_object_add jc j k v)) = json_type_object"
    "k \<notin> fst ` set (json_object_foreach jc j) \<Longrightarrow>
      json_object_foreach jc (json_object_object_add jc j k v) = json_object_foreach jc j @ [(k, Some v)]"
    by blast+
qed

lemma json_c_laws_array_add:
  assumes "json_c_laws jc" and "json_object_get_type jc (Some a) = json_type_array"
  shows "json_object_get_type jc (Some (json_object_array_add jc a v)) = json_type_array"
    and "json_object_array_items jc (json_object_array_add jc a v) = json_object_array_items jc a @ [Some v]"
proof -
  have "\<forall>a v. json_object_get_type jc (Some a) = json_type_array \<longrightarrow>
        json_object_get_type jc (Some (json_object_array_add jc a v)) = json_type_array
        \<and> json_object_array_items jc (json_object_array_add jc a v) = json_object_array_items jc a @ [Some v]"
    using assms(1) unfolding json_c_laws_def by (elim conjE) assumption
  from this [rule_format, OF assms(2)] show
    "json_object_get_type jc (Some (json_object_array_add jc a v)) = json_type_array"
    "json_object_array_items jc (json_object_array_add jc a v) = json_object_array_items jc a @ [Some v]"
    by blast+
qed

text \<open>What a sequence of additions under different keys builds.\<close>

lemma add_members_foreach:
  assumes laws: "json_c_laws jc"
  shows "json_object_get_type jc (Some j) = json_type_object \<Longrightarrow>
    distinct (map fst (json_object_foreach jc j) @ map fst ms) \<Longrightarrow> \<forall>m \<in> set ms. \<exists>x. snd m = Inr x \<Longrightarrow>
    \<exists>j'. add_members jc j ms = Inr j' \<and> json_object_get_type jc (Some j') = json_type_object
      \<and> json_object_foreach jc j' = json_object_foreach jc j @ map (\<lambda>(k, v). (k, Some (projr v))) ms"
proof (induction ms arbitrary: j)
  case Nil
  then show ?case by simp
next
  case (Cons m ms)
  obtain k x where m: "m = (k, Inr x)" using Cons.prems(3) by (cases m) auto
  have fresh: "k \<notin> fst ` set (json_object_foreach jc j)" using Cons.prems(2) m by auto
  note add = json_c_laws_add(1) [OF laws Cons.prems(1)] json_c_laws_add(2) [OF laws Cons.prems(1) fresh]
  have "distinct (map fst (json_object_foreach jc (json_object_object_add jc j k x)) @ map fst ms)"
    using Cons.prems(2) m by (auto simp: add)
  from Cons.IH [OF add(1) this] Cons.prems(3) show ?case by (simp add: m add)
qed

lemma add_members_new:
  assumes "json_c_laws jc" and "distinct (map fst ms)" and "\<forall>m \<in> set ms. \<exists>x. snd m = Inr x"
  obtains j where "add_members jc (json_object_new_object jc) ms = Inr j"
    "json_object_get_type jc (Some j) = json_type_object"
    "json_object_foreach jc j = map (\<lambda>(k, v). (k, Some (projr v))) ms"
  using add_members_foreach [OF assms(1), of "json_object_new_object jc" ms] assms
  by (auto simp: json_c_lawsD)

text \<open>
  The configurations the file format can carry: names present, numbers in the range of their
  fields. (The protocol \<open>verify_sha1\<close> is read as no protocol.)
\<close>

definition storable :: "config_api \<Rightarrow> server_config \<Rightarrow> bool" where
  "storable api c \<longleftrightarrow>
     remarks c \<noteq> None \<and> password c \<noteq> None \<and> cfg_method c \<noteq> None \<and> protocol c \<noteq> None
   \<and> protocol c \<noteq> Some ''verify_sha1'' \<and> obfs c \<noteq> None \<and> remote_host c \<noteq> None \<and> listen_host c \<noteq> None
   \<and> 0 \<le> remote_port c \<and> remote_port c < 65536 \<and> 0 \<le> listen_port c \<and> listen_port c < 65536
   \<and> 0 \<le> idle_timeout c \<and> idle_timeout c < 2 ^ 31
   \<and> 0 \<le> connect_timeout_ms c \<and> connect_timeout_ms c < 2 ^ 31
   \<and> 0 \<le> udp_timeout c \<and> udp_timeout c < 2 ^ 31"

text \<open>What comes back: whole seconds, empty parameters for absent ones, and the root certificate
  file of a fresh configuration.\<close>

definition whole_seconds :: "config_api \<Rightarrow> int \<Rightarrow> int" where
  "whole_seconds api t = t div MILLISECONDS_PER_SECOND api * MILLISECONDS_PER_SECOND api"

definition present :: "string option \<Rightarrow> string option" where
  "present s = Some (case s of None \<Rightarrow> [] | Some x \<Rightarrow> x)"

definition read_back :: "config_api \<Rightarrow> server_config \<Rightarrow> server_config" where
  "read_back api c =
     c\<lparr>protocol_param := present (protocol_param c), obfs_param := present (obfs_param c),
       over_tls_server_domain := present (over_tls_server_domain c),
       over_tls_path := present (over_tls_path c),
       idle_timeout := whole_seconds api (idle_timeout c),
       connect_timeout_ms := whole_seconds api (connect_timeout_ms c),
       udp_timeout := whole_seconds api (udp_timeout c),
       over_tls_root_cert_file := over_tls_root_cert_file (the (config_create api))\<rparr>"

lemma mul64_small:
  assumes "0 \<le> i * m" and "i * m < 2 ^ 64"
  shows "mul64 i m = i * m"
proof -
  have "mul64 i m = uint (word_of_int (i * m) :: 64 word)"
    by (simp only: mul64_def wi_hom_mult)
  also have "\<dots> = (i * m) mod 2 ^ LENGTH(64)"
    by (simp only: uint_word_of_int)
  also have "\<dots> = i * m"
    using assms by (intro mod_pos_pos_trivial) simp_all
  finally show ?thesis .
qed

lemma int32_small: "0 \<le> i \<Longrightarrow> i < 2 ^ 31 \<Longrightarrow> int32 i = i"
  by (simp add: int32_def signed_of_int signed_take_bit_int_eq_self)

lemma div_bounds:
  fixes t m :: int
  assumes "0 \<le> t" "t < 2 ^ 31" "0 < m"
  shows "0 \<le> t div m" "t div m < 2 ^ 31" "0 \<le> t div m * m" "t div m * m < 2 ^ 31"
proof -
  show 0: "0 \<le> t div m" using assms by (simp add: pos_imp_zdiv_nonneg_iff)
  have "t div m \<le> t" using assms(1,3) by (metis div_by_1 int_one_le_iff_zero_less zdiv_mono2 zero_less_one)
  with assms(2) show "t div m < 2 ^ 31" by linarith
  show "0 \<le> t div m * m" using 0 assms(3) by simp
  have "t div m * m \<le> t" using pos_mod_sign [OF assms(3), of t] div_mult_mod_eq [of t m] by linarith
  with assms(2) show "t div m * m < 2 ^ 31" by linarith
qed

text \<open>The nodes a storable configuration is written as.\<close>

definition client_nodes :: "'j json_c \<Rightarrow> server_config \<Rightarrow> 'j iter list" where
  "client_nodes jc c =
     [(''server'', Some (json_object_new_string jc (the (remote_host c)))),
      (''server_port'', Some (json_object_new_int jc (remote_port c))),
      (''listen_address'', Some (json_object_new_string jc (the (listen_host c)))),
      (''listen_port'', Some (json_object_new_int jc (listen_port c)))]"

definition over_tls_nodes :: "'j json_c \<Rightarrow> server_config \<Rightarrow> 'j iter list" where
  "over_tls_nodes jc c =
     [(''enable'', Some (json_object_new_boolean jc (over_tls_enable c))),
      (''server_domain'', Some (json_object_new_string jc (the (present (over_tls_server_domain c))))),
      (''path'', Some (json_object_new_string jc (the (present (over_tls_path c)))))]"

definition config_nodes :: "config_api \<Rightarrow> 'j json_c \<Rightarrow> server_config \<Rightarrow> 'j \<Rightarrow> 'j \<Rightarrow> 'j iter list" where
  "config_nodes api jc c client tls =
     (let str = (\<lambda>s. Some (json_object_new_string jc (the s)));
          seconds = (\<lambda>t. Some (json_object_new_int jc (t div MILLISECONDS_PER_SECOND api)))
      in [(''remarks'', str (remarks c)), (''password'', str (password c)), (''method'', str (cfg_method c)),
          (''protocol'', str (protocol c)), (''protocol_param'', str (present (protocol_param c))),
          (''obfs'', str (obfs c)), (''obfs_param'', str (present (obfs_param c))),
          (''udp'', Some (json_object_new_boolean jc (udp c))),
          (''idle_timeout'', seconds (idle_timeout c)),
          (''connect_timeout'', seconds (connect_timeout_ms c)),
          (''udp_timeout'', seconds (udp_timeout c)),
          (''client_settings'', Some client), (''over_tls_settings'', Some tls)])"

lemma config_members_nodes:
  assumes laws: "json_c_laws jc" and ok: "storable api c" and ms: "0 < MILLISECONDS_PER_SECOND api"
  shows "\<exists>client tls. map (\<lambda>(k, v). (k, Some (projr v))) (config_members api jc c) = config_nodes api jc c client tls
    \<and> (\<forall>m \<in> set (config_members api jc c). \<exists>x. snd m = Inr x)
    \<and> json_object_get_type jc (Some client) = json_type_object
    \<and> json_object_get_type jc (Some tls) = json_type_object
    \<and> json_object_foreach jc client = client_nodes jc c
    \<and> json_object_foreach jc tls = over_tls_nodes jc c"
proof -
  have strs: "new_string jc x = Inr (json_object_new_string jc (the x))" if "x \<noteq> None" for x
    using that by (auto simp: new_string_def)
  have opts: "new_optional jc x = Inr (json_object_new_string jc (the (present x)))" for x
    by (simp add: new_optional_def present_def)
  note seconds = int32_small [OF div_bounds(1,2) [OF _ _ ms]]
  have ports: "int32 (remote_port c) = remote_port c" "int32 (listen_port c) = listen_port c"
    using ok by (simp_all add: storable_def int32_small)
  from ok have req: "remote_host c \<noteq> None" "listen_host c \<noteq> None" by (simp_all add: storable_def)
  obtain client where client: "add_members jc (json_object_new_object jc) (client_members jc c) = Inr client"
    "json_object_get_type jc (Some client) = json_type_object"
    "json_object_foreach jc client = map (\<lambda>(k, v). (k, Some (projr v))) (client_members jc c)"
    by (rule add_members_new [OF laws, of "client_members jc c"])
      (simp_all add: client_members_def strs req)
  obtain tls where tls: "add_members jc (json_object_new_object jc) (over_tls_members jc c) = Inr tls"
    "json_object_get_type jc (Some tls) = json_type_object"
    "json_object_foreach jc tls = map (\<lambda>(k, v). (k, Some (projr v))) (over_tls_members jc c)"
    by (rule add_members_new [OF laws, of "over_tls_members jc c"])
      (simp_all add: over_tls_members_def opts)
  have "json_object_foreach jc client = client_nodes jc c" "json_object_foreach jc tls = over_tls_nodes jc c"
    by (simp_all add: client(3) tls(3) client_members_def over_tls_members_def client_nodes_def
        over_tls_nodes_def strs req opts ports)
  moreover have "map (\<lambda>(k, v). (k, Some (projr v))) (config_members api jc c) = config_nodes api jc c client tls"
    using ok by (simp add: config_members_def config_nodes_def Let_def strs opts client(1) tls(1)
        storable_def seconds)
  moreover have "\<forall>m \<in> set (config_members api jc c). \<exists>x. snd m = Inr x"
    using ok by (simp add: config_members_def Let_def strs opts client(1) tls(1) storable_def)
  ultimately show ?thesis using client(2) tls(2) by blast
qed

lemma config_lawsD:
  assumes "config_laws api"
  shows "string_safe_assign api old new = new"
    and "0 \<le> i \<Longrightarrow> i < 65536 \<Longrightarrow> port_field api i = i"
    and "0 \<le> i \<Longrightarrow> i < 2 ^ 31 \<Longrightarrow> idle_field api i = i"
    and "0 \<le> i \<Longrightarrow> i < 2 ^ 31 \<Longrightarrow> timeout_field api i = i"
    and "0 < MILLISECONDS_PER_SECOND api"
  using assms by (simp_all add: config_laws_def)

lemma extract_simps:
  assumes laws: "json_c_laws jc"
  shows "json_iter_extract_string jc key (k, Some (json_object_new_string jc s)) = (if k = key then Some s else None)"
    and "json_iter_extract_string jc key (k, Some (json_object_new_int jc i)) = None"
    and "json_iter_extract_string jc key (k, Some (json_object_new_boolean jc b)) = None"
    and "json_object_get_type jc (Some j) = json_type_object \<Longrightarrow> json_iter_extract_string jc key (k, Some j) = None"
    and "json_iter_extract_int jc key (k, Some (json_object_new_string jc s)) = None"
    and "- (2 ^ 31) \<le> i \<Longrightarrow> i < 2 ^ 31 \<Longrightarrow>
      json_iter_extract_int jc key (k, Some (json_object_new_int jc i)) = (if k = key then Some i else None)"
    and "json_iter_extract_int jc key (k, Some (json_object_new_boolean jc b)) = None"
    and "json_object_get_type jc (Some j) = json_type_object \<Longrightarrow> json_iter_extract_int jc key (k, Some j) = None"
    and "json_iter_extract_bool jc key (k, Some (json_object_new_string jc s)) = None"
    and "json_iter_extract_bool jc key (k, Some (json_object_new_int jc i)) = None"
    and "json_iter_extract_bool jc key (k, Some (json_object_new_boolean jc b)) = (if k = key then Some b else None)"
    and "json_object_get_type jc (Some j) = json_type_object \<Longrightarrow> json_iter_extract_bool jc key (k, Some j) = None"
    and "json_iter_extract_object jc key (k, Some (json_object_new_string jc s)) = None"
    and "json_iter_extract_object jc key (k, Some (json_object_new_int jc i)) = None"
    and "json_iter_extract_object jc key (k, Some (json_object_new_boolean jc b)) = None"
    and "json_object_get_type jc (Some j) = json_type_object \<Longrightarrow>
      json_iter_extract_object jc key (k, Some j) = (if k = key then Some j else None)"
  using laws
  by (simp_all add: json_iter_extract_string_def json_iter_extract_int_def json_iter_extract_bool_def
      json_iter_extract_object_def json_c_lawsD)

lemma parse_build:
  assumes jc: "json_c_laws jc" and api: "config_laws api" and ok: "storable api c"
  shows "\<exists>j. build_json_from_config api jc c = Inr j
    \<and> json_object_get_type jc (Some j) = json_type_object
    \<and> parse_config_from_json api jc (Some j) = Some (read_back api c)"
proof -
  note ms = config_lawsD(5) [OF api]
  obtain client tls where members:
    "map (\<lambda>(k, v). (k, Some (projr v))) (config_members api jc c) = config_nodes api jc c client tls"
    and fine: "\<forall>m \<in> set (config_members api jc c). \<exists>x. snd m = Inr x"
    and types: "json_object_get_type jc (Some client) = json_type_object"
      "json_object_get_type jc (Some tls) = json_type_object"
    and nodes: "json_object_foreach jc client = client_nodes jc c" "json_object_foreach jc tls = over_tls_nodes jc c"
    using config_members_nodes [OF jc ok ms] by blast
  have "distinct (map fst (config_members api jc c))"
    by (simp add: config_members_def Let_def)
  then obtain j where j: "build_json_from_config api jc c = Inr j"
    "json_object_get_type jc (Some j) = json_type_object"
    "json_object_foreach jc j = map (\<lambda>(k, v). (k, Some (projr v))) (config_members api jc c)"
    using add_members_new [OF jc _ fine] unfolding build_json_from_config_def by blast
  obtain c0 where c0: "config_create api = Some c0"
    using api by (auto simp: config_laws_def)
  note ex = extract_simps [OF jc]
  obtain rm pw me pr ob rh lh where names: "remarks c = Some rm" "password c = Some pw"
    "cfg_method c = Some me" "protocol c = Some pr" "pr \<noteq> ''verify_sha1''" "obfs c = Some ob"
    "remote_host c = Some rh" "listen_host c = Some lh"
    using ok by (auto simp: storable_def)
  have ports: "- (2 ^ 31) \<le> remote_port c" "remote_port c < 2 ^ 31" "- (2 ^ 31) \<le> listen_port c"
    "listen_port c < 2 ^ 31"
    using ok by (simp_all add: storable_def)
  have port_f: "port_field api (remote_port c) = remote_port c" "port_field api (listen_port c) = listen_port c"
    using ok by (simp_all add: storable_def config_lawsD [OF api])
  have seconds: "- (2 ^ 31) \<le> t div MILLISECONDS_PER_SECOND api" "t div MILLISECONDS_PER_SECOND api < 2 ^ 31"
    "idle_field api (t div MILLISECONDS_PER_SECOND api * MILLISECONDS_PER_SECOND api) = whole_seconds api t"
    "timeout_field api (mul64 (t div MILLISECONDS_PER_SECOND api) (MILLISECONDS_PER_SECOND api))
       = whole_seconds api t"
    if "t \<in> {idle_timeout c, connect_timeout_ms c, udp_timeout c}" for t
  proof -
    have t: "0 \<le> t" "t < 2 ^ 31" using that ok by (auto simp: storable_def)
    note b = div_bounds [OF t ms]
    show "- (2 ^ 31) \<le> t div MILLISECONDS_PER_SECOND api" "t div MILLISECONDS_PER_SECOND api < 2 ^ 31"
      using b by linarith+
    show "idle_field api (t div MILLISECONDS_PER_SECOND api * MILLISECONDS_PER_SECOND api) = whole_seconds api t"
      using b by (simp add: whole_seconds_def config_lawsD [OF api])
    show "timeout_field api (mul64 (t div MILLISECONDS_PER_SECOND api) (MILLISECONDS_PER_SECOND api))
       = whole_seconds api t"
      using b by (simp add: whole_seconds_def config_lawsD [OF api] mul64_small)
  qed
  note sec = seconds [of "idle_timeout c", simplified] seconds [of "connect_timeout_ms c", simplified]
    seconds [of "udp_timeout c", simplified]
  have client_fold: "fold (client_entry api jc) (json_object_foreach jc client) x =
      x\<lparr>remote_host := remote_host c, remote_port := remote_port c,
        listen_host := listen_host c, listen_port := listen_port c\<rparr>" for x
    using ports port_f
    by (simp add: nodes(1) client_nodes_def client_entry_def Let_def ex config_lawsD(1) [OF api] names)
  have tls_fold: "fold (over_tls_entry api jc) (json_object_foreach jc tls) x =
      x\<lparr>over_tls_enable := over_tls_enable c, over_tls_server_domain := present (over_tls_server_domain c),
        over_tls_path := present (over_tls_path c)\<rparr>" for x
    by (simp add: nodes(2) over_tls_nodes_def over_tls_entry_def Let_def ex config_lawsD(1) [OF api] present_def)
  have "fold (config_entry api jc) (json_object_foreach jc j) c0 = read_back api c"
    by (rule server_config.equality)
      (simp_all add: j(3) members config_nodes_def config_entry_def Let_def ex sec names types
        config_lawsD(1) [OF api] client_fold tls_fold read_back_def present_def c0)
  then show ?thesis using j c0 by (simp add: parse_config_from_json_def)
qed

section \<open>A concrete library\<close>

datatype demo_json = DString string | DInt int | DBool bool
  | DObject "(string \<times> demo_json option) list" | DArray "demo_json option list"

definition demo_json_c :: "demo_json json_c" where
  "demo_json_c =
     \<lparr>json_object_get_type = (\<lambda>j. case j of None \<Rightarrow> json_type_null
        | Some (DString s) \<Rightarrow> json_type_string | Some (DInt i) \<Rightarrow> json_type_int
        | Some (DBool b) \<Rightarrow> json_type_boolean | Some (DObject m) \<Rightarrow> json_type_object
        | Some (DArray a) \<Rightarrow> json_type_array),
      json_object_get_string = (\<lambda>j. case j of DString s \<Rightarrow> s | _ \<Rightarrow> []),
      json_object_get_int = (\<lambda>j. case j of DInt i \<Rightarrow> i | _ \<Rightarrow> 0),
      json_object_get_boolean = (\<lambda>j. case j of DBool b \<Rightarrow> b | _ \<Rightarrow> False),
      json_object_foreach = (\<lambda>j. case j of DObject m \<Rightarrow> m | _ \<Rightarrow> []),
      json_object_array_items = (\<lambda>j. case j of DArray a \<Rightarrow> a | _ \<Rightarrow> []),
      json_object_new_object = DObject [], json_object_new_array = DArray [],
      json_object_new_string = DString, json_object_new_int = DInt, json_object_new_boolean = DBool,
      json_object_object_add = (\<lambda>j k v. case j of
          DObject m \<Rightarrow> DObject (if k \<in> fst ` set m
            then map (\<lambda>(k', v'). if k' = k then (k, Some v) else (k', v')) m else m @ [(k, Some v)])
        | _ \<Rightarrow> j),
      json_object_array_add = (\<lambda>j v. case j of DArray a \<Rightarrow> DArray (a @ [Some v]) | _ \<Rightarrow> j)\<rparr>"

definition demo_config :: server_config where
  "demo_config = \<lparr>remarks = Some ''home'', password = Some ''pw'', cfg_method = Some ''aes-128-ctr'',
     protocol = Some ''origin'', protocol_param = None, obfs = Some ''plain'', obfs_param = None,
     udp = True, idle_timeout = 300500, connect_timeout_ms = 6000, udp_timeout = 6000,
     remote_host = Some ''example.org'', remote_port = 443, listen_host = Some ''127.0.0.1'',
     listen_port = 1080, over_tls_enable = True, over_tls_server_domain = Some ''example.org'',
     over_tls_path = None, over_tls_root_cert_file = Some ''cert.pem''\<rparr>"

definition demo_config_api :: config_api where
  "demo_config_api = \<lparr>config_create = Some (demo_config\<lparr>over_tls_root_cert_file := None\<rparr>),
     string_safe_assign = (\<lambda>old new. new), port_field = (\<lambda>i. i mod 65536),
     idle_field = (\<lambda>i. i mod 2 ^ 32), timeout_field = (\<lambda>i. i mod 2 ^ 64), MILLISECONDS_PER_SECOND = 1000\<rparr>"

lemma demo_json_laws: "json_c_laws demo_json_c"
  by (auto simp: json_c_laws_def demo_json_c_def split: demo_json.splits)

lemma demo_config_laws: "config_laws demo_config_api"
  by (simp add: config_laws_def demo_config_api_def)

lemma demo_config_storable: "storable api demo_config"
  by (simp add: storable_def demo_config_def)

section \<open>Properties\<close>

text \<open>
  C10: Settings survive a save and a load. A configuration whose texts are present and whose numbers
  fit their fields is written without fault, and reading the written document gives it back with
  timeouts cut to whole seconds and absent parameters as empty strings; the root certificate file
  is not written, so what comes back is that of a fresh configuration.
\<close>

theorem config_round_trip:
  assumes "json_c_laws jc" and "config_laws api" and "storable api c"
  shows "\<exists>j. build_json_from_config api jc c = Inr j
    \<and> parse_config_from_json api jc (Some j) = Some (read_back api c)"
  using parse_build [OF assms] by blast

lemma config_round_trip_witness:
  "\<exists>j. build_json_from_config demo_config_api demo_json_c demo_config = Inr j
     \<and> map_option over_tls_root_cert_file (parse_config_from_json demo_config_api demo_json_c (Some j)) = Some None
     \<and> map_option idle_timeout (parse_config_from_json demo_config_api demo_json_c (Some j)) = Some 300000"
proof -
  obtain j where "build_json_from_config demo_config_api demo_json_c demo_config = Inr j"
    "parse_config_from_json demo_config_api demo_json_c (Some j) = Some (read_back demo_config_api demo_config)"
    using config_round_trip [OF demo_json_laws demo_config_laws demo_config_storable] by blast
  then show ?thesis
    by (simp add: read_back_def whole_seconds_def) (simp add: demo_config_api_def demo_config_def)
qed

fun add_items :: "config_api \<Rightarrow> 'j json_c \<Rightarrow> server_config list \<Rightarrow> 'j config_json_saver option
    \<Rightarrow> 'j config_json_saver option res" where
  "add_items api jc [] saver = Inr saver"
| "add_items api jc (c # cs) saver =
     bindr (config_json_saver_add_item api jc saver (Some c)) (add_items api jc cs)"

lemma add_items_array:
  assumes jc: "json_c_laws jc" and api: "config_laws api"
  shows "\<forall>c \<in> set cs. storable api c \<Longrightarrow> json_object_get_type jc (Some (jso_array s)) = json_type_array \<Longrightarrow>
    \<exists>s' js. add_items api jc cs (Some s) = Inr (Some s') \<and> saver_path s' = saver_path s
      \<and> json_object_get_type jc (Some (jso_array s')) = json_type_array
      \<and> json_object_array_items jc (jso_array s') = json_object_array_items jc (jso_array s) @ map Some js
      \<and> map (\<lambda>j. parse_config_from_json api jc (Some j)) js = map (\<lambda>c. Some (read_back api c)) cs"
proof (induction cs arbitrary: s)
  case Nil
  then show ?case by simp
next
  case (Cons c cs)
  from Cons.prems(1) have "storable api c" by simp
  from parse_build [OF jc api this] obtain j where j: "build_json_from_config api jc c = Inr j"
    "parse_config_from_json api jc (Some j) = Some (read_back api c)" by blast
  let ?s = "s\<lparr>jso_array := json_object_array_add jc (jso_array s) j\<rparr>"
  note add = json_c_laws_array_add [OF jc Cons.prems(2), of j]
  have "\<forall>c \<in> set cs. storable api c" using Cons.prems(1) by simp
  from Cons.IH [OF this, of ?s] add(1) obtain s' js where
    "add_items api jc cs (Some ?s) = Inr (Some s')" "saver_path s' = saver_path s"
    "json_object_get_type jc (Some (jso_array s')) = json_type_array"
    "json_object_array_items jc (jso_array s') = json_object_array_items jc (jso_array ?s) @ map Some js"
    "map (\<lambda>j. parse_config_from_json api jc (Some j)) js = map (\<lambda>c. Some (read_back api c)) cs"
    by auto
  with j add show ?case
    by (intro exI [of _ s'] exI [of _ "j # js"]) (simp add: config_json_saver_add_item_def)
qed

text \<open>
  The whole settings file. Adding storable configurations to a saver and reading the document
  it writes calls the callback once per configuration, in order, with what each reads back as.
\<close>

theorem settings_file_round_trip:
  assumes jc: "json_c_laws jc" and api: "config_laws api" and ok: "\<forall>c \<in> set cs. storable api c"
  shows "\<exists>s. add_items api jc cs (config_json_saver_create jc True (Some path)) = Inr (Some s)
    \<and> saver_path s = path
    \<and> parse_settings_file api jc (Some (jso_array s)) (Some (\<lambda>c p. p @ [c])) []
        = map (\<lambda>c. Some (read_back api c)) cs"
proof -
  let ?s0 = "\<lparr>jso_array = json_object_new_array jc, saver_path = path\<rparr>"
  have collect: "fold (\<lambda>obj p. p @ [parse_config_from_json api jc obj]) xs p
      = p @ map (parse_config_from_json api jc) xs" for xs p
    by (induction xs arbitrary: p) simp_all
  from add_items_array [OF jc api ok, of ?s0] obtain s js where
    "add_items api jc cs (Some ?s0) = Inr (Some s)" "saver_path s = path"
    "json_object_get_type jc (Some (jso_array s)) = json_type_array"
    "json_object_array_items jc (jso_array s) = map Some js"
    "map (\<lambda>j. parse_config_from_json api jc (Some j)) js = map (\<lambda>c. Some (read_back api c)) cs"
    by (auto simp: json_c_lawsD [OF jc])
  then show ?thesis
    by (intro exI [of _ s]) (simp add: config_json_saver_create_def parse_settings_file_def collect comp_def)
qed

lemma settings_file_round_trip_witness:
  "\<exists>s :: demo_json config_json_saver. parse_settings_file demo_config_api demo_json_c (Some (jso_array s)) (Some (\<lambda>c p. p @ [c])) []
     = [Some (read_back demo_config_api demo_config), Some (read_back demo_config_api demo_config)]"
proof -
  have ok: "\<forall>c \<in> set [demo_config, demo_config]. storable demo_config_api c"
    by (simp add: demo_config_storable)
  from settings_file_round_trip [OF demo_json_laws demo_config_laws ok, of "''f''"] show ?thesis
    unfolding list.map by blast
qed

lemma add_members_fault:
  "\<exists>k. (k, Inl Null_Deref) \<in> set ms \<Longrightarrow> \<forall>k e. (k, Inl e) \<in> set ms \<longrightarrow> e = Null_Deref \<Longrightarrow>
     add_members jc j ms = Inl Null_Deref"
proof (induction ms arbitrary: j)
  case (Cons m ms)
  obtain k v where m: "m = (k, v)" by (cases m)
  show ?case
  proof (cases v)
    case (Inl e)
    with Cons.prems(2) m show ?thesis by auto
  next
    case (Inr x)
    with Cons.prems m have "\<exists>k. (k, Inl Null_Deref) \<in> set ms" "\<forall>k e. (k, Inl e) \<in> set ms \<longrightarrow> e = Null_Deref"
      by auto
    from Cons.IH [OF this] show ?thesis by (simp add: m Inr)
  qed
qed simp

lemma new_string_fault [simp]: "new_string jc s = Inl e \<longleftrightarrow> s = None \<and> e = Null_Deref"
  by (cases s) (auto simp: new_string_def)

lemma add_members_only_null:
  "\<forall>k e. (k, Inl e) \<in> set ms \<longrightarrow> e = Null_Deref \<Longrightarrow> add_members jc j ms = Inl e \<Longrightarrow> e = Null_Deref"
proof (induction ms arbitrary: j)
  case (Cons m ms)
  obtain k v where m: "m = (k, v)" by (cases m)
  have rest: "\<forall>k e. (k, Inl e) \<in> set ms \<longrightarrow> e = Null_Deref" using Cons.prems(1) by auto
  show ?case
  proof (cases v)
    case (Inl f)
    with Cons.prems m show ?thesis by auto
  next
    case (Inr x)
    with Cons.IH [OF rest] Cons.prems(2) m show ?thesis by simp
  qed
qed simp

text \<open>
  A file that names the protocol \<open>verify_sha1\<close> is read as a configuration without protocol,
  and writing that configuration passes a null pointer to \<open>json_object_new_string\<close>.
\<close>

theorem verify_sha1_cannot_be_saved:
  assumes jc: "json_c_laws jc" and api: "config_laws api"
  shows "protocol (config_entry api jc (''protocol'', Some (json_object_new_string jc ''verify_sha1'')) c) = None
    \<and> build_json_from_config api jc
        (config_entry api jc (''protocol'', Some (json_object_new_string jc ''verify_sha1'')) c) = Inl Null_Deref"
proof -
  have entry: "config_entry api jc (''protocol'', Some (json_object_new_string jc ''verify_sha1'')) c
      = c\<lparr>protocol := None\<rparr>"
    by (simp add: config_entry_def Let_def extract_simps [OF jc] config_lawsD [OF api])
  have null: "\<forall>k e. (k, Inl e) \<in> set (client_members jc x) \<longrightarrow> e = Null_Deref"
    "\<forall>k e. (k, Inl e) \<in> set (over_tls_members jc x) \<longrightarrow> e = Null_Deref" for x
    by (auto simp: client_members_def over_tls_members_def new_optional_def dest: sym)
  have sub: "add_members jc (json_object_new_object jc) (client_members jc x) = Inl e \<Longrightarrow> e = Null_Deref"
    "add_members jc (json_object_new_object jc) (over_tls_members jc x) = Inl e \<Longrightarrow> e = Null_Deref" for x e
    using add_members_only_null [OF null(1)] add_members_only_null [OF null(2)] by blast+
  have "build_json_from_config api jc (c\<lparr>protocol := None\<rparr>) = Inl Null_Deref"
    unfolding build_json_from_config_def
  proof (rule add_members_fault)
    show "\<exists>k. (k, Inl Null_Deref) \<in> set (config_members api jc (c\<lparr>protocol := None\<rparr>))"
      by (rule exI [of _ "''protocol''"]) (simp add: config_members_def Let_def new_string_def)
    show "\<forall>k e. (k, Inl e) \<in> set (config_members api jc (c\<lparr>protocol := None\<rparr>)) \<longrightarrow> e = Null_Deref"
      by (auto simp: config_members_def Let_def new_optional_def dest: sym sub [OF sym])
  qed
  with entry show ?thesis by simp
qed

lemma verify_sha1_cannot_be_saved_witness:
  "build_json_from_config demo_config_api demo_json_c
     (config_entry demo_config_api demo_json_c (''protocol'', Some (DString ''verify_sha1'')) demo_config)
     = Inl Null_Deref"
  using verify_sha1_cannot_be_saved [OF demo_json_laws demo_config_laws, of demo_config]
  by (simp add: demo_json_c_def)

end
