(* ===== verification/Ssr_Client.thy ===== *)
theory Ssr_Client
  imports Cmd_Runner Text_Util
begin

text \<open>
  Starting and stopping the client (run\_ssr\_client.c) with its two optional libraries
  (overtls.c, socks\_hub.c), the check for occupied ports and the other socket helpers
  (server\_connectivity.c), and the system proxy setting (proxy\_settings.c). The threads are
  followed up to the points where the starting thread waits for them: a library's loop either
  reports a port and goes on, or returns.
\<close>

section \<open>server\_connectivity.c\<close>

text \<open>
  The sockets' answers: whether \<open>socket\<close> gives one, whether \<open>connect\<close> and \<open>bind\<close> succeed, and what the
  resolver finds: an address list for a numeric host, the text of the address for a name.
\<close>

record socket_api =
  socket_ok :: bool
  connect_ok :: bool
  bind_ok :: "string \<Rightarrow> 16 word \<Rightarrow> bool"
  numeric_ok :: "string \<Rightarrow> bool"
  hostbyname :: "string \<Rightarrow> string option"

definition server_connectivity :: "socket_api \<Rightarrow> string option \<Rightarrow> int \<Rightarrow> int" where
  "server_connectivity api host port =
     (case host of
        None \<Rightarrow> - 1
      | Some h \<Rightarrow>
          if port = 0 then - 1
          else if \<not> numeric_ok api h \<and> hostbyname api h = None then - 1
          else if \<not> socket_ok api then - 1
          else if \<not> connect_ok api then - 1
          else 0)"

text \<open>\<open>strncpy\<close> of the text of an address into at least 16 bytes.\<close>

definition convert_host_name_to_ip_string ::
  "socket_api \<Rightarrow> string option \<Rightarrow> nat \<Rightarrow> string option" where
  "convert_host_name_to_ip_string api host len =
     (case host of
        None \<Rightarrow> None
      | Some h \<Rightarrow> if len < 16 then None
                  else map_option (take len) (hostbyname api h))"

definition tcp_port_is_occupied :: "socket_api \<Rightarrow> string \<Rightarrow> int \<Rightarrow> bool" where
  "tcp_port_is_occupied api listen_addr port =
     (if \<not> socket_ok api then True else \<not> bind_ok api listen_addr (word_of_int port))"

section \<open>State\<close>

datatype proxy_setting = Direct | Proxy wstr

text \<open>
  The globals of the three files and, as ghost state, what the process has to give back: loaded
  libraries, handles, running loops and allocated contexts (each with its configuration).
\<close>

record client_state =
  hOverTls :: HANDLE
  hSocksHub :: HANDLE
  error_info :: string
  system_proxy :: proxy_setting
  modules :: "HANDLE multiset"
  owned :: "HANDLE multiset"
  ssr_loop :: bool
  hub_loop :: bool
  contexts :: nat

section \<open>overtls.c and socks\_hub.c: the libraries\<close>

text \<open>\<open>LoadLibraryW\<close> answers with the module, or 0.\<close>

definition overtls_lib_initialize :: "HANDLE \<Rightarrow> client_state \<Rightarrow> bool \<times> client_state" where
  "overtls_lib_initialize dll s =
     (if hOverTls s \<noteq> 0 then (True, s)
      else (dll \<noteq> 0, s\<lparr>hOverTls := dll, modules := modules s + (if dll \<noteq> 0 then {#dll#} else {#})\<rparr>))"

definition overtls_lib_unload :: "client_state \<Rightarrow> client_state" where
  "overtls_lib_unload s =
     (if hOverTls s \<noteq> 0 then s\<lparr>modules := modules s - {#hOverTls s#}, hOverTls := 0\<rparr> else s)"

definition socks_hub_lib_initialize :: "HANDLE \<Rightarrow> client_state \<Rightarrow> bool \<times> client_state" where
  "socks_hub_lib_initialize dll s =
     (if hSocksHub s \<noteq> 0 then (True, s)
      else (dll \<noteq> 0, s\<lparr>hSocksHub := dll, modules := modules s + (if dll \<noteq> 0 then {#dll#} else {#})\<rparr>))"

definition socks_hub_lib_unload :: "client_state \<Rightarrow> client_state" where
  "socks_hub_lib_unload s =
     (if hSocksHub s \<noteq> 0 then s\<lparr>modules := modules s - {#hSocksHub s#}, hSocksHub := 0\<rparr> else s)"

text \<open>The contract of a lazily loaded library.\<close>

locale lazy_library =
  fixes module :: "client_state \<Rightarrow> HANDLE"
    and init :: "HANDLE \<Rightarrow> client_state \<Rightarrow> bool \<times> client_state"
    and unload :: "client_state \<Rightarrow> client_state"
  assumes init_loaded: "module s \<noteq> 0 \<Longrightarrow> init dll s = (True, s)"
    and init_result: "module s = 0 \<Longrightarrow> fst (init dll s) \<longleftrightarrow> dll \<noteq> 0"
    and init_module: "module s = 0 \<Longrightarrow> module (snd (init dll s)) = dll"
    and init_modules: "module s = 0 \<Longrightarrow>
      modules (snd (init dll s)) = modules s + (if dll \<noteq> 0 then {#dll#} else {#})"
    and unload_module: "module (unload s) = 0"
    and unload_modules: "modules (unload s) = modules s - (if module s \<noteq> 0 then {#module s#} else {#})"
begin

lemma init_iff: "fst (init dll s) \<longleftrightarrow> module (snd (init dll s)) \<noteq> 0"
  by (cases "module s = 0") (simp_all add: init_loaded init_result init_module)

lemma init_twice: "dll \<noteq> 0 \<or> module s \<noteq> 0 \<Longrightarrow>
  snd (init dll' (snd (init dll s))) = snd (init dll s)"
  by (cases "module s = 0") (simp_all add: init_loaded init_module)

text \<open>However often it is initialised, one unload gives the module back.\<close>

lemma balanced: "module s = 0 \<Longrightarrow>
  modules (unload (foldl (\<lambda>s d. snd (init d s)) s dlls)) = modules s"
proof (induction dlls rule: rev_induct)
  case Nil
  then show ?case by (simp add: unload_modules)
next
  case (snoc d dlls)
  let ?t = "foldl (\<lambda>s d. snd (init d s)) s dlls"
  from snoc have IH: "modules (unload ?t) = modules s" by simp
  show ?case
  proof (cases "module ?t = 0")
    case True
    with IH have "modules ?t = modules s" by (simp add: unload_modules)
    with True show ?thesis by (simp add: unload_modules init_module init_modules)
  next
    case False
    with IH show ?thesis by (simp add: init_loaded)
  qed
qed

end

interpretation overtls: lazy_library hOverTls overtls_lib_initialize overtls_lib_unload
  by unfold_locales (auto simp: overtls_lib_initialize_def overtls_lib_unload_def)

interpretation hub: lazy_library hSocksHub socks_hub_lib_initialize socks_hub_lib_unload
  by unfold_locales (auto simp: socks_hub_lib_initialize_def socks_hub_lib_unload_def)

section \<open>The loops\<close>

text \<open>
  A library's blocking call: it reports a port through the callback and goes on until it is stopped,
  or it returns its result at once.
\<close>

datatype blocking_call = Reports int | Returns int

text \<open>
  \<open>overtls_run_loop_begin\<close> and \<open>socks_hub_run_loop_begin\<close> up to the point where the port is reported
  or the function returns: the reported port or the returned flag. The answers are which entry
  points the library exports, the configuration as JSON for overtls, and whether the temporary
  file could be written.
\<close>

datatype loop_start = Port int | Returned bool

record overtls_api =
  overtls_module :: HANDLE
  has_set_log_callback :: bool
  overtls_json :: "string option"
  temp_path :: string
  CreateFile_ok :: bool
  WriteFile_ok :: bool
  over_tls_client_run :: "(string \<Rightarrow> blocking_call) option"
  has_over_tls_client_stop :: bool

definition get_temp_json_file_path :: "string \<Rightarrow> string res" where
  "get_temp_json_file_path temp_file_name = copy_into (MAX_PATH * 2) (temp_file_name @ ''.json'')"

definition write_content_to_file :: "overtls_api \<Rightarrow> string option \<Rightarrow> string option \<Rightarrow> bool" where
  "write_content_to_file api content file_path =
     (content \<noteq> None \<and> file_path \<noteq> None \<and> CreateFile_ok api \<and> WriteFile_ok api)"

definition overtls_run_loop_begin :: "overtls_api \<Rightarrow> loop_start res" where
  "overtls_run_loop_begin api =
     bindr (get_temp_json_file_path (temp_path api)) (\<lambda>json_file_name.
       if \<not> has_set_log_callback api then Inr (Returned False)
       else (case overtls_json api of
         None \<Rightarrow> Inr (Returned False)
       | Some content \<Rightarrow>
           if \<not> write_content_to_file api (Some content) (Some json_file_name) then Inr (Returned False)
           else (case over_tls_client_run api of
             None \<Rightarrow> Inr (Returned False)
           | Some run \<Rightarrow>
               (case run json_file_name of
                  Reports port \<Rightarrow> Inr (Port port)
                | Returns res \<Rightarrow> bindr (c_assert (res = 0)) (\<lambda>_. Inr (Returned True))))))"

record hub_api =
  hub_module :: HANDLE
  hub_has_set_log_callback :: bool
  socks_hub_run :: "(string \<Rightarrow> string \<Rightarrow> blocking_call) option"
  has_socks_hub_stop :: bool

definition socks_hub_run_loop_begin :: "hub_api \<Rightarrow> string \<Rightarrow> string \<Rightarrow> loop_start res" where
  "socks_hub_run_loop_begin api local_addr server_addr =
     (if \<not> hub_has_set_log_callback api then Inr (Returned False)
      else (case socks_hub_run api of
        None \<Rightarrow> Inr (Returned False)
      | Some run \<Rightarrow>
          (case run local_addr server_addr of
             Reports port \<Rightarrow> Inr (Port port)
           | Returns res \<Rightarrow> bindr (c_assert (res = 0)) (\<lambda>_. Inr (Returned True)))))"

text \<open>
  \<open>ssr_run_loop_begin\<close> calls \<open>ssr_feedback_state\<close> with its state, whose error code and listening
  port (0 when \<open>getsockname\<close> fails) are given, and goes on while the error code is 0; or it returns
  without having called it.
\<close>

datatype ssr_start = Feedback int "16 word" | No_Feedback

text \<open>
  The options the window hands over (the getters of main.c) and the configuration fields the client
  changes.
\<close>

record client_options =
  opt_ssr_listen_host :: string
  opt_ssr_listen_port :: int
  opt_http_proxy_listen_host :: string
  opt_http_proxy_listen_port :: int
  opt_delay_quit_ms :: int
  opt_change_inet_opts :: int

definition SSR_DELAY_QUIT_MIN :: int where
  "SSR_DELAY_QUIT_MIN = 500"

record client_config =
  cc_listen_host :: string
  cc_listen_port :: "16 word"
  cc_is_overtls :: bool

record ssr_client_ctx =
  hSsrClient :: HANDLE
  bOverTlsDll :: bool
  hHttpProxySvr :: HANDLE
  cc_config :: client_config
  cc_state :: "int option"
  delay_ms :: int
  real_s5_listen_port :: "16 word"
  real_http_proxy_listen_port :: "16 word"
  http_proxy_host :: string
  http_proxy_port :: "16 word"

record client_env =
  sockets :: socket_api
  otls :: overtls_api
  shub :: hub_api
  ssr_start_answer :: ssr_start
  thread_handle :: HANDLE
  hub_thread_handle :: HANDLE
  client_MultiByteToWideChar :: "string \<Rightarrow> wstr"
  client_mallocs :: "nat \<Rightarrow> bool"

text \<open>
  \<open>SsrClientThread\<close> until the event \<open>hEvtS5Port\<close> is signalled: the context's port and state, and
  whether a loop goes on. When the thread ends without a signal the starting thread waits for
  ever.
\<close>

definition uses_overtls :: "ssr_client_ctx \<Rightarrow> bool" where
  "uses_overtls ctx \<longleftrightarrow> bOverTlsDll ctx \<and> cc_is_overtls (cc_config ctx)"

definition s5_port_cb :: "int \<Rightarrow> ssr_client_ctx \<Rightarrow> ssr_client_ctx" where
  "s5_port_cb port ctx = ctx\<lparr>real_s5_listen_port := word_of_int port\<rparr>"

definition ssr_feedback_state :: "int \<Rightarrow> 16 word \<Rightarrow> ssr_client_ctx \<Rightarrow> ssr_client_ctx" where
  "ssr_feedback_state error_code port ctx =
     ctx\<lparr>real_s5_listen_port := port, cc_state := Some error_code\<rparr>"

definition SsrClientThread :: "client_env \<Rightarrow> ssr_client_ctx \<Rightarrow> (ssr_client_ctx \<times> bool) res" where
  "SsrClientThread env ctx =
     (if uses_overtls ctx
      then bindr (overtls_run_loop_begin (otls env)) (\<lambda>r.
        case r of
          Port port \<Rightarrow> Inr (s5_port_cb port ctx, True)
        | Returned ok \<Rightarrow> if \<not> ok then Inr (s5_port_cb 0 ctx, False) else Inl Waits_Forever)
      else (case ssr_start_answer env of
          Feedback error_code port \<Rightarrow> Inr (ssr_feedback_state error_code port ctx, error_code = 0)
        | No_Feedback \<Rightarrow> Inl Waits_Forever))"

definition http_port_cb :: "int \<Rightarrow> ssr_client_ctx \<Rightarrow> ssr_client_ctx" where
  "http_port_cb port ctx = ctx\<lparr>real_http_proxy_listen_port := word_of_int port\<rparr>"

definition HttpProxyThread :: "client_env \<Rightarrow> ssr_client_ctx \<Rightarrow> (ssr_client_ctx \<times> bool) res" where
  "HttpProxyThread env ctx =
     bindr (c_assert (real_s5_listen_port ctx \<noteq> 0)) (\<lambda>_.
       bindr (copy_into MAX_PATH (http_proxy_host ctx @ '':'' @ show_int (uint (http_proxy_port ctx)))) (\<lambda>http.
         bindr (copy_into MAX_PATH (''127.0.0.1:'' @ show_int (uint (real_s5_listen_port ctx)))) (\<lambda>socks5.
           bindr (socks_hub_run_loop_begin (shub env) http socks5) (\<lambda>r.
             case r of
               Port port \<Rightarrow> Inr (http_port_cb port ctx, True)
             | Returned ok \<Rightarrow> if \<not> ok then Inr (http_port_cb 0 ctx, False) else Inl Waits_Forever))))"

section \<open>proxy\_settings.c\<close>

definition enable_system_proxy :: "wstr option \<Rightarrow> int \<Rightarrow> client_state \<Rightarrow> client_state res" where
  "enable_system_proxy proxy_addr port s =
     (case proxy_addr of
        None \<Rightarrow> Inl Null_Deref
      | Some addr \<Rightarrow>
          let alt = (if addr = L ''0.0.0.0'' then L ''127.0.0.1'' else addr)
          in bindr (copy_into MAX_PATH (alt @ L '':'' @ L (show_int port)))
               (\<lambda>full. Inr (s\<lparr>system_proxy := Proxy full\<rparr>)))"

definition disable_system_proxy :: "client_state \<Rightarrow> client_state" where
  "disable_system_proxy s = s\<lparr>system_proxy := Direct\<rparr>"

section \<open>run\_ssr\_client.c\<close>

definition port_occupied :: "client_env \<Rightarrow> int \<Rightarrow> bool" where
  "port_occupied env port \<longleftrightarrow> port \<noteq> 0 \<and>
     (tcp_port_is_occupied (sockets env) ''0.0.0.0'' port \<or> tcp_port_is_occupied (sockets env) ''127.0.0.1'' port)"

definition newline :: char where
  "newline = CHR 0x0A"

definition new_ctx :: "client_options \<Rightarrow> client_config \<Rightarrow> string \<Rightarrow> bool \<Rightarrow> ssr_client_ctx" where
  "new_ctx opts config http_host dll =
     \<lparr>hSsrClient = 0, bOverTlsDll = dll, hHttpProxySvr = 0,
      cc_config = config\<lparr>cc_listen_port := word_of_int (opt_ssr_listen_port opts),
                         cc_listen_host := opt_ssr_listen_host opts\<rparr>,
      cc_state = None,
      delay_ms = (if opt_delay_quit_ms opts < SSR_DELAY_QUIT_MIN then SSR_DELAY_QUIT_MIN
                  else opt_delay_quit_ms opts),
      real_s5_listen_port = 0, real_http_proxy_listen_port = 0, http_proxy_host = http_host,
      http_proxy_port = word_of_int (opt_http_proxy_listen_port opts)\<rparr>"

text \<open>Lines 107-124: the proxy server and the system setting, once the client runs.\<close>

definition start_http_proxy ::
  "client_env \<Rightarrow> client_options \<Rightarrow> ssr_client_ctx \<Rightarrow> client_state
     \<Rightarrow> (ssr_client_ctx option \<times> client_state) res" where
  "start_http_proxy env opts ctx s =
     (case socks_hub_lib_initialize (hub_module (shub env)) s of (ok, s1) \<Rightarrow>
        if \<not> ok
        then Inr (None, s1\<lparr>error_info := ''missing dll file '' @ [CHR 0x22] @ ''socks_hub.dll'' @ [CHR 0x22, newline]\<rparr>)
        else bindr (HttpProxyThread env ctx) (\<lambda>(ctx1, running).
          let ctx2 = ctx1\<lparr>hHttpProxySvr := hub_thread_handle env\<rparr>;
              s2 = s1\<lparr>hub_loop := running, owned := hmset (hub_thread_handle env) + owned s1\<rparr>
          in if opt_change_inet_opts opts \<noteq> 0 \<and> real_http_proxy_listen_port ctx2 \<noteq> 0
             then bindr (enable_system_proxy
                     (utf8_to_wchar_string (client_MultiByteToWideChar env) (Some (client_mallocs env))
                        (Some (http_proxy_host ctx2)))
                     (uint (real_http_proxy_listen_port ctx2)) s2)
                   (\<lambda>s3. Inr (Some ctx2, s3))
             else Inr (Some ctx2, disable_system_proxy s2)))"

definition ssr_client_begin_run ::
  "client_env \<Rightarrow> client_options \<Rightarrow> client_config \<Rightarrow> client_state
     \<Rightarrow> (ssr_client_ctx option \<times> client_state) res" where
  "ssr_client_begin_run env opts config s0 =
     (let s = s0\<lparr>error_info := []\<rparr>
      in if port_occupied env (opt_ssr_listen_port opts)
         then Inr (None, s\<lparr>error_info := ''tcp_port_is_occupied for ssr_listen_port: ''
                @ show_int (opt_ssr_listen_port opts) @ [newline]\<rparr>)
         else if port_occupied env (opt_http_proxy_listen_port opts)
         then Inr (None, s\<lparr>error_info := ''tcp_port_is_occupied for proxy_listen_port: ''
                @ show_int (opt_http_proxy_listen_port opts) @ [newline]\<rparr>)
         else bindr (copy_into MAX_PATH (opt_http_proxy_listen_host opts)) (\<lambda>http_host.
           case overtls_lib_initialize (overtls_module (otls env)) s of (dll, s1) \<Rightarrow>
             bindr (SsrClientThread env (new_ctx opts config http_host dll)) (\<lambda>(ctx, running).
               let ctx1 = ctx\<lparr>hSsrClient := thread_handle env\<rparr>;
                   s2 = s1\<lparr>ssr_loop := running, owned := hmset (thread_handle env) + owned s1,
                           contexts := contexts s1 + 1\<rparr>;
                   error_code = (if uses_overtls ctx1 then 0
                                 else (case cc_state ctx1 of None \<Rightarrow> 0 | Some e \<Rightarrow> e))
               in if error_code = 0 then start_http_proxy env opts ctx1 s2
                  else
                    let s3 = s2\<lparr>owned := owned s2 - hmset (hSsrClient ctx1)\<rparr>;
                        s4 = (if bOverTlsDll ctx1 then overtls_lib_unload s3 else s3)
                    in Inr (None, s4\<lparr>contexts := contexts s4 - 1,
                         error_info := ''SsrClientThread for error: '' @ show_int error_code @ [newline]\<rparr>))))"

text \<open>
  Termination. A stop entry point the library does not export leaves its loop running, and the
  wait for the thread does not end.
\<close>

definition stop_loop :: "bool \<Rightarrow> bool \<Rightarrow> bool res" where
  "stop_loop running exported = (if running \<and> \<not> exported then Inl Waits_Forever else Inr False)"

definition ssr_client_terminate ::
  "client_env \<Rightarrow> ssr_client_ctx option \<Rightarrow> client_state \<Rightarrow> client_state res" where
  "ssr_client_terminate env c s =
     (case c of
        None \<Rightarrow> Inr s
      | Some ctx \<Rightarrow>
          bindr (if uses_overtls ctx
                 then bindr (c_assert (cc_state ctx = None))
                        (\<lambda>_. stop_loop (ssr_loop s) (has_over_tls_client_stop (otls env)))
                 else Inr False) (\<lambda>running.
            let s1 = s\<lparr>ssr_loop := running, owned := owned s - hmset (hSsrClient ctx)\<rparr>;
                s2 = (if bOverTlsDll ctx then overtls_lib_unload s1 else s1)
            in bindr (stop_loop (hub_loop s2) (has_socks_hub_stop (shub env))) (\<lambda>running.
                 let s3 = s2\<lparr>hub_loop := running, owned := owned s2 - hmset (hHttpProxySvr ctx)\<rparr>;
                     s4 = socks_hub_lib_unload s3
                 in Inr (disable_system_proxy (s4\<lparr>contexts := contexts s4 - 1\<rparr>)))))"

section \<open>Lemmas\<close>

definition idle :: "client_state \<Rightarrow> bool" where
  "idle s \<longleftrightarrow> hOverTls s = 0 \<and> hSocksHub s = 0 \<and> \<not> ssr_loop s \<and> \<not> hub_loop s"

lemma enable_system_proxy_frame:
  "enable_system_proxy a p s = Inr s' \<Longrightarrow> \<exists>x. s' = s\<lparr>system_proxy := x\<rparr>"
  by (auto simp: enable_system_proxy_def Let_def bindr_eq_Inr split: option.splits)

text \<open>What a client thread leaves in the context.\<close>

lemma SsrClientThread_overtls:
  assumes "SsrClientThread env ctx = Inr (ctx', running)" and "uses_overtls ctx"
  shows "\<exists>p. ctx' = s5_port_cb p ctx \<and>
    (overtls_run_loop_begin (otls env) = Inr (Port p) \<and> running
     \<or> overtls_run_loop_begin (otls env) = Inr (Returned False) \<and> p = 0 \<and> \<not> running)"
proof -
  from assms obtain r where r: "overtls_run_loop_begin (otls env) = Inr r"
    by (auto simp: SsrClientThread_def bindr_eq_Inr)
  with assms show ?thesis by (cases r) (auto simp: SsrClientThread_def split: if_splits)
qed

lemma SsrClientThread_native:
  assumes "SsrClientThread env ctx = Inr (ctx', running)" and "\<not> uses_overtls ctx"
  shows "\<exists>e p. ssr_start_answer env = Feedback e p \<and> ctx' = ssr_feedback_state e p ctx \<and> running = (e = 0)"
  using assms by (cases "ssr_start_answer env") (auto simp: SsrClientThread_def)

lemma HttpProxyThread_frame:
  assumes "HttpProxyThread env ctx = Inr (ctx', running)"
  shows "real_s5_listen_port ctx \<noteq> 0 \<and> (\<exists>p. ctx' = http_port_cb p ctx)"
proof -
  have nz: "real_s5_listen_port ctx \<noteq> 0"
    using assms by (cases "real_s5_listen_port ctx = 0") (simp_all add: HttpProxyThread_def)
  from assms nz obtain http socks5 r where "socks_hub_run_loop_begin (shub env) http socks5 = Inr r"
    and "(case r of Port port \<Rightarrow> Inr (http_port_cb port ctx, True)
         | Returned ok \<Rightarrow> if \<not> ok then Inr (http_port_cb 0 ctx, False) else Inl Waits_Forever)
       = (Inr (ctx', running) :: _ res)"
    by (auto simp: HttpProxyThread_def bindr_eq_Inr)
  then have "\<exists>p. ctx' = http_port_cb p ctx" by (cases r) (auto split: if_splits)
  with nz show ?thesis by simp
qed

text \<open>What a start that returns a context has done.\<close>

lemma start_http_proxy_Some:
  assumes "start_http_proxy env opts ctx s = Inr (Some ctx', s')"
  obtains ctx1 running x where
    "hSocksHub s \<noteq> 0 \<or> hub_module (shub env) \<noteq> 0" "HttpProxyThread env ctx = Inr (ctx1, running)"
    "ctx' = ctx1\<lparr>hHttpProxySvr := hub_thread_handle env\<rparr>"
    "s' = (snd (socks_hub_lib_initialize (hub_module (shub env)) s))
        \<lparr>hub_loop := running, owned := hmset (hub_thread_handle env) + owned s, system_proxy := x\<rparr>"
    "opt_change_inet_opts opts \<noteq> 0 \<Longrightarrow> real_http_proxy_listen_port ctx' \<noteq> 0 \<Longrightarrow>
      enable_system_proxy (utf8_to_wchar_string (client_MultiByteToWideChar env) (Some (client_mallocs env))
        (Some (http_proxy_host ctx'))) (uint (real_http_proxy_listen_port ctx'))
        (s'\<lparr>system_proxy := system_proxy s\<rparr>) = Inr s'"
    "opt_change_inet_opts opts = 0 \<or> real_http_proxy_listen_port ctx' = 0 \<Longrightarrow> x = Direct"
proof -
  obtain ok s1 where init: "socks_hub_lib_initialize (hub_module (shub env)) s = (ok, s1)"
    by (cases "socks_hub_lib_initialize (hub_module (shub env)) s")
  have s1: "owned s1 = owned s" "system_proxy s1 = system_proxy s"
    using init by (auto simp: socks_hub_lib_initialize_def split: if_splits)
  from assms init have ok: ok by (auto simp: start_http_proxy_def split: if_splits)
  with init have present: "hSocksHub s \<noteq> 0 \<or> hub_module (shub env) \<noteq> 0"
    by (auto simp: socks_hub_lib_initialize_def split: if_splits)
  from assms init ok obtain ctx1 running where http: "HttpProxyThread env ctx = Inr (ctx1, running)"
    and rest: "(let ctx2 = ctx1\<lparr>hHttpProxySvr := hub_thread_handle env\<rparr>;
              s2 = s1\<lparr>hub_loop := running, owned := hmset (hub_thread_handle env) + owned s1\<rparr>
          in if opt_change_inet_opts opts \<noteq> 0 \<and> real_http_proxy_listen_port ctx2 \<noteq> 0
             then bindr (enable_system_proxy
                     (utf8_to_wchar_string (client_MultiByteToWideChar env) (Some (client_mallocs env))
                        (Some (http_proxy_host ctx2)))
                     (uint (real_http_proxy_listen_port ctx2)) s2)
                   (\<lambda>s3. Inr (Some ctx2, s3))
             else Inr (Some ctx2, disable_system_proxy s2)) = Inr (Some ctx', s')"
    by (auto simp: start_http_proxy_def bindr_eq_Inr)
  from rest have ctx': "ctx' = ctx1\<lparr>hHttpProxySvr := hub_thread_handle env\<rparr>"
    by (auto simp: Let_def bindr_eq_Inr split: if_splits)
  show ?thesis
  proof (cases "opt_change_inet_opts opts \<noteq> 0 \<and> real_http_proxy_listen_port ctx' \<noteq> 0")
    case True
    let ?s2 = "s1\<lparr>hub_loop := running, owned := hmset (hub_thread_handle env) + owned s1\<rparr>"
    from True rest ctx' have en: "enable_system_proxy
        (utf8_to_wchar_string (client_MultiByteToWideChar env) (Some (client_mallocs env))
          (Some (http_proxy_host ctx'))) (uint (real_http_proxy_listen_port ctx')) ?s2 = Inr s'"
      by (auto simp: Let_def bindr_eq_Inr)
    then obtain x where s': "s' = ?s2\<lparr>system_proxy := x\<rparr>" using enable_system_proxy_frame by blast
    have "s'\<lparr>system_proxy := system_proxy s\<rparr> = ?s2" by (simp add: s' flip: s1(2))
    with en True s' ctx' http present init s1(1) show ?thesis
      by (intro that [of ctx1 running x]) auto
  next
    case False
    with rest ctx' have "s' = disable_system_proxy
        (s1\<lparr>hub_loop := running, owned := hmset (hub_thread_handle env) + owned s1\<rparr>)"
      by (auto simp: Let_def)
    with False ctx' http present init s1(1) show ?thesis
      by (intro that [of ctx1 running Direct]) (auto simp: disable_system_proxy_def)
  qed
qed

definition started :: "client_env \<Rightarrow> client_state \<Rightarrow> bool \<Rightarrow> client_state" where
  "started env s running =
     s\<lparr>ssr_loop := running, owned := hmset (thread_handle env) + owned s, contexts := contexts s + 1\<rparr>"

lemma begin_run_cases:
  assumes "ssr_client_begin_run env opts config s0 = Inr (r, s)"
  obtains (occupied) "r = None" "s = s0\<lparr>error_info := error_info s\<rparr>"
      "port_occupied env (opt_ssr_listen_port opts) \<or> port_occupied env (opt_http_proxy_listen_port opts)"
  | (running) dll s1 ctx run where
      "overtls_lib_initialize (overtls_module (otls env)) (s0\<lparr>error_info := []\<rparr>) = (dll, s1)"
      "SsrClientThread env (new_ctx opts config (opt_http_proxy_listen_host opts) dll) = Inr (ctx, run)"
      "uses_overtls ctx \<or> cc_state ctx = None \<or> cc_state ctx = Some 0"
      "start_http_proxy env opts (ctx\<lparr>hSsrClient := thread_handle env\<rparr>) (started env s1 run) = Inr (r, s)"
  | (failed) dll s1 ctx run e where
      "overtls_lib_initialize (overtls_module (otls env)) (s0\<lparr>error_info := []\<rparr>) = (dll, s1)"
      "SsrClientThread env (new_ctx opts config (opt_http_proxy_listen_host opts) dll) = Inr (ctx, run)"
      "\<not> uses_overtls ctx" "cc_state ctx = Some e" "e \<noteq> 0" "r = None"
      "\<exists>info. s = (if bOverTlsDll ctx then overtls_lib_unload (s1\<lparr>ssr_loop := run\<rparr>) else s1\<lparr>ssr_loop := run\<rparr>)
         \<lparr>error_info := info\<rparr>"
proof (cases "port_occupied env (opt_ssr_listen_port opts) \<or> port_occupied env (opt_http_proxy_listen_port opts)")
  case True
  with assms show ?thesis
    by (intro occupied) (auto simp: ssr_client_begin_run_def Let_def split: if_splits)
next
  case False
  obtain dll s1 where init: "overtls_lib_initialize (overtls_module (otls env)) (s0\<lparr>error_info := []\<rparr>) = (dll, s1)"
    by (cases "overtls_lib_initialize (overtls_module (otls env)) (s0\<lparr>error_info := []\<rparr>)")
  with False assms obtain ctx run where
    thread: "SsrClientThread env (new_ctx opts config (opt_http_proxy_listen_host opts) dll) = Inr (ctx, run)"
    by (auto simp: ssr_client_begin_run_def Let_def bindr_eq_Inr)
  let ?e = "if uses_overtls ctx then 0 else (case cc_state ctx of None \<Rightarrow> 0 | Some e \<Rightarrow> e)"
  have host: "length (opt_http_proxy_listen_host opts) < MAX_PATH"
    using False assms by (auto simp: ssr_client_begin_run_def Let_def bindr_eq_Inr)
  have uses: "uses_overtls (ctx\<lparr>hSsrClient := h\<rparr>) = uses_overtls ctx" for h
    by (simp add: uses_overtls_def)
  consider "uses_overtls ctx \<or> cc_state ctx = None \<or> cc_state ctx = Some 0"
    | e where "\<not> uses_overtls ctx" "cc_state ctx = Some e" "e \<noteq> 0"
    by (cases "cc_state ctx") auto
  then show ?thesis
  proof cases
    case 1
    then have "?e = 0" by auto
    with False assms init thread host
    have "start_http_proxy env opts (ctx\<lparr>hSsrClient := thread_handle env\<rparr>) (started env s1 run) = Inr (r, s)"
      by (auto simp: ssr_client_begin_run_def Let_def uses started_def split: if_splits)
    with 1 show ?thesis using running [OF init thread] by blast
  next
    case (2 e)
    with False assms init thread host have "r = None"
      "\<exists>info. s = (if bOverTlsDll ctx then overtls_lib_unload (s1\<lparr>ssr_loop := run\<rparr>) else s1\<lparr>ssr_loop := run\<rparr>)
         \<lparr>error_info := info\<rparr>"
      by (auto simp: ssr_client_begin_run_def Let_def uses overtls_lib_unload_def)
    with failed [OF init thread 2] show ?thesis by blast
  qed
qed

lemma begin_then_terminate:
  assumes idle: "idle s0"
    and stops: "has_over_tls_client_stop (otls env)" "has_socks_hub_stop (shub env)"
    and beg: "ssr_client_begin_run env opts config s0 = Inr (Some ctx, s)"
  shows "\<exists>s'. ssr_client_terminate env (Some ctx) s = Inr s' \<and> idle s'
    \<and> modules s' = modules s0 \<and> owned s' = owned s0 \<and> contexts s' = contexts s0 \<and> system_proxy s' = Direct"
  using beg
proof (cases rule: begin_run_cases)
  case occupied
  then show ?thesis by simp
next
  case (failed dll s1 c run e)
  then show ?thesis by simp
next
  case (running dll s1 c run)
  let ?new = "new_ctx opts config (opt_http_proxy_listen_host opts) dll"
  from start_http_proxy_Some [OF running(4)] obtain c1 hub x where
    http: "HttpProxyThread env (c\<lparr>hSsrClient := thread_handle env\<rparr>) = Inr (c1, hub)"
    and ctx: "ctx = c1\<lparr>hHttpProxySvr := hub_thread_handle env\<rparr>"
    and s: "s = (snd (socks_hub_lib_initialize (hub_module (shub env)) (started env s1 run)))
        \<lparr>hub_loop := hub, owned := hmset (hub_thread_handle env) + owned (started env s1 run), system_proxy := x\<rparr>"
    by metis
  from HttpProxyThread_frame [OF http] obtain p where
    c1: "c1 = http_port_cb p (c\<lparr>hSsrClient := thread_handle env\<rparr>)" by blast
  have ctx_fields: "hSsrClient ctx = thread_handle env" "hHttpProxySvr ctx = hub_thread_handle env"
    "bOverTlsDll ctx = bOverTlsDll c" "cc_state ctx = cc_state c" "cc_config ctx = cc_config c"
    by (simp_all add: ctx c1 http_port_cb_def)
  have dll: "bOverTlsDll c = dll" "uses_overtls c = uses_overtls ?new" "uses_overtls ?new \<Longrightarrow> cc_state c = None"
  proof -
    have "\<exists>q. c = s5_port_cb q ?new" if "uses_overtls ?new"
      using SsrClientThread_overtls [OF running(2) that] by blast
    moreover have "\<exists>e q. c = ssr_feedback_state e q ?new" if "\<not> uses_overtls ?new"
      using SsrClientThread_native [OF running(2) that] by blast
    ultimately show "bOverTlsDll c = dll" "uses_overtls c = uses_overtls ?new"
      "uses_overtls ?new \<Longrightarrow> cc_state c = None"
      by (cases "uses_overtls ?new";
          auto simp: s5_port_cb_def ssr_feedback_state_def uses_overtls_def new_ctx_def)+
  qed
  have s1: "s1 = s0\<lparr>error_info := [], hOverTls := overtls_module (otls env),
      modules := modules s0 + (if overtls_module (otls env) \<noteq> 0 then {#overtls_module (otls env)#} else {#})\<rparr>"
    "dll \<longleftrightarrow> overtls_module (otls env) \<noteq> 0"
    using running(1) idle by (auto simp: overtls_lib_initialize_def idle_def)
  have uses_ctx: "uses_overtls ctx = uses_overtls c" by (simp add: uses_overtls_def ctx_fields)
  show ?thesis
    using idle stops dll
    by (auto simp: ssr_client_terminate_def uses_ctx ctx_fields stop_loop_def Let_def s s1 started_def
        socks_hub_lib_initialize_def socks_hub_lib_unload_def overtls_lib_unload_def idle_def
        disable_system_proxy_def)
qed

section \<open>Properties\<close>

text \<open>
  C7: Start and stop are balanced. When the client was idle, a start that returned a context
  followed by its termination (with libraries that export their stop functions) stops both loops
  and gives back every library, thread handle and context, and the system uses no proxy.
\<close>

theorem begin_terminate_balanced:
  assumes idle: "idle s0"
    and stops: "has_over_tls_client_stop (otls env)" "has_socks_hub_stop (shub env)"
    and beg: "ssr_client_begin_run env opts config s0 = Inr (Some ctx, s)"
  shows "\<exists>s'. ssr_client_terminate env (Some ctx) s = Inr s' \<and> idle s'
    \<and> modules s' = modules s0 \<and> owned s' = owned s0 \<and> contexts s' = contexts s0 \<and> system_proxy s' = Direct"
  by (rule begin_then_terminate [OF assms])

definition demo_client_env :: client_env where
  "demo_client_env =
     \<lparr>sockets = \<lparr>socket_ok = True, connect_ok = True, bind_ok = (\<lambda>a p. True), numeric_ok = (\<lambda>h. True),
        hostbyname = (\<lambda>h. None)\<rparr>,
      otls = \<lparr>overtls_module = 40, has_set_log_callback = True, overtls_json = Some ''{}'', temp_path = ''t'',
        CreateFile_ok = True, WriteFile_ok = True, over_tls_client_run = None, has_over_tls_client_stop = True\<rparr>,
      shub = \<lparr>hub_module = 44, hub_has_set_log_callback = True, socks_hub_run = Some (\<lambda>a b. Reports 8118),
        has_socks_hub_stop = True\<rparr>,
      ssr_start_answer = Feedback 0 1080, thread_handle = 48, hub_thread_handle = 52,
      client_MultiByteToWideChar = L, client_mallocs = (\<lambda>n. True)\<rparr>"

definition demo_options :: client_options where
  "demo_options = \<lparr>opt_ssr_listen_host = ''127.0.0.1'', opt_ssr_listen_port = 0,
     opt_http_proxy_listen_host = ''0.0.0.0'', opt_http_proxy_listen_port = 8118, opt_delay_quit_ms = 100,
     opt_change_inet_opts = 1\<rparr>"

definition demo_client_config :: client_config where
  "demo_client_config = \<lparr>cc_listen_host = [], cc_listen_port = 1, cc_is_overtls = False\<rparr>"

definition demo_client :: client_state where
  "demo_client = \<lparr>hOverTls = 0, hSocksHub = 0, error_info = [], system_proxy = Direct, modules = {#},
     owned = {#}, ssr_loop = False, hub_loop = False, contexts = 0\<rparr>"

lemmas demo_client_defs = demo_client_env_def demo_options_def demo_client_config_def demo_client_def

lemma demo_ports_free: "\<not> port_occupied demo_client_env p"
  by (simp add: port_occupied_def tcp_port_is_occupied_def demo_client_env_def)

lemma demo_client_begin:
  "\<exists>ctx s. ssr_client_begin_run demo_client_env demo_options demo_client_config demo_client = Inr (Some ctx, s)"
  using length_show_int [of 8118] length_show_int [of 1080]
  by (simp add: ssr_client_begin_run_def port_occupied_def tcp_port_is_occupied_def demo_options_def Let_def
      overtls_lib_initialize_def
      demo_client_def SsrClientThread_def new_ctx_def uses_overtls_def ssr_feedback_state_def
      start_http_proxy_def socks_hub_lib_initialize_def HttpProxyThread_def socks_hub_run_loop_begin_def
      http_port_cb_def enable_system_proxy_def utf8_to_wchar_string_def demo_client_env_def
      demo_client_config_def)

lemma demo_client_idle: "idle demo_client"
  by (simp add: idle_def demo_client_def)

lemma demo_stops: "has_over_tls_client_stop (otls demo_client_env)" "has_socks_hub_stop (shub demo_client_env)"
  by (simp_all add: demo_client_env_def)

lemma begin_terminate_balanced_witness:
  "\<exists>ctx s s'. ssr_client_begin_run demo_client_env demo_options demo_client_config demo_client = Inr (Some ctx, s)
     \<and> ssr_client_terminate demo_client_env (Some ctx) s = Inr s' \<and> idle s' \<and> contexts s' = 0"
proof -
  obtain ctx s where beg:
    "ssr_client_begin_run demo_client_env demo_options demo_client_config demo_client = Inr (Some ctx, s)"
    using demo_client_begin by blast
  from begin_terminate_balanced [OF demo_client_idle demo_stops beg] beg show ?thesis
    by (auto simp: demo_client_def)
qed

text \<open>
  C19: A start that fails gives everything back, as long as \<open>socks_hub.dll\<close> can be loaded: occupied
  ports and an error of the client's loop leave the libraries, handles, loops and contexts as they
  were.
\<close>

theorem begin_failure_returns_all:
  assumes idle: "idle s0" and hub: "hub_module (shub env) \<noteq> 0"
    and beg: "ssr_client_begin_run env opts config s0 = Inr (None, s)"
  shows "idle s \<and> modules s = modules s0 \<and> owned s = owned s0 \<and> contexts s = contexts s0"
  using beg
proof (cases rule: begin_run_cases)
  case occupied
  show ?thesis using idle by (subst (1 2 3 4) occupied(2)) (simp add: idle_def)
next
  case (running dll s1 c run)
  from hub have "fst (socks_hub_lib_initialize (hub_module (shub env)) t)" for t
    by (simp add: socks_hub_lib_initialize_def)
  with running(4) show ?thesis
    by (auto simp: start_http_proxy_def bindr_eq_Inr Let_def split: prod.splits if_splits)
      (metis fst_conv)+
next
  case (failed dll s1 c run e)
  let ?new = "new_ctx opts config (opt_http_proxy_listen_host opts) dll"
  have "\<not> uses_overtls ?new"
  proof
    assume "uses_overtls ?new"
    from SsrClientThread_overtls [OF failed(2) this] failed(3) \<open>uses_overtls ?new\<close> show False
      by (auto simp: s5_port_cb_def uses_overtls_def)
  qed
  from SsrClientThread_native [OF failed(2) this] failed(4,5)
  have c: "\<not> run" "bOverTlsDll c = dll"
    by (auto simp: ssr_feedback_state_def new_ctx_def)
  show ?thesis
    using failed(1,7) idle c
    by (auto simp: overtls_lib_initialize_def overtls_lib_unload_def idle_def split: if_splits)
qed

lemma begin_failure_returns_all_witness:
  "\<exists>s. ssr_client_begin_run (demo_client_env\<lparr>ssr_start_answer := Feedback 5 0\<rparr>) demo_options demo_client_config
     demo_client = Inr (None, s) \<and> idle s \<and> contexts s = 0"
proof -
  let ?env = "demo_client_env\<lparr>ssr_start_answer := Feedback 5 0\<rparr>"
  have "\<exists>s. ssr_client_begin_run ?env demo_options demo_client_config demo_client = Inr (None, s)"
    by (simp add: ssr_client_begin_run_def port_occupied_def tcp_port_is_occupied_def demo_client_defs Let_def
        overtls_lib_initialize_def SsrClientThread_def new_ctx_def uses_overtls_def ssr_feedback_state_def)
  then obtain s where beg: "ssr_client_begin_run ?env demo_options demo_client_config demo_client = Inr (None, s)" ..
  have "hub_module (shub ?env) \<noteq> 0" by (simp add: demo_client_env_def)
  from begin_failure_returns_all [OF demo_client_idle this beg] beg show ?thesis by (auto simp: demo_client_def)
qed

text \<open>
  Without \<open>socks_hub.dll\<close> a start reports failure although the client's loop is running, and its
  thread handle and context are lost: no later termination can stop it.
\<close>

theorem missing_socks_hub_leaks:
  assumes idle: "idle s0" and hub: "hub_module (shub env) = 0"
    and free: "\<not> port_occupied env (opt_ssr_listen_port opts)" "\<not> port_occupied env (opt_http_proxy_listen_port opts)"
    and host: "length (opt_http_proxy_listen_host opts) < MAX_PATH"
    and client: "\<not> cc_is_overtls config" "ssr_start_answer env = Feedback 0 port"
  shows "\<exists>s. ssr_client_begin_run env opts config s0 = Inr (None, s) \<and> ssr_loop s
    \<and> owned s = hmset (thread_handle env) + owned s0 \<and> contexts s = contexts s0 + 1
    \<and> (\<forall>env'. ssr_client_terminate env' None s = Inr s)"
  using assms
  by (simp add: ssr_client_begin_run_def Let_def overtls_lib_initialize_def idle_def SsrClientThread_def
      new_ctx_def uses_overtls_def ssr_feedback_state_def start_http_proxy_def socks_hub_lib_initialize_def
      ssr_client_terminate_def)

lemma missing_socks_hub_leaks_witness:
  "\<exists>s. ssr_client_begin_run (demo_client_env\<lparr>shub := (shub demo_client_env)\<lparr>hub_module := 0\<rparr>\<rparr>) demo_options
     demo_client_config demo_client = Inr (None, s) \<and> ssr_loop s \<and> contexts s = 1"
  using missing_socks_hub_leaks [OF demo_client_idle,
      of "demo_client_env\<lparr>shub := (shub demo_client_env)\<lparr>hub_module := 0\<rparr>\<rparr>" demo_options demo_client_config 1080]
  by (auto simp: port_occupied_def tcp_port_is_occupied_def demo_client_defs)

text \<open>
  When the overtls library cannot start its loop, the start does not report an error: the port
  0 its thread announces makes the proxy's thread fail its assertion.
\<close>

theorem overtls_failure_aborts:
  assumes lib: "hOverTls s0 \<noteq> 0 \<or> overtls_module (otls env) \<noteq> 0" and hub: "hSocksHub s0 \<noteq> 0 \<or> hub_module (shub env) \<noteq> 0"
    and free: "\<not> port_occupied env (opt_ssr_listen_port opts)" "\<not> port_occupied env (opt_http_proxy_listen_port opts)"
    and host: "length (opt_http_proxy_listen_host opts) < MAX_PATH"
    and client: "cc_is_overtls config" "overtls_run_loop_begin (otls env) = Inr (Returned False)"
  shows "ssr_client_begin_run env opts config s0 = Inl Assert_Failed"
proof -
  have init: "fst (overtls_lib_initialize (overtls_module (otls env)) t)" if "hOverTls t = hOverTls s0" for t
    using lib that by (auto simp: overtls_lib_initialize_def)
  have "hSocksHub (snd (overtls_lib_initialize d t)) = hSocksHub t" for d t
    by (simp add: overtls_lib_initialize_def)
  with hub have hub_init: "fst (socks_hub_lib_initialize (hub_module (shub env)) t)"
    if "hSocksHub t = hSocksHub s0" for t
    using that by (auto simp: socks_hub_lib_initialize_def)
  obtain s1 where s1: "overtls_lib_initialize (overtls_module (otls env)) (s0\<lparr>error_info := []\<rparr>) = (True, s1)"
    using init [of "s0\<lparr>error_info := []\<rparr>"]
    by (cases "overtls_lib_initialize (overtls_module (otls env)) (s0\<lparr>error_info := []\<rparr>)") simp
  then have hs: "hSocksHub s1 = hSocksHub s0"
    by (auto simp: overtls_lib_initialize_def split: if_splits)
  obtain s2 where s2: "socks_hub_lib_initialize (hub_module (shub env))
      (s1\<lparr>ssr_loop := False, owned := hmset (thread_handle env) + owned s1, contexts := Suc (contexts s1)\<rparr>) = (True, s2)"
    using hub_init [of "s1\<lparr>ssr_loop := False, owned := hmset (thread_handle env) + owned s1, contexts := Suc (contexts s1)\<rparr>"] hs
    by (cases "socks_hub_lib_initialize (hub_module (shub env))
      (s1\<lparr>ssr_loop := False, owned := hmset (thread_handle env) + owned s1, contexts := Suc (contexts s1)\<rparr>)") simp
  show ?thesis
    using free host client
    by (simp add: ssr_client_begin_run_def Let_def s1 SsrClientThread_def new_ctx_def uses_overtls_def
        s5_port_cb_def start_http_proxy_def s2 HttpProxyThread_def)
qed

lemma overtls_failure_aborts_witness:
  "ssr_client_begin_run demo_client_env demo_options (demo_client_config\<lparr>cc_is_overtls := True\<rparr>) demo_client
     = Inl Assert_Failed"
  by (rule overtls_failure_aborts)
    (simp_all add: demo_ports_free, simp_all add: demo_client_defs overtls_run_loop_begin_def
      get_temp_json_file_path_def write_content_to_file_def)

lemma enable_system_proxy_value:
  "enable_system_proxy (Some a) p s = Inr s' \<Longrightarrow>
     system_proxy s' = Proxy ((if a = L ''0.0.0.0'' then L ''127.0.0.1'' else a) @ L '':'' @ L (show_int p))"
  by (auto simp: enable_system_proxy_def Let_def bindr_eq_Inr)



end
