(* ===== verification/Server_List.thy ===== *)
theory Server_List
  imports Settings Ssr_Client
begin

text \<open>
  The list of servers in the main window (main.c): its rows with their check boxes, the server the
  window regards as selected, and the menus that list the servers. The list view control is the
  sequence of its rows; what it does by itself (asking the window before a check changes, applying
  a change of item -1 to all rows) is \<open>set_check_state\<close>.
\<close>

section \<open>State\<close>

text \<open>
  A row's parameter is the configuration it shows; \<open>json_config_iter\<close> may insert a null pointer.
  \<open>struct main_wnd_data\<close> is extended by \<open>globals\<close>, the state of the client's files, and \<open>log_box\<close>, the
  text of the log window. Host names are buffers of 260 bytes.
\<close>

record row =
  row_config :: "server_config option"
  row_checked :: bool

record main_wnd_data =
  hListView :: "row list"
  cur_selected :: int
  client_ctx :: "ssr_client_ctx option"
  auto_run :: int
  auto_connect :: int
  ssr_listen_host :: string
  ssr_listen_port :: int
  http_proxy_listen_host :: string
  http_proxy_listen_port :: int
  delay_quit_ms :: int
  change_inet_opts :: int
  globals :: client_state
  log_box :: "((int \<times> int \<times> int) \<times> string) list"

definition ListView_GetItemCount :: "main_wnd_data \<Rightarrow> int" where
  "ListView_GetItemCount d = int (length (hListView d))"

text \<open>\<open>has_row d i\<close>: the index \<open>i\<close> denotes a row.\<close>

definition has_row :: "main_wnd_data \<Rightarrow> int \<Rightarrow> bool" where
  "has_row d i \<longleftrightarrow> 0 \<le> i \<and> i < ListView_GetItemCount d"

definition retrieve_config_from_list_view :: "main_wnd_data \<Rightarrow> int \<Rightarrow> server_config option" where
  "retrieve_config_from_list_view d index =
     (if has_row d index then row_config (hListView d ! nat index) else None)"

text \<open>\<open>ok\<close> is whether \<open>ListView_InsertItem\<close> succeeds; an index past the end appends.\<close>

definition InsertListViewItem :: "bool \<Rightarrow> nat \<Rightarrow> server_config option \<Rightarrow> main_wnd_data \<Rightarrow> bool \<times> main_wnd_data" where
  "InsertListViewItem ok index config d =
     (if \<not> ok then (False, d)
      else (True, d\<lparr>hListView := take index (hListView d) @ \<lparr>row_config = config, row_checked = False\<rparr>
                                  # drop index (hListView d)\<rparr>))"

definition json_config_iter ::
  "(nat \<Rightarrow> bool) \<Rightarrow> server_config option \<Rightarrow> main_wnd_data \<times> nat \<Rightarrow> main_wnd_data \<times> nat" where
  "json_config_iter ok config p =
     (case p of (d, index) \<Rightarrow> (snd (InsertListViewItem (ok index) index config d), Suc index))"

section \<open>Check boxes\<close>

text \<open>
  \<open>ListView_SetCheckState\<close>: for each row it names whose check differs, the window is asked
  (\<open>LVN_ITEMCHANGING\<close>), and the check changes when the answer is 0.
\<close>

definition set_row_check :: "nat \<Rightarrow> bool \<Rightarrow> main_wnd_data \<Rightarrow> main_wnd_data" where
  "set_row_check i b d = d\<lparr>hListView := (hListView d)[i := (hListView d ! i)\<lparr>row_checked := b\<rparr>]\<rparr>"

definition change_row ::
  "(int \<Rightarrow> main_wnd_data \<Rightarrow> int \<times> main_wnd_data) \<Rightarrow> bool \<Rightarrow> nat \<Rightarrow> main_wnd_data \<Rightarrow> main_wnd_data" where
  "change_row ask b i d =
     (if row_checked (hListView d ! i) = b then d
      else (case ask (int i) d of (lResult, d') \<Rightarrow> if lResult = 0 then set_row_check i b d' else d'))"

definition set_check_state ::
  "(int \<Rightarrow> main_wnd_data \<Rightarrow> int \<times> main_wnd_data) \<Rightarrow> int \<Rightarrow> bool \<Rightarrow> main_wnd_data \<Rightarrow> main_wnd_data" where
  "set_check_state ask i b d =
     (if i = - 1 then fold (change_row ask b) [0..<length (hListView d)] d
      else if has_row d i then change_row ask b (nat i) d
      else d)"

text \<open>
  The window's answers. Unchecking is refused for the selected row. Checking the selected row is
  refused when some row is already checked; checking another row selects it and then unchecks the
  row selected before, which asks the window in turn.
\<close>

definition item_unchecking :: "int \<Rightarrow> main_wnd_data \<Rightarrow> int \<times> main_wnd_data" where
  "item_unchecking iItem d = (if iItem = cur_selected d then 1 else 0, d)"

fun find_checked :: "int \<Rightarrow> row list \<Rightarrow> int" where
  "find_checked index [] = - 1"
| "find_checked index (r # rs) = (if row_checked r then index else find_checked (index + 1) rs)"

definition item_checking :: "int \<Rightarrow> main_wnd_data \<Rightarrow> int \<times> main_wnd_data" where
  "item_checking iItem d =
     (if iItem = cur_selected d
      then (if 0 \<le> find_checked 0 (hListView d) then 1 else 0, d)
      else let tmp = cur_selected d;
               d1 = (if cur_selected d = iItem then d else d\<lparr>cur_selected := iItem\<rparr>)
           in (0, set_check_state item_unchecking tmp False d1))"

datatype item_change = LVIS_CHECKED | LVIS_UNCHECKED | LVIS_OTHER

definition on_list_view_notification_item_changing ::
  "int \<Rightarrow> item_change \<Rightarrow> main_wnd_data \<Rightarrow> bool \<times> int \<times> main_wnd_data" where
  "on_list_view_notification_item_changing iItem uNewState d =
     (case uNewState of
        LVIS_CHECKED \<Rightarrow> (True, item_checking iItem d)
      | LVIS_UNCHECKED \<Rightarrow> (True, item_unchecking iItem d)
      | LVIS_OTHER \<Rightarrow> (False, 0, d))"

text \<open>\<open>ListView_SetCheckState\<close> on the window's own list view.\<close>

definition ListView_SetCheckState :: "int \<Rightarrow> bool \<Rightarrow> main_wnd_data \<Rightarrow> main_wnd_data" where
  "ListView_SetCheckState i b =
     set_check_state (\<lambda>j d. snd (on_list_view_notification_item_changing j
       (if b then LVIS_CHECKED else LVIS_UNCHECKED) d)) i b"

definition set_current_selected_item :: "int \<Rightarrow> bool \<Rightarrow> main_wnd_data \<Rightarrow> main_wnd_data" where
  "set_current_selected_item index refresh_gui d =
     (if cur_selected d = index then d
      else if refresh_gui then ListView_SetCheckState index True d
      else d\<lparr>cur_selected := index\<rparr>)"

definition adjust_current_selected_item :: "int \<Rightarrow> int \<Rightarrow> int" where
  "adjust_current_selected_item cur_sel total_count =
     (if total_count > 0 then (if 0 \<le> cur_sel \<and> cur_sel < total_count then cur_sel else 0) else - 1)"

text \<open>
  \<open>nIndex\<close> is the selected (focused) row, -1 when there is none; \<open>confirmed\<close> the answer to the
  message box. Deleting a row releases its configuration.
\<close>

definition on_delete_item :: "int \<Rightarrow> bool \<Rightarrow> main_wnd_data \<Rightarrow> bool \<times> main_wnd_data" where
  "on_delete_item nIndex confirmed d =
     (if nIndex < 0 then (False, d)
      else (True, if confirmed \<and> has_row d nIndex
                  then d\<lparr>hListView := take (nat nIndex) (hListView d) @ drop (Suc (nat nIndex)) (hListView d)\<rparr>
                  else d))"

section \<open>The selected row is the checked row\<close>

definition checked_rows :: "main_wnd_data \<Rightarrow> nat set" where
  "checked_rows d = {i. i < length (hListView d) \<and> row_checked (hListView d ! i)}"

definition selection_ok :: "main_wnd_data \<Rightarrow> bool" where
  "selection_ok d \<longleftrightarrow>
     cur_selected d = - 1 \<and> checked_rows d = {} \<or> has_row d (cur_selected d) \<and> checked_rows d = {nat (cur_selected d)}"

lemma set_row_check_fields [simp]:
  "cur_selected (set_row_check i b d) = cur_selected d"
  "client_ctx (set_row_check i b d) = client_ctx d"
  "globals (set_row_check i b d) = globals d"
  "length (hListView (set_row_check i b d)) = length (hListView d)"
  by (simp_all add: set_row_check_def)

lemma checked_set_row_check:
  "i < length (hListView d) \<Longrightarrow>
     checked_rows (set_row_check i b d) = (if b then insert i (checked_rows d) else checked_rows d - {i})"
  by (auto simp: checked_rows_def set_row_check_def nth_list_update)

lemma checked_rows_cur [simp]: "checked_rows (d\<lparr>cur_selected := c\<rparr>) = checked_rows d"
  by (simp add: checked_rows_def)

lemma has_row_less: "has_row d i \<Longrightarrow> nat i < length (hListView d)"
  by (auto simp: has_row_def ListView_GetItemCount_def)

lemma has_row_nat [simp]: "has_row d (int i) \<longleftrightarrow> i < length (hListView d)"
  by (simp add: has_row_def ListView_GetItemCount_def)

lemma retrieve_int: "retrieve_config_from_list_view d (int i)
    = (if i < length (hListView d) then row_config (hListView d ! i) else None)"
  by (simp add: retrieve_config_from_list_view_def)

lemma find_checked_iff: "0 \<le> k \<Longrightarrow> 0 \<le> find_checked k rs \<longleftrightarrow> (\<exists>r \<in> set rs. row_checked r)"
  by (induction rs arbitrary: k) auto

lemma find_checked_rows: "0 \<le> find_checked 0 (hListView d) \<longleftrightarrow> checked_rows d \<noteq> {}"
  by (auto simp: find_checked_iff checked_rows_def set_conv_nth)

text \<open>Unchecking a row other than the selected one just unchecks it.\<close>

lemma uncheck_other:
  assumes "has_row d i" "i \<noteq> cur_selected d"
  shows "set_check_state item_unchecking i False d
      = (if row_checked (hListView d ! nat i) then set_row_check (nat i) False d else d)"
  using assms by (auto simp: set_check_state_def change_row_def item_unchecking_def has_row_def)

lemma uncheck_all_unchecked:
  assumes "checked_rows d = {}"
  shows "set_check_state ask (- 1) False d = d"
proof -
  have "fold (change_row ask False) is d = d" if "\<forall>i \<in> set is. i < length (hListView d)" for "is"
    using that assms by (induction "is") (auto simp: change_row_def checked_rows_def)
  then show ?thesis by (simp add: set_check_state_def)
qed

lemma selection_okD:
  assumes "selection_ok d" "i < length (hListView d)" "int i \<noteq> cur_selected d"
  shows "\<not> row_checked (hListView d ! i)"
proof
  assume "row_checked (hListView d ! i)"
  with assms(2) have "i \<in> checked_rows d" by (simp add: checked_rows_def)
  with assms(1,3) show False by (auto simp: selection_ok_def has_row_def)
qed

text \<open>What checking and unchecking a row comes to when the selected row is the checked one.\<close>

lemma check_row_eq:
  assumes ok: "selection_ok d" and i: "has_row d i" "i \<noteq> cur_selected d"
  shows "ListView_SetCheckState i True d
      = set_row_check (nat i) True
          (if cur_selected d = - 1 then d\<lparr>cur_selected := i\<rparr>
           else set_row_check (nat (cur_selected d)) False (d\<lparr>cur_selected := i\<rparr>))"
proof -
  have i': "i = int (nat i)" "i \<noteq> - 1" "nat i < length (hListView d)"
    using i(1) has_row_less by (auto simp: has_row_def)
  have un: "\<not> row_checked (hListView d ! nat i)"
    by (rule selection_okD [OF ok]) (use i i' in auto)
  let ?d = "d\<lparr>cur_selected := i\<rparr>"
  have rows: "has_row ?d j = has_row d j" "hListView ?d = hListView d" for j
    by (simp_all add: has_row_def ListView_GetItemCount_def)
  have "set_check_state item_unchecking (cur_selected d) False ?d
      = (if cur_selected d = - 1 then ?d else set_row_check (nat (cur_selected d)) False ?d)"
  proof (cases "cur_selected d = - 1")
    case True
    with ok have "checked_rows ?d = {}" by (auto simp: selection_ok_def has_row_def)
    with True show ?thesis by (simp add: uncheck_all_unchecked)
  next
    case False
    with ok have cur: "has_row ?d (cur_selected d)" "checked_rows d = {nat (cur_selected d)}"
      by (auto simp: selection_ok_def has_row_def ListView_GetItemCount_def)
    then have "row_checked (hListView ?d ! nat (cur_selected d))" by (auto simp: checked_rows_def)
    with False uncheck_other [OF cur(1)] i(2) show ?thesis by simp
  qed
  with un i i' show ?thesis
    by (simp add: ListView_SetCheckState_def set_check_state_def change_row_def item_checking_def
        on_list_view_notification_item_changing_def)
qed

lemma check_current_eq:
  assumes "selection_ok d" "has_row d i" "i = cur_selected d"
  shows "ListView_SetCheckState i True d = d"
  using assms
  by (auto simp: ListView_SetCheckState_def set_check_state_def change_row_def selection_ok_def
      checked_rows_def has_row_def)

lemma uncheck_row_eq:
  assumes "selection_ok d" "has_row d i"
  shows "ListView_SetCheckState i False d = d"
  using assms selection_okD [OF assms(1) has_row_less [OF assms(2)]]
  by (auto simp: ListView_SetCheckState_def set_check_state_def change_row_def item_unchecking_def
      on_list_view_notification_item_changing_def has_row_def)

text \<open>A user's click on a check box keeps the selection, and checking a row selects it.\<close>

lemma check_row_selected:
  assumes ok: "selection_ok d" and i: "has_row d i"
  shows "selection_ok (ListView_SetCheckState i True d)" "cur_selected (ListView_SetCheckState i True d) = i"
    "hListView (ListView_SetCheckState i True d) ! nat i = (hListView d ! nat i)\<lparr>row_checked := True\<rparr>"
    "map row_config (hListView (ListView_SetCheckState i True d)) = map row_config (hListView d)"
proof -
  have n: "nat i < length (hListView d)" "0 \<le> i" using i has_row_less by (auto simp: has_row_def)
  let ?r = "ListView_SetCheckState i True d"
  have "selection_ok ?r \<and> cur_selected ?r = i \<and> hListView ?r ! nat i = (hListView d ! nat i)\<lparr>row_checked := True\<rparr>
      \<and> map row_config (hListView ?r) = map row_config (hListView d)"
  proof (cases "i = cur_selected d")
    case True
    with ok n(2) have "checked_rows d = {nat i}" unfolding selection_ok_def by (metis neg_0_le_iff_le not_one_le_zero)
    then have "row_checked (hListView d ! nat i)" unfolding checked_rows_def by blast
    then have "hListView d ! nat i = (hListView d ! nat i)\<lparr>row_checked := True\<rparr>"
      by (cases "hListView d ! nat i") simp
    with True ok i show ?thesis by (simp add: check_current_eq)
  next
    case False
    have lens: "length (hListView ?r) = length (hListView d)" "cur_selected ?r = i"
      using check_row_eq [OF ok i False] by simp_all
    have checked: "checked_rows ?r = {nat i}"
      using check_row_eq [OF ok i False] ok n False
      by (auto simp: checked_set_row_check selection_ok_def has_row_def ListView_GetItemCount_def)
    have conf: "map row_config (hListView ?r) = map row_config (hListView d)"
    proof -
      have "map row_config (hListView (set_row_check k b e)) = map row_config (hListView e)" for k b e
        by (cases "k < length (hListView e)")
          (simp_all add: set_row_check_def map_update list_update_same_conv list_update_beyond)
      then show ?thesis using check_row_eq [OF ok i False] by simp
    qed
    have "hListView ?r ! nat i = (hListView d ! nat i)\<lparr>row_checked := True\<rparr>"
      using check_row_eq [OF ok i False] n False ok
      by (auto simp: set_row_check_def nth_list_update selection_ok_def has_row_def)
    with lens checked conf i show ?thesis
      by (simp add: selection_ok_def has_row_def ListView_GetItemCount_def)
  qed
  then show "selection_ok ?r" "cur_selected ?r = i" "hListView ?r ! nat i = (hListView d ! nat i)\<lparr>row_checked := True\<rparr>"
    "map row_config (hListView ?r) = map row_config (hListView d)" by auto
qed

text \<open>Appending a row and selecting a row or none keep the selection as well.\<close>

lemma insert_selection_ok:
  assumes "selection_ok d"
  shows "selection_ok (snd (InsertListViewItem ok (length (hListView d)) config d))"
proof (cases ok)
  case True
  let ?d = "d\<lparr>hListView := hListView d @ [\<lparr>row_config = config, row_checked = False\<rparr>]\<rparr>"
  have "checked_rows ?d = checked_rows d"
    by (auto simp: checked_rows_def nth_append less_Suc_eq)
  moreover have "has_row d i \<Longrightarrow> has_row ?d i" for i
    by (simp add: has_row_def ListView_GetItemCount_def)
  ultimately show ?thesis using assms True by (auto simp: InsertListViewItem_def selection_ok_def)
qed (simp add: InsertListViewItem_def assms)

lemma adjust_range:
  "has_row d (adjust_current_selected_item c (ListView_GetItemCount d)) \<or>
     adjust_current_selected_item c (ListView_GetItemCount d) = - 1 \<and> hListView d = []"
  by (auto simp: adjust_current_selected_item_def has_row_def ListView_GetItemCount_def)

lemma set_current_row:
  assumes "selection_ok d" "has_row d i"
  shows "selection_ok (set_current_selected_item i True d)" "cur_selected (set_current_selected_item i True d) = i"
  using assms check_row_selected [OF assms] by (auto simp: set_current_selected_item_def)

lemma set_current_empty:
  assumes "hListView d = []"
  shows "set_current_selected_item (- 1) True d = d"
  using assms by (simp add: set_current_selected_item_def ListView_SetCheckState_def set_check_state_def)

text \<open>The selection the window adjusts to when it opens a menu or starts the client.\<close>

definition select_adjusted :: "main_wnd_data \<Rightarrow> main_wnd_data" where
  "select_adjusted d =
     set_current_selected_item (adjust_current_selected_item (cur_selected d) (ListView_GetItemCount d)) True d"

lemma select_adjusted_ok:
  assumes "selection_ok d"
  shows "selection_ok (select_adjusted d)"
    "cur_selected (select_adjusted d) = adjust_current_selected_item (cur_selected d) (ListView_GetItemCount d)"
proof -
  let ?a = "adjust_current_selected_item (cur_selected d) (ListView_GetItemCount d)"
  show "selection_ok (select_adjusted d)"
    using adjust_range [of d "cur_selected d"] set_current_row [OF assms] assms
    by (auto simp: select_adjusted_def set_current_empty)
  show "cur_selected (select_adjusted d) = ?a"
    using adjust_range [of d "cur_selected d"] set_current_row [OF assms] assms
    by (auto simp: select_adjusted_def set_current_empty selection_ok_def has_row_def ListView_GetItemCount_def)
qed

text \<open>Nothing of this touches the rest of the window.\<close>

definition rest :: "main_wnd_data \<Rightarrow> main_wnd_data" where
  "rest d = d\<lparr>hListView := [], cur_selected := 0\<rparr>"

lemma rest_update [simp]:
  "rest (d\<lparr>cur_selected := c\<rparr>) = rest d"
  "rest (d\<lparr>hListView := rs\<rparr>) = rest d"
  "rest (set_row_check i b d) = rest d"
  by (simp_all add: rest_def set_row_check_def)

lemma rest_fields:
  "rest d' = rest d \<Longrightarrow> client_ctx d' = client_ctx d \<and> globals d' = globals d \<and> log_box d' = log_box d"
  by (simp add: rest_def) (metis main_wnd_data.select_convs(3,12,13) main_wnd_data.surjective
      main_wnd_data.update_convs(1,2))

lemma rest_change_row:
  assumes "\<And>j d. rest (snd (ask j d)) = rest d"
  shows "rest (change_row ask b i d) = rest d"
  using assms [of "int i" d] by (auto simp: change_row_def split: prod.splits)

lemma rest_set_check_state:
  assumes "\<And>j d. rest (snd (ask j d)) = rest d"
  shows "rest (set_check_state ask i b d) = rest d"
proof -
  have "rest (fold (change_row ask b) is d) = rest d" for "is" d
    by (induction "is" arbitrary: d) (simp_all add: rest_change_row [OF assms])
  then show ?thesis by (simp add: set_check_state_def rest_change_row [OF assms])
qed

lemma rest_item_unchecking [simp]: "rest (snd (item_unchecking j d)) = rest d"
  by (simp add: item_unchecking_def)

lemma rest_item_checking [simp]: "rest (snd (item_checking j d)) = rest d"
  by (simp add: item_checking_def Let_def rest_set_check_state)

lemma rest_SetCheckState [simp]: "rest (ListView_SetCheckState i b d) = rest d"
  unfolding ListView_SetCheckState_def
  by (rule rest_set_check_state) (simp add: on_list_view_notification_item_changing_def)

lemma rest_set_current [simp]: "rest (set_current_selected_item i b d) = rest d"
  by (simp add: set_current_selected_item_def)

lemma rest_select_adjusted [simp]: "rest (select_adjusted d) = rest d"
  by (simp add: select_adjusted_def)

section \<open>The menu of servers\<close>

text \<open>
  A menu is the list of its items; a separator has the id 0. The servers are listed from position 7,
  where the resource has a separator.
\<close>

record menu_item =
  mi_id :: int
  mi_text :: wstr
  mi_checked :: bool
  mi_enabled :: bool

definition MENU_ID_NODE_BEGINNING :: int where
  "MENU_ID_NODE_BEGINNING = 60000"

definition INSERT_POSITION :: nat where
  "INSERT_POSITION = 7"

definition ID_CMD_STOP :: int where
  "ID_CMD_STOP = 40018"

definition ID_CMD_RUN :: int where
  "ID_CMD_RUN = 40019"

definition menu_separator :: menu_item where
  "menu_separator = \<lparr>mi_id = 0, mi_text = [], mi_checked = False, mi_enabled = True\<rparr>"

definition GetMenuItemID :: "menu_item list \<Rightarrow> nat \<Rightarrow> int" where
  "GetMenuItemID m index = (if index < length m then mi_id (m ! index) else - 1)"

fun DeleteMenu_by_command :: "int \<Rightarrow> menu_item list \<Rightarrow> menu_item list" where
  "DeleteMenu_by_command item [] = []"
| "DeleteMenu_by_command item (x # xs) = (if mi_id x = item then xs else x # DeleteMenu_by_command item xs)"

definition InsertMenu_at :: "nat \<Rightarrow> menu_item \<Rightarrow> menu_item list \<Rightarrow> menu_item list" where
  "InsertMenu_at pos x m = take pos m @ x # drop pos m"

definition EnableMenuItem :: "int \<Rightarrow> bool \<Rightarrow> menu_item list \<Rightarrow> menu_item list" where
  "EnableMenuItem item enabled = map (\<lambda>x. if mi_id x = item then x\<lparr>mi_enabled := enabled\<rparr> else x)"

definition CheckMenuRadioItem :: "int \<Rightarrow> int \<Rightarrow> int \<Rightarrow> menu_item list \<Rightarrow> menu_item list" where
  "CheckMenuRadioItem first_id last_id check =
     map (\<lambda>x. if first_id \<le> mi_id x \<and> mi_id x \<le> last_id then x\<lparr>mi_checked := (mi_id x = check)\<rparr> else x)"

text \<open>\<open>delete_node_items n k\<close> is the loop over the indexes below \<open>k\<close>, downwards; \<open>n\<close> is \<open>menu_count\<close>.\<close>

fun delete_node_items :: "int \<Rightarrow> nat \<Rightarrow> menu_item list \<Rightarrow> menu_item list" where
  "delete_node_items menu_count 0 m = m"
| "delete_node_items menu_count (Suc index) m =
     (let item_id = GetMenuItemID m index
      in delete_node_items menu_count index
           (if MENU_ID_NODE_BEGINNING \<le> item_id \<and> item_id < MENU_ID_NODE_BEGINNING + menu_count
            then DeleteMenu_by_command item_id m else m))"

text \<open>The name of a server: its remarks, its host when there are none; \<open>lstrlenA(NULL)\<close> is 0.\<close>

definition server_name :: "server_config \<Rightarrow> string option" where
  "server_name config =
     (case remarks config of Some r \<Rightarrow> if r \<noteq> [] then Some r else remote_host config | None \<Rightarrow> remote_host config)"

definition node_item :: "(string option \<Rightarrow> wstr option) \<Rightarrow> server_config \<Rightarrow> nat \<Rightarrow> menu_item" where
  "node_item to_wide config index =
     \<lparr>mi_id = MENU_ID_NODE_BEGINNING + int index,
      mi_text = (case to_wide (server_name config) of Some t \<Rightarrow> t | None \<Rightarrow> []),
      mi_checked = False, mi_enabled = True\<rparr>"

fun insert_node_items ::
  "(string option \<Rightarrow> wstr option) \<Rightarrow> main_wnd_data \<Rightarrow> nat \<Rightarrow> menu_item list \<Rightarrow> menu_item list res" where
  "insert_node_items to_wide d 0 m = Inr m"
| "insert_node_items to_wide d (Suc index) m =
     (case retrieve_config_from_list_view d (int index) of
        None \<Rightarrow> Inl Assert_Failed
      | Some config \<Rightarrow>
          insert_node_items to_wide d index (InsertMenu_at INSERT_POSITION (node_item to_wide config index) m))"

definition modify_popup_menu_items ::
  "(string option \<Rightarrow> wstr option) \<Rightarrow> main_wnd_data \<Rightarrow> menu_item list \<Rightarrow> (main_wnd_data \<times> menu_item list) res" where
  "modify_popup_menu_items to_wide d hMenu =
     (let node_count = length (hListView d);
          menu_count = length hMenu;
          m1 = delete_node_items (int menu_count) menu_count hMenu;
          m2 = (if GetMenuItemID m1 INSERT_POSITION = 0
                then take INSERT_POSITION m1 @ drop (Suc INSERT_POSITION) m1 else m1)
      in bindr (insert_node_items to_wide d node_count m2) (\<lambda>m3.
           let m4 = (if node_count > 0 then InsertMenu_at (INSERT_POSITION + node_count) menu_separator m3 else m3);
               sel = adjust_current_selected_item (cur_selected d) (int node_count);
               d' = set_current_selected_item sel True d;
               m5 = (if 0 \<le> sel
                     then CheckMenuRadioItem MENU_ID_NODE_BEGINNING (MENU_ID_NODE_BEGINNING + int node_count - 1)
                            (MENU_ID_NODE_BEGINNING + sel) m4
                     else m4);
               m6 = EnableMenuItem ID_CMD_RUN (client_ctx d' = None \<and> 0 \<le> sel) m5
           in Inr (d', EnableMenuItem ID_CMD_STOP (client_ctx d' \<noteq> None) m6)))"

text \<open>
  \<open>node_menu pre post k sep m\<close>: between the fixed items of \<open>pre\<close> and \<open>post\<close> the menu lists \<open>k\<close> servers
  in order, and a separator when \<open>sep\<close>. The resource's menu is \<open>node_menu pre post 0 True\<close>.
\<close>

definition node_ids :: "nat \<Rightarrow> int list" where
  "node_ids k = map (\<lambda>i. MENU_ID_NODE_BEGINNING + int i) [0..<k]"

definition node_menu :: "int list \<Rightarrow> int list \<Rightarrow> nat \<Rightarrow> bool \<Rightarrow> menu_item list \<Rightarrow> bool" where
  "node_menu pre post k sep m \<longleftrightarrow> map mi_id m = pre @ node_ids k @ (if sep then [0] else []) @ post"

definition fixed_items :: "int list \<Rightarrow> int list \<Rightarrow> bool" where
  "fixed_items pre post \<longleftrightarrow> length pre = INSERT_POSITION \<and> (\<forall>i \<in> set pre \<union> set post. i < MENU_ID_NODE_BEGINNING)
     \<and> post \<noteq> [] \<and> hd post \<noteq> 0"

definition is_node :: "int \<Rightarrow> menu_item \<Rightarrow> bool" where
  "is_node n x \<longleftrightarrow> MENU_ID_NODE_BEGINNING \<le> mi_id x \<and> mi_id x < MENU_ID_NODE_BEGINNING + n"

lemma DeleteMenu_split:
  "i < length m \<Longrightarrow> \<exists>j \<le> i. mi_id (m ! j) = mi_id (m ! i)
     \<and> DeleteMenu_by_command (mi_id (m ! i)) m = take j m @ drop (Suc j) m"
proof (induction m arbitrary: i)
  case (Cons x xs)
  show ?case
  proof (cases "mi_id x = mi_id ((x # xs) ! i)")
    case True
    then show ?thesis by (intro exI [of _ 0]) simp
  next
    case False
    with Cons.prems obtain k where k: "i = Suc k" "k < length xs" by (cases i) auto
    from Cons.IH [OF k(2)] obtain j where "j \<le> k" "mi_id (xs ! j) = mi_id (xs ! k)"
      "DeleteMenu_by_command (mi_id (xs ! k)) xs = take j xs @ drop (Suc j) xs" by blast
    with False k show ?thesis by (intro exI [of _ "Suc j"]) simp
  qed
qed simp

lemma delete_node_items_filter:
  "\<forall>x \<in> set (drop k m). \<not> is_node n x \<Longrightarrow> delete_node_items n k m = filter (\<lambda>x. \<not> is_node n x) m"
proof (induction k arbitrary: m)
  case 0
  then show ?case by (simp add: filter_id_conv)
next
  case (Suc k)
  show ?case
  proof (cases "k < length m \<and> is_node n (m ! k)")
    case True
    then obtain j where j: "j \<le> k" "mi_id (m ! j) = mi_id (m ! k)"
      "DeleteMenu_by_command (mi_id (m ! k)) m = take j m @ drop (Suc j) m"
      using DeleteMenu_split [of k m] by blast
    let ?m = "take j m @ drop (Suc j) m"
    have "drop k ?m = drop (Suc k) m" using True j(1) by (simp add: min_def)
    then have "delete_node_items n k ?m = filter (\<lambda>x. \<not> is_node n x) ?m"
      using Suc.prems by (intro Suc.IH) simp
    also have "\<dots> = filter (\<lambda>x. \<not> is_node n x) m"
    proof -
      have "m = take j m @ m ! j # drop (Suc j) m" using True j(1) by (simp add: id_take_nth_drop)
      moreover have "is_node n (m ! j)" using True j(2) by (simp add: is_node_def)
      ultimately show ?thesis by (metis (no_types, lifting) filter.simps(2) filter_append)
    qed
    finally show ?thesis using True j(3) by (simp add: GetMenuItemID_def is_node_def)
  next
    case False
    have "\<forall>x \<in> set (drop k m). \<not> is_node n x"
    proof (cases "k < length m")
      case True
      with False Suc.prems show ?thesis by (simp add: Cons_nth_drop_Suc [symmetric])
    qed simp
    from Suc.IH [OF this] False show ?thesis
      by (auto simp: GetMenuItemID_def is_node_def Let_def MENU_ID_NODE_BEGINNING_def)
  qed
qed

lemma insert_node_items_eq:
  assumes "\<forall>r \<in> set (hListView d). row_config r \<noteq> None" and "INSERT_POSITION \<le> length m"
  shows "k \<le> length (hListView d) \<Longrightarrow>
    insert_node_items to_wide d k m
      = Inr (take INSERT_POSITION m
             @ map (\<lambda>i. node_item to_wide (the (row_config (hListView d ! i))) i) [0..<k]
             @ drop INSERT_POSITION m)"
  using assms(2)
proof (induction k arbitrary: m)
  case (Suc k)
  let ?x = "node_item to_wide (the (row_config (hListView d ! k))) k"
  from Suc.prems(1) have k: "k < length (hListView d)" by simp
  with assms(1) have "row_config (hListView d ! k) \<noteq> None" by simp
  with k have conf: "retrieve_config_from_list_view d (int k) = Some (the (row_config (hListView d ! k)))"
    by (simp add: retrieve_config_from_list_view_def)
  have "insert_node_items to_wide d k (InsertMenu_at INSERT_POSITION ?x m)
      = Inr (take INSERT_POSITION (InsertMenu_at INSERT_POSITION ?x m)
             @ map (\<lambda>i. node_item to_wide (the (row_config (hListView d ! i))) i) [0..<k]
             @ drop INSERT_POSITION (InsertMenu_at INSERT_POSITION ?x m))"
    using Suc.prems k by (intro Suc.IH) (simp_all add: InsertMenu_at_def)
  with Suc.prems conf show ?case by (simp add: InsertMenu_at_def)
qed simp

lemma node_ids_simps [simp]: "length (node_ids k) = k" "i < k \<Longrightarrow> node_ids k ! i = MENU_ID_NODE_BEGINNING + int i"
  by (simp_all add: node_ids_def)

lemma EnableMenuItem_ids [simp]: "map mi_id (EnableMenuItem item b m) = map mi_id m"
  by (simp add: EnableMenuItem_def)

lemma EnableMenuItem_nth: "i < length m \<Longrightarrow>
    EnableMenuItem item b m ! i = (if mi_id (m ! i) = item then (m ! i)\<lparr>mi_enabled := b\<rparr> else m ! i)"
  by (simp add: EnableMenuItem_def)

lemma EnableMenuItem_length [simp]: "length (EnableMenuItem item b m) = length m"
  by (simp add: EnableMenuItem_def)

lemma CheckMenuRadioItem_ids [simp]: "map mi_id (CheckMenuRadioItem a b c m) = map mi_id m"
  by (simp add: CheckMenuRadioItem_def)

lemma CheckMenuRadioItem_length [simp]: "length (CheckMenuRadioItem a b c m) = length m"
  by (simp add: CheckMenuRadioItem_def)

text \<open>A server's item after the radio check and the two enablements.\<close>

lemma final_item:
  fixes b1 b2 :: bool
  assumes "j < length m" "m ! j = node_item to_wide c i" "i < n" "0 \<le> sel"
  defines "M \<equiv> EnableMenuItem ID_CMD_STOP b2 (EnableMenuItem ID_CMD_RUN b1
      (CheckMenuRadioItem MENU_ID_NODE_BEGINNING (MENU_ID_NODE_BEGINNING + int n - 1) (MENU_ID_NODE_BEGINNING + sel) m))"
  shows "mi_text (M ! j) = mi_text (node_item to_wide c i)" "mi_checked (M ! j) \<longleftrightarrow> int i = sel"
  using assms
  by (simp_all add: M_def EnableMenuItem_nth CheckMenuRadioItem_def node_item_def MENU_ID_NODE_BEGINNING_def
      ID_CMD_RUN_def ID_CMD_STOP_def)

lemma map_split: "map f xs = ys @ zs \<Longrightarrow> \<exists>us vs. xs = us @ vs \<and> map f us = ys \<and> map f vs = zs"
  by (metis append_eq_map_conv)

text \<open>A menu of this shape with its server items and its separator taken out.\<close>

lemma strip_menu:
  assumes fixed: "fixed_items pre post" and m: "node_menu pre post k sep m"
  obtains mp mq where "map mi_id mp = pre" "map mi_id mq = post" "length mp = INSERT_POSITION"
    "(let m1 = delete_node_items (int (length m)) (length m) m
      in if GetMenuItemID m1 INSERT_POSITION = 0 then take INSERT_POSITION m1 @ drop (Suc INSERT_POSITION) m1
         else m1) = mp @ mq"
proof -
  obtain mp r1 where r1: "m = mp @ r1" "map mi_id mp = pre"
    "map mi_id r1 = node_ids k @ (if sep then [0] else []) @ post"
    using map_split [OF m [unfolded node_menu_def]] by blast
  obtain mn r2 where r2: "r1 = mn @ r2" "map mi_id mn = node_ids k"
    "map mi_id r2 = (if sep then [0] else []) @ post"
    using map_split [OF r1(3)] by blast
  obtain ms mq where r3: "r2 = ms @ mq" "map mi_id ms = (if sep then [0] else [])" "map mi_id mq = post"
    using map_split [OF r2(3)] by blast
  note split = r1(1) [unfolded r2(1) r3(1)] r1(2) r2(2) r3(2,3)
  have len: "length mp = INSERT_POSITION" using fixed split(2) by (auto simp: fixed_items_def)
  have k: "k \<le> length m"
  proof -
    have "length mn = k" using arg_cong [OF split(3), of length] by simp
    then show ?thesis using split(1) by simp
  qed
  have nodes: "\<forall>x \<in> set mn. is_node (int (length m)) x"
  proof
    fix x assume "x \<in> set mn"
    then have "mi_id x \<in> set (node_ids k)" using split(3) by (metis image_eqI set_map)
    with k show "is_node (int (length m)) x" by (auto simp: is_node_def node_ids_def)
  qed
  have others: "\<not> is_node n x" if "x \<in> set mp \<union> set ms \<union> set mq" for n x
  proof -
    have "mi_id x \<in> set pre \<union> {0} \<union> set post"
      using that split(2,4,5) by (auto split: if_splits simp: map_eq_Cons_conv)
    then have "mi_id x < MENU_ID_NODE_BEGINNING"
      using fixed unfolding fixed_items_def by (auto simp: MENU_ID_NODE_BEGINNING_def)
    then show ?thesis by (simp add: is_node_def)
  qed
  have "delete_node_items (int (length m)) (length m) m = filter (\<lambda>x. \<not> is_node (int (length m)) x) m"
    by (rule delete_node_items_filter) simp
  also have "\<dots> = mp @ ms @ mq"
    using nodes others by (simp add: split(1) filter_id_conv filter_empty_conv)
  finally have del: "delete_node_items (int (length m)) (length m) m = mp @ ms @ mq" .
  have mq: "mq \<noteq> []" "mi_id (hd mq) \<noteq> 0"
    using fixed split(5) by (auto simp: fixed_items_def hd_map)
  have "(let m1 = mp @ ms @ mq in if GetMenuItemID m1 INSERT_POSITION = 0
      then take INSERT_POSITION m1 @ drop (Suc INSERT_POSITION) m1 else m1) = mp @ mq"
  proof (cases sep)
    case True
    with split(4) obtain s where "ms = [s]" "mi_id s = 0" by auto
    with len show ?thesis by (simp add: GetMenuItemID_def nth_append)
  next
    case False
    with split(4) have "ms = []" by simp
    with len mq show ?thesis by (cases mq) (auto simp: GetMenuItemID_def nth_append)
  qed
  with del split(2,5) len that show ?thesis by simp
qed

section \<open>Properties\<close>

text \<open>
  C13: Opening the menu. From the resource's menu or one left by an earlier opening, the servers are
  listed between the fixed items, in the order of the rows and with their names; the one checked
  item is the selected server, which exists when any does; Run is enabled when a server is selected
  and no client runs, Stop when one runs.
\<close>

theorem popup_menu_lists_servers:
  assumes fixed: "fixed_items pre post" and m: "node_menu pre post k sep m"
    and sel: "selection_ok d" and conf: "\<forall>r \<in> set (hListView d). row_config r \<noteq> None"
  shows "\<exists>d' m'. modify_popup_menu_items to_wide d m = Inr (d', m')
    \<and> node_menu pre post (length (hListView d)) (hListView d \<noteq> []) m'
    \<and> (\<forall>i < length (hListView d).
         mi_text (m' ! (INSERT_POSITION + i))
           = mi_text (node_item to_wide (the (row_config (hListView d ! i))) i)
         \<and> (mi_checked (m' ! (INSERT_POSITION + i)) \<longleftrightarrow> int i = cur_selected d'))
    \<and> (\<forall>x \<in> set m'. (mi_id x = ID_CMD_RUN \<longrightarrow> (mi_enabled x \<longleftrightarrow> client_ctx d = None \<and> hListView d \<noteq> []))
         \<and> (mi_id x = ID_CMD_STOP \<longrightarrow> (mi_enabled x \<longleftrightarrow> client_ctx d \<noteq> None)))
    \<and> selection_ok d' \<and> (has_row d (cur_selected d') \<or> hListView d = [])"
proof -
  obtain mp mq where strip: "map mi_id mp = pre" "map mi_id mq = post" "length mp = INSERT_POSITION"
    "(let m1 = delete_node_items (int (length m)) (length m) m
      in if GetMenuItemID m1 INSERT_POSITION = 0 then take INSERT_POSITION m1 @ drop (Suc INSERT_POSITION) m1
         else m1) = mp @ mq"
    by (rule strip_menu [OF fixed m])
  let ?n = "length (hListView d)"
  let ?item = "\<lambda>i. node_item to_wide (the (row_config (hListView d ! i))) i"
  let ?nodes = "map ?item [0..<?n]"
  let ?sep = "if hListView d = [] then [] else [menu_separator]"
  let ?m4 = "mp @ ?nodes @ ?sep @ mq"
  let ?sel = "adjust_current_selected_item (cur_selected d) (int ?n)"
  let ?d = "select_adjusted d"
  have sel': "set_current_selected_item ?sel True d = ?d"
    by (simp add: select_adjusted_def ListView_GetItemCount_def)
  have cur: "cur_selected ?d = ?sel" "selection_ok ?d"
    using select_adjusted_ok [OF sel] by (simp_all add: ListView_GetItemCount_def)
  have range: "0 \<le> ?sel \<longleftrightarrow> hListView d \<noteq> []" "hListView d \<noteq> [] \<Longrightarrow> has_row d ?sel"
    by (auto simp: adjust_current_selected_item_def has_row_def ListView_GetItemCount_def)
  have ctx: "client_ctx ?d = client_ctx d" using rest_fields [OF rest_select_adjusted] by simp
  have ins: "insert_node_items to_wide d ?n (mp @ mq) = Inr (mp @ ?nodes @ mq)"
    using insert_node_items_eq [OF conf, of "mp @ mq" ?n] strip(3) by simp
  let ?m5 = "if 0 \<le> ?sel then CheckMenuRadioItem MENU_ID_NODE_BEGINNING (MENU_ID_NODE_BEGINNING + int ?n - 1)
      (MENU_ID_NODE_BEGINNING + ?sel) ?m4 else ?m4"
  let ?m = "EnableMenuItem ID_CMD_STOP (client_ctx d \<noteq> None)
      (EnableMenuItem ID_CMD_RUN (client_ctx d = None \<and> 0 \<le> ?sel) ?m5)"
  have res: "modify_popup_menu_items to_wide d m = Inr (?d, ?m)"
    using strip(3,4) ins sel' ctx
    by (auto simp: modify_popup_menu_items_def Let_def InsertMenu_at_def)
  have ids: "node_menu pre post ?n (hListView d \<noteq> []) ?m"
    using strip(1,2) by (simp add: node_menu_def node_ids_def node_item_def menu_separator_def comp_def)
  have node: "mi_text (?m ! (INSERT_POSITION + i)) = mi_text (?item i)
      \<and> (mi_checked (?m ! (INSERT_POSITION + i)) \<longleftrightarrow> int i = cur_selected ?d)" if i: "i < ?n" for i
  proof -
    have "?m4 ! (INSERT_POSITION + i) = ?item i"
      using i strip(3) by (simp add: nth_append)
    moreover have nn: "0 \<le> ?sel" using i range by auto
    moreover have "INSERT_POSITION + i < length ?m4" using i strip(3) by simp
    ultimately show ?thesis
      using final_item [of "INSERT_POSITION + i" ?m4 to_wide "the (row_config (hListView d ! i))" i ?n ?sel] i cur(1)
      by (simp only: if_True)
  qed
  have enabled: "(mi_id x = ID_CMD_RUN \<longrightarrow> (mi_enabled x \<longleftrightarrow> client_ctx d = None \<and> hListView d \<noteq> []))
      \<and> (mi_id x = ID_CMD_STOP \<longrightarrow> (mi_enabled x \<longleftrightarrow> client_ctx d \<noteq> None))" if "x \<in> set ?m" for x
    using that range(1) unfolding EnableMenuItem_def by (auto simp: ID_CMD_RUN_def ID_CMD_STOP_def)
  show ?thesis
    using res ids node enabled cur range(2) by (intro exI conjI) (assumption | blast | simp)+
qed

definition demo_window :: "main_wnd_data" where
  "demo_window = \<lparr>hListView = [\<lparr>row_config = Some demo_config, row_checked = False\<rparr>,
       \<lparr>row_config = Some (demo_config\<lparr>remarks := Some []\<rparr>), row_checked = True\<rparr>,
       \<lparr>row_config = Some (demo_config\<lparr>remote_port := 99\<rparr>), row_checked = False\<rparr>],
     cur_selected = 1, client_ctx = None, auto_run = 0, auto_connect = 0,
     ssr_listen_host = ''127.0.0.1'' @ replicate 251 (CHR 0x00), ssr_listen_port = 0,
     http_proxy_listen_host = ''127.0.0.1'' @ replicate 251 (CHR 0x00), http_proxy_listen_port = 8118,
     delay_quit_ms = 500, change_inet_opts = 1, globals = demo_client, log_box = []\<rparr>"

definition resource_menu :: "menu_item list" where
  "resource_menu = map (\<lambda>i. \<lparr>mi_id = i, mi_text = [], mi_checked = False, mi_enabled = True\<rparr>)
     [40013, 40042, 0, 40034, 40036, 40022, 0, 0, 40019, 40018, 0, 40011]"

lemma demo_window_rows:
  "length (hListView demo_window) = 3" "\<forall>r \<in> set (hListView demo_window). row_config r \<noteq> None"
  "hListView demo_window \<noteq> []"
  by (simp_all add: demo_window_def)

lemma demo_window_checked: "checked_rows demo_window = {1}"
  by (auto simp: checked_rows_def demo_window_def less_Suc_eq numeral_3_eq_3 numeral_2_eq_2)

lemma demo_window_selection: "selection_ok demo_window" "cur_selected demo_window = 1"
  by (simp_all add: selection_ok_def demo_window_checked has_row_def ListView_GetItemCount_def demo_window_rows)
    (simp_all add: demo_window_def)

lemma popup_menu_lists_servers_witness:
  "\<exists>d' m'. modify_popup_menu_items (map_option L) demo_window resource_menu = Inr (d', m')
     \<and> mi_checked (m' ! 8) = (1 = cur_selected d') \<and> map mi_id m' = [40013, 40042, 0, 40034, 40036, 40022, 0,
         60000, 60001, 60002, 0, 40019, 40018, 0, 40011]"
proof -
  have fixed: "fixed_items [40013, 40042, 0, 40034, 40036, 40022, 0] [40019, 40018, 0, 40011]"
    by (simp add: fixed_items_def INSERT_POSITION_def MENU_ID_NODE_BEGINNING_def)
  have menu: "node_menu [40013, 40042, 0, 40034, 40036, 40022, 0] [40019, 40018, 0, 40011] 0 True resource_menu"
    by (simp add: node_menu_def node_ids_def resource_menu_def)
  obtain d' m' where res: "modify_popup_menu_items (map_option L) demo_window resource_menu = Inr (d', m')"
    "node_menu [40013, 40042, 0, 40034, 40036, 40022, 0] [40019, 40018, 0, 40011] 3 True m'"
    "\<forall>i < 3. mi_checked (m' ! (INSERT_POSITION + i)) \<longleftrightarrow> int i = cur_selected d'"
    using popup_menu_lists_servers [OF fixed menu demo_window_selection(1) demo_window_rows(2), of "map_option L"]
    unfolding demo_window_rows(1) using demo_window_rows(3) by (simp only: not_False_eq_True) blast
  have "mi_checked (m' ! 8) = (1 = cur_selected d')"
    using spec [OF res(3), of 1] by (auto simp: INSERT_POSITION_def)
  with res(1,2) show ?thesis
    by (auto simp: node_menu_def node_ids_def MENU_ID_NODE_BEGINNING_def numeral_3_eq_3)
qed

text \<open>The list without the row \<open>j\<close>.\<close>

definition without_row :: "nat \<Rightarrow> main_wnd_data \<Rightarrow> main_wnd_data" where
  "without_row j d = d\<lparr>hListView := take j (hListView d) @ drop (Suc j) (hListView d)\<rparr>"

lemma without_row_nth:
  assumes "j < length (hListView d)"
  shows "length (hListView (without_row j d)) = length (hListView d) - 1"
    "i < length (hListView d) - 1 \<Longrightarrow>
       hListView (without_row j d) ! i = (if i < j then hListView d ! i else hListView d ! Suc i)"
  using assms by (auto simp: without_row_def nth_append min_def)

lemma without_row_retrieve:
  assumes "j < length (hListView d)" and "j \<le> i"
  shows "retrieve_config_from_list_view (without_row j d) (int i) = retrieve_config_from_list_view d (int (Suc i))"
proof (cases "i < length (hListView d) - 1")
  case True
  then have "\<not> i < j" "Suc i < length (hListView d)" using assms(2) by simp_all
  with True show ?thesis
    unfolding retrieve_int without_row_nth(1) [OF assms(1)] without_row_nth(2) [OF assms(1) True]
    by (simp only: if_True if_False)
next
  case False
  then have "\<not> Suc i < length (hListView d)" by simp
  with False show ?thesis unfolding retrieve_int without_row_nth(1) [OF assms(1)] by (simp only: if_False)
qed

lemma without_row_checked:
  assumes j: "j < c" "c < length (hListView d)" and checked: "checked_rows d = {c}"
  shows "checked_rows (without_row j d) = {c - 1}"
proof -
  let ?n = "length (hListView d)"
  from j have jn: "j < ?n" by simp
  have row: "row_checked (hListView d ! i) \<longleftrightarrow> i = c" if "i < ?n" for i
    using checked that unfolding checked_rows_def by blast
  have "row_checked (hListView (without_row j d) ! i) \<longleftrightarrow> i = c - 1" if i: "i < ?n - 1" for i
  proof (cases "i < j")
    case True
    with i j row [of i] show ?thesis unfolding without_row_nth(2) [OF jn i] by auto
  next
    case False
    with i j row [of "Suc i"] show ?thesis unfolding without_row_nth(2) [OF jn i] by auto
  qed
  moreover have "c - 1 < ?n - 1" using j by linarith
  ultimately show ?thesis
    unfolding checked_rows_def without_row_nth(1) [OF jn] by blast
qed

text \<open>
  Deleting a row above the selected server leaves the selection where it was: the check mark
  moves up with its server, and the window regards the server below it, which is not checked, as
  selected.
\<close>

theorem delete_shifts_selection:
  assumes ok: "selection_ok d" and cur: "has_row d (cur_selected d)" and j: "0 \<le> j" "j < cur_selected d"
  shows "let d' = snd (on_delete_item j True d) in
    checked_rows d' = {nat (cur_selected d - 1)} \<and> cur_selected d' = cur_selected d \<and> \<not> selection_ok d'
    \<and> retrieve_config_from_list_view d' (cur_selected d - 1) = retrieve_config_from_list_view d (cur_selected d)
    \<and> retrieve_config_from_list_view d' (cur_selected d') = retrieve_config_from_list_view d (cur_selected d + 1)"
proof -
  let ?c = "nat (cur_selected d)" and ?j = "nat j"
  let ?d = "without_row ?j d"
  have c: "?c < length (hListView d)" "int ?c = cur_selected d" "?j < ?c" "nat (cur_selected d - 1) = ?c - 1"
    using cur j by (auto simp: has_row_def ListView_GetItemCount_def)
  from c(3,1) have jn: "?j < length (hListView d)" by (rule less_trans)
  have del: "snd (on_delete_item j True d) = ?d"
    using j cur by (simp add: on_delete_item_def has_row_def without_row_def)
  have "checked_rows d = {?c}" using ok c(2) cur by (auto simp: selection_ok_def)
  from without_row_checked [OF c(3,1) this] have checked: "checked_rows ?d = {?c - 1}" .
  note get = without_row_retrieve [OF jn]
  have eqs: "cur_selected d - 1 = int (?c - 1)" "cur_selected d = int (Suc (?c - 1))" "cur_selected d + 1 = int (Suc ?c)"
    using c(2,3) by linarith+
  have "retrieve_config_from_list_view ?d (cur_selected d - 1) = retrieve_config_from_list_view d (cur_selected d)"
    using get [of "?c - 1", folded eqs(1,2)] c(3) by linarith
  moreover have "retrieve_config_from_list_view ?d (cur_selected d) = retrieve_config_from_list_view d (cur_selected d + 1)"
    using get [of ?c] c(2,3) eqs(3) by (simp add: add.commute)
  moreover have "cur_selected ?d = cur_selected d" by (simp add: without_row_def)
  moreover have "\<not> selection_ok ?d"
    using checked c \<open>cur_selected ?d = cur_selected d\<close> by (auto simp: selection_ok_def)
  ultimately show ?thesis using checked c(4) del by (simp add: del Let_def)
qed

lemma delete_shifts_selection_witness:
  "retrieve_config_from_list_view (snd (on_delete_item 0 True demo_window)) 1 = Some (demo_config\<lparr>remote_port := 99\<rparr>)"
proof -
  have "has_row demo_window (cur_selected demo_window)"
    by (simp add: demo_window_selection has_row_def ListView_GetItemCount_def demo_window_rows)
  note facts = delete_shifts_selection [OF demo_window_selection(1) this, of 0, unfolded Let_def demo_window_selection(2)]
  have "retrieve_config_from_list_view (snd (on_delete_item 0 True demo_window)) 1
      = retrieve_config_from_list_view demo_window (1 + 1)"
    using facts by (metis order_refl zero_less_one)
  also have "\<dots> = Some (demo_config\<lparr>remote_port := 99\<rparr>)"
    by (simp add: retrieve_config_from_list_view_def has_row_def ListView_GetItemCount_def demo_window_def)
  finally show ?thesis .
qed

end
