(* ===== verification/Window_Options.thy ===== *)
theory Window_Options
  imports Server_List
begin

text \<open>
  The window's own settings (main.c): the options dialog, and the registry values they are kept in
  between runs. A host is a buffer of \<open>MAX_PATH\<close> bytes and its text what comes before the first NUL;
  an integer is a C \<open>int\<close>, in the registry its four bytes. The dialog's controls are their contents.
\<close>

section \<open>Host buffers\<close>

definition NUL :: char where
  "NUL = CHR 0x00"

definition buffer_text :: "string \<Rightarrow> string" where
  "buffer_text buf = takeWhile (\<lambda>c. c \<noteq> NUL) buf"

definition buffer_string :: "string \<Rightarrow> string res" where
  "buffer_string buf = (if NUL \<in> set buf then Inr (buffer_text buf) else Inl Out_Of_Bounds)"

text \<open>\<open>lstrcpyA\<close> of a text that fits, and \<open>GetDlgItemTextA\<close>, which cuts the text to the buffer.\<close>

definition buffer_write :: "string \<Rightarrow> string \<Rightarrow> string" where
  "buffer_write t buf = t @ [NUL] @ drop (Suc (length t)) buf"

definition GetDlgItemTextA :: "string \<Rightarrow> string \<Rightarrow> string" where
  "GetDlgItemTextA t buf = buffer_write (lstrcpyn (length buf) t) buf"

lemma takeWhile_write [simp]: "NUL \<notin> set t \<Longrightarrow> takeWhile (\<lambda>c. c \<noteq> NUL) (t @ NUL # r) = t"
  by (induction t) auto

lemma buffer_write_string [simp]: "NUL \<notin> set t \<Longrightarrow> buffer_string (buffer_write t buf) = Inr t"
  by (simp add: buffer_string_def buffer_write_def buffer_text_def)

lemma length_buffer_write [simp]: "length t < length buf \<Longrightarrow> length (buffer_write t buf) = length buf"
  by (simp add: buffer_write_def)

lemma buffer_text_no_NUL: "NUL \<notin> set (buffer_text buf)"
  unfolding buffer_text_def by (metis set_takeWhileD)

lemma buffer_split: "NUL \<in> set buf \<Longrightarrow> buffer_write (buffer_text buf) buf = buf"
proof (induction buf)
  case (Cons c cs)
  then show ?case by (cases "c = NUL") (auto simp: buffer_write_def buffer_text_def)
qed simp

lemma buffer_text_length: "NUL \<in> set buf \<Longrightarrow> length (buffer_text buf) < length buf"
  by (induction buf) (auto simp: buffer_text_def)

section \<open>The options dialog\<close>

record options_dlg =
  CHK_AUTO_RUN :: bool
  CHK_AUTO_CONN :: bool
  EDT_SSR_HOST :: string
  EDT_SSR_PORT :: string
  EDT_HTTP_PROXY_HOST :: string
  EDT_HTTP_PROXY_PORT :: string
  EDT_DELAY_MS :: string
  CHK_CHANGE_INET_OPTS :: bool

text \<open>\<open>SetDlgItemInt\<close> and \<open>GetDlgItemInt\<close> with \<open>fSigned\<close> false; a value past 32 bits reads as 0.\<close>

definition SetDlgItemInt :: "int \<Rightarrow> string" where
  "SetDlgItemInt v = show_nat (nat (v mod 2 ^ 32))"

definition GetDlgItemInt :: "string \<Rightarrow> int" where
  "GetDlgItemInt t =
     (let v = int (read_nat 0 (dropWhile (\<lambda>c. c = CHR '' '') t))
      in int32 (if v < 2 ^ 32 then v else 0))"

definition HTTP_PROXY_LISTEN_ADDR :: string where
  "HTTP_PROXY_LISTEN_ADDR = ''127.0.0.1''"

definition HTTP_PROXY_LISTEN_PORT :: int where
  "HTTP_PROXY_LISTEN_PORT = 8118"

text \<open>The label of the first box is formatted with the name of the program in a buffer of its own.\<close>

definition auto_run_label :: "string \<Rightarrow> string res" where
  "auto_run_label APP_NAME_KEY =
     (let fmt1 = ''Start ''; fmt2 = '' on system startup''
      in copy_into MAX_PATH (fmt1 @ APP_NAME_KEY @ fmt2))"

definition options_init :: "string \<Rightarrow> main_wnd_data \<Rightarrow> options_dlg res" where
  "options_init APP_NAME_KEY d =
     bindr (auto_run_label APP_NAME_KEY) (\<lambda>_.
       bindr (buffer_string (ssr_listen_host d)) (\<lambda>ssr.
         bindr (buffer_string (http_proxy_listen_host d)) (\<lambda>http.
           Inr \<lparr>CHK_AUTO_RUN = (auto_run d \<noteq> 0), CHK_AUTO_CONN = (auto_connect d \<noteq> 0),
                EDT_SSR_HOST = ssr, EDT_SSR_PORT = SetDlgItemInt (ssr_listen_port d),
                EDT_HTTP_PROXY_HOST = http, EDT_HTTP_PROXY_PORT = SetDlgItemInt (http_proxy_listen_port d),
                EDT_DELAY_MS = SetDlgItemInt (delay_quit_ms d),
                CHK_CHANGE_INET_OPTS = (change_inet_opts d \<noteq> 0)\<rparr>)))"

definition options_reset :: "options_dlg \<Rightarrow> options_dlg" where
  "options_reset dlg =
     dlg\<lparr>CHK_AUTO_RUN := False, CHK_AUTO_CONN := False, EDT_SSR_HOST := ''127.0.0.1'', EDT_SSR_PORT := ''0'',
         EDT_HTTP_PROXY_HOST := HTTP_PROXY_LISTEN_ADDR, EDT_HTTP_PROXY_PORT := SetDlgItemInt HTTP_PROXY_LISTEN_PORT,
         EDT_DELAY_MS := SetDlgItemInt SSR_DELAY_QUIT_MIN, CHK_CHANGE_INET_OPTS := True\<rparr>"

definition options_ok :: "options_dlg \<Rightarrow> main_wnd_data \<Rightarrow> main_wnd_data" where
  "options_ok dlg d =
     d\<lparr>auto_run := of_bool (CHK_AUTO_RUN dlg), auto_connect := of_bool (CHK_AUTO_CONN dlg),
       ssr_listen_host := GetDlgItemTextA (EDT_SSR_HOST dlg) (ssr_listen_host d),
       ssr_listen_port := GetDlgItemInt (EDT_SSR_PORT dlg),
       http_proxy_listen_host := GetDlgItemTextA (EDT_HTTP_PROXY_HOST dlg) (http_proxy_listen_host d),
       http_proxy_listen_port := GetDlgItemInt (EDT_HTTP_PROXY_PORT dlg),
       delay_quit_ms := GetDlgItemInt (EDT_DELAY_MS dlg),
       change_inet_opts := of_bool (CHK_CHANGE_INET_OPTS dlg)\<rparr>"

text \<open>
  The dialog procedure. The state holds the controls while the dialog is open; \<open>None\<close> is the static
  pointer set back to null. The user edits the controls between the commands.
\<close>

datatype options_event = Options_Edit options_dlg | IDC_BTN_RESET | Options_IDOK | Options_IDCANCEL

definition OptionsDlgProc ::
  "options_event \<Rightarrow> options_dlg option \<times> main_wnd_data \<Rightarrow> (options_dlg option \<times> main_wnd_data) res" where
  "OptionsDlgProc e s =
     (case s of (dlg, d) \<Rightarrow>
        (case e of
           Options_Edit dlg' \<Rightarrow> Inr (if dlg = None then None else Some dlg', d)
         | IDC_BTN_RESET \<Rightarrow> Inr (map_option options_reset dlg, d)
         | Options_IDOK \<Rightarrow> (case dlg of None \<Rightarrow> Inl Assert_Failed | Some c \<Rightarrow> Inr (None, options_ok c d))
         | Options_IDCANCEL \<Rightarrow> Inr (None, d)))"

fun options_run :: "options_event list \<Rightarrow> options_dlg option \<times> main_wnd_data \<Rightarrow> (options_dlg option \<times> main_wnd_data) res" where
  "options_run [] s = Inr s"
| "options_run (e # es) s = bindr (OptionsDlgProc e s) (options_run es)"

definition options_dialog :: "string \<Rightarrow> options_event list \<Rightarrow> main_wnd_data \<Rightarrow> main_wnd_data res" where
  "options_dialog APP_NAME_KEY es d =
     bindr (options_init APP_NAME_KEY d) (\<lambda>dlg. bindr (options_run es (Some dlg, d)) (\<lambda>(_, d'). Inr d'))"

section \<open>The registry\<close>

text \<open>
  The values of the program's key, absent when the key is; the values of the key of the programs
  that start with the system. A handle carries the access it was opened with, and only one with
  the right to set values changes any.
\<close>

record registry =
  app_key :: "(string \<rightharpoonup> string) option"
  run_key :: "(string \<rightharpoonup> string) option"

record registry_api =
  open_write :: bool
  create_key :: bool
  undefined_data :: "string \<Rightarrow> string \<Rightarrow> string"
  exe_file_path :: string
  APP_NAME_KEY :: string

definition int_bytes :: "int \<Rightarrow> string" where
  "int_bytes v = map (\<lambda>k. char_of (nat (v div 256 ^ k mod 256))) [0, 1, 2, 3]"

definition bytes_int :: "string \<Rightarrow> int" where
  "bytes_int bs = int32 (\<Sum>k \<leftarrow> [0, 1, 2, 3]. int (of_char (bs ! k)) * 256 ^ k)"

text \<open>
  \<open>RegQueryValueExW\<close> of a binary value into a buffer: nothing changes without the value; data that
  does not fit leaves the buffer undefined.
\<close>

definition reg_query :: "registry_api \<Rightarrow> (string \<rightharpoonup> string) \<Rightarrow> string \<Rightarrow> string \<Rightarrow> string" where
  "reg_query api values name buf =
     (case values name of
        None \<Rightarrow> buf
      | Some data \<Rightarrow> if length data \<le> length buf then data @ drop (length data) buf else undefined_data api name buf)"

definition reg_query_int :: "registry_api \<Rightarrow> (string \<rightharpoonup> string) \<Rightarrow> string \<Rightarrow> int \<Rightarrow> int" where
  "reg_query_int api values name v = bytes_int (reg_query api values name (int_bytes v))"

text \<open>\<open>on_wm_create\<close>: the defaults, and what the registry changes of them; the selection comes apart.\<close>

definition default_settings :: "main_wnd_data \<Rightarrow> main_wnd_data" where
  "default_settings d =
     d\<lparr>auto_connect := 0, auto_run := 0,
       ssr_listen_host := buffer_write ''127.0.0.1'' (replicate MAX_PATH NUL), ssr_listen_port := 0,
       http_proxy_listen_host := buffer_write HTTP_PROXY_LISTEN_ADDR (replicate MAX_PATH NUL),
       http_proxy_listen_port := HTTP_PROXY_LISTEN_PORT,
       delay_quit_ms := SSR_DELAY_QUIT_MIN, change_inet_opts := 1\<rparr>"

definition load_settings :: "registry_api \<Rightarrow> registry \<Rightarrow> main_wnd_data \<Rightarrow> int \<times> main_wnd_data" where
  "load_settings api reg d =
     (case app_key reg of
        None \<Rightarrow> (- 1, d)
      | Some values \<Rightarrow>
          (reg_query_int api values ''cur_selected'' (- 1),
           d\<lparr>auto_connect := reg_query_int api values ''auto_connect'' (auto_connect d),
             ssr_listen_host := reg_query api values ''ssr_listen_host'' (ssr_listen_host d),
             ssr_listen_port := reg_query_int api values ''ssr_listen_port'' (ssr_listen_port d),
             http_proxy_listen_host := reg_query api values ''http_proxy_listen_host'' (http_proxy_listen_host d),
             http_proxy_listen_port := reg_query_int api values ''http_proxy_listen_port'' (http_proxy_listen_port d),
             delay_quit_ms := reg_query_int api values ''delay_quit_ms'' (delay_quit_ms d),
             change_inet_opts := reg_query_int api values ''change_inet_opts'' (change_inet_opts d)\<rparr>))"

definition load_auto_run :: "registry_api \<Rightarrow> registry \<Rightarrow> main_wnd_data \<Rightarrow> main_wnd_data" where
  "load_auto_run api reg d =
     (case run_key reg of
        None \<Rightarrow> d
      | Some values \<Rightarrow>
          (let path = reg_query api values (APP_NAME_KEY api) (replicate MAX_PATH NUL)
           in d\<lparr>auto_run := of_bool (exe_file_path api = buffer_text path)\<rparr>))"

text \<open>\<open>on_wm_destroy\<close>: a key that has to be created is opened with no access rights.\<close>

datatype reg_disposition = REG_CREATED_NEW_KEY | REG_OPENED_EXISTING_KEY

definition open_app_key :: "registry_api \<Rightarrow> registry \<Rightarrow> (bool \<times> reg_disposition) option \<times> registry" where
  "open_app_key api reg =
     (if app_key reg \<noteq> None \<and> open_write api then (Some (True, REG_CREATED_NEW_KEY), reg)
      else if \<not> create_key api then (None, reg)
      else (Some (False, if app_key reg = None then REG_CREATED_NEW_KEY else REG_OPENED_EXISTING_KEY),
            if app_key reg = None then reg\<lparr>app_key := Some Map.empty\<rparr> else reg))"

definition RegSetValue :: "bool \<Rightarrow> string \<Rightarrow> string \<Rightarrow> (string \<rightharpoonup> string) \<Rightarrow> (string \<rightharpoonup> string)" where
  "RegSetValue writable name data values = (if writable then values(name \<mapsto> data) else values)"

definition setting_values :: "main_wnd_data \<Rightarrow> (string \<times> string) list" where
  "setting_values d =
     [(''cur_selected'', int_bytes (cur_selected d)),
      (''auto_connect'', int_bytes (auto_connect d)),
      (''ssr_listen_host'', ssr_listen_host d),
      (''ssr_listen_port'', int_bytes (ssr_listen_port d)),
      (''http_proxy_listen_host'', http_proxy_listen_host d),
      (''http_proxy_listen_port'', int_bytes (http_proxy_listen_port d)),
      (''delay_quit_ms'', int_bytes (delay_quit_ms d)),
      (''change_inet_opts'', int_bytes (change_inet_opts d))]"

definition save_settings :: "registry_api \<Rightarrow> main_wnd_data \<Rightarrow> registry \<Rightarrow> registry" where
  "save_settings api d reg0 =
     (case open_app_key api reg0 of
        (None, reg) \<Rightarrow> reg
      | (Some (writable, state), reg) \<Rightarrow>
          if state \<noteq> REG_CREATED_NEW_KEY then reg
          else reg\<lparr>app_key := map_option
                 (fold (\<lambda>(name, data). RegSetValue writable name data) (setting_values d)) (app_key reg)\<rparr>)"

definition save_auto_run :: "registry_api \<Rightarrow> main_wnd_data \<Rightarrow> registry \<Rightarrow> registry" where
  "save_auto_run api d reg =
     (if run_key reg = None \<or> \<not> open_write api then reg
      else reg\<lparr>run_key := map_option (\<lambda>values.
             if auto_run d \<noteq> 0 then values(APP_NAME_KEY api \<mapsto> exe_file_path api @ [NUL])
             else values(APP_NAME_KEY api := None)) (run_key reg)\<rparr>)"

section \<open>Round trips\<close>

definition c_int :: "int \<Rightarrow> bool" where
  "c_int v \<longleftrightarrow> - (2 ^ 31) \<le> v \<and> v < 2 ^ 31"

lemma int32_mod: "int32 v = (v + 2 ^ 31) mod 2 ^ 32 - 2 ^ 31"
  by (simp add: int32_def signed_of_int signed_take_bit_eq_take_bit_shift take_bit_eq_mod)

lemma int32_c_int [simp]: "c_int v \<Longrightarrow> int32 v = v"
  by (simp add: c_int_def int32_mod)

lemma int32_cong: "v mod 2 ^ 32 = w mod 2 ^ 32 \<Longrightarrow> int32 v = int32 w"
  unfolding int32_mod by (metis mod_add_left_eq)

lemma length_int_bytes [simp]: "length (int_bytes v) = 4"
  by (simp add: int_bytes_def)

lemma byte_sum: "v mod 256 + (v div 256 mod 256) * 256 + (v div 65536 mod 256) * 65536
    + (v div 16777216 mod 256) * 16777216 = v mod 4294967296" for v :: int
  using zmod_zmult2_eq [of 256 v 256] zmod_zmult2_eq [of 256 v 65536] zmod_zmult2_eq [of 256 v 16777216]
  by simp

lemma byte_char: "int (of_char (char_of (nat (v mod 256)) :: char)) = (v :: int) mod 256"
proof -
  have "nat (v mod 256) < 256" by (simp add: nat_less_iff)
  then show ?thesis by simp
qed

lemma bytes_sum_map: "(\<Sum>k \<leftarrow> [0, 1, 2, 3]. int (of_char (map (\<lambda>k. char_of (nat (v div 256 ^ k mod 256)) :: char) [0::nat, 1, 2, 3] ! k)) * 256 ^ k) = v mod 4294967296"
proof -
  have "map (\<lambda>k. char_of (nat (v div 256 ^ k mod 256)) :: char) [0::nat, 1, 2, 3]
    = [char_of (nat (v mod 256)), char_of (nat (v div 256 mod 256)), char_of (nat (v div 65536 mod 256)), char_of (nat (v div 16777216 mod 256))]"
    by (simp only: list.map) simp
  then show ?thesis unfolding byte_sum [symmetric] by (simp add: byte_char del: char_of_mod_256 of_char_of)
qed

lemma bytes_int_int_bytes [simp]:
  assumes "c_int v" shows "bytes_int (int_bytes v) = v"
proof -
  have "bytes_int (int_bytes v) = int32 (v mod 2 ^ 32)"
    unfolding bytes_int_def int_bytes_def bytes_sum_map by simp
  also have "\<dots> = int32 v" by (rule int32_cong) simp
  finally show ?thesis using assms by simp
qed

lemma GetDlgItemInt_SetDlgItemInt [simp]:
  assumes "c_int v" shows "GetDlgItemInt (SetDlgItemInt v) = v"
proof -
  let ?t = "show_nat (nat (v mod 2 ^ 32))"
  have "dropWhile (\<lambda>c. c = CHR '' '') ?t = ?t"
  proof (cases ?t)
    case (Cons c cs)
    then have "is_digit c" using show_nat_digits [of c "nat (v mod 2 ^ 32)"] by simp
    then have "c \<noteq> CHR '' ''" by (auto simp: is_digit_def)
    with Cons show ?thesis by simp
  qed simp
  then have "GetDlgItemInt (SetDlgItemInt v) = int32 (v mod 2 ^ 32)"
    by (simp add: GetDlgItemInt_def SetDlgItemInt_def read_show_nat)
  also have "\<dots> = int32 v" by (rule int32_cong) simp
  finally show ?thesis using assms by simp
qed

lemma GetDlgItemTextA_unchanged:
  "NUL \<in> set buf \<Longrightarrow> GetDlgItemTextA (buffer_text buf) buf = buf"
  using buffer_text_length [of buf]
  by (simp add: GetDlgItemTextA_def lstrcpyn_id fits_def buffer_split)

text \<open>What the window keeps of its settings: integers of 32 bits and buffers of 260 bytes.\<close>

definition settings_ok :: "main_wnd_data \<Rightarrow> bool" where
  "settings_ok d \<longleftrightarrow> c_int (cur_selected d) \<and> c_int (auto_connect d) \<and> c_int (ssr_listen_port d)
     \<and> c_int (http_proxy_listen_port d) \<and> c_int (delay_quit_ms d) \<and> c_int (change_inet_opts d)
     \<and> length (ssr_listen_host d) = MAX_PATH \<and> length (http_proxy_listen_host d) = MAX_PATH"

lemma reg_query_found [simp]: "values name = Some data \<Longrightarrow> length data = length buf \<Longrightarrow> reg_query api values name buf = data"
  by (simp add: reg_query_def)

lemma fold_RegSetValue:
  "distinct (map fst ds) \<Longrightarrow> (name, data) \<in> set ds \<Longrightarrow>
     fold (\<lambda>(name, data). RegSetValue True name data) ds vals name = Some data"
proof (induction ds arbitrary: vals rule: rev_induct)
  case (snoc e es)
  then show ?case by (cases e) (force simp: RegSetValue_def)
qed simp

lemma fold_RegSetValue_denied: "fold (\<lambda>(name, data). RegSetValue False name data) ds values = values"
  by (induction ds) (auto simp: RegSetValue_def)

lemma default_settings_ok: "settings_ok (default_settings d\<lparr>cur_selected := c\<rparr>) \<longleftrightarrow> c_int c"
  by (auto simp: settings_ok_def default_settings_def c_int_def SSR_DELAY_QUIT_MIN_def HTTP_PROXY_LISTEN_PORT_def
      HTTP_PROXY_LISTEN_ADDR_def)

definition same_settings :: "main_wnd_data \<Rightarrow> main_wnd_data \<Rightarrow> bool" where
  "same_settings d d' \<longleftrightarrow> auto_connect d' = auto_connect d \<and> ssr_listen_host d' = ssr_listen_host d
     \<and> ssr_listen_port d' = ssr_listen_port d \<and> http_proxy_listen_host d' = http_proxy_listen_host d
     \<and> http_proxy_listen_port d' = http_proxy_listen_port d \<and> delay_quit_ms d' = delay_quit_ms d
     \<and> change_inet_opts d' = change_inet_opts d"

lemma saved_settings_load:
  assumes key: "app_key reg = Some values" "open_write api"
    and d: "settings_ok d" and d0: "length (ssr_listen_host d0) = MAX_PATH" "length (http_proxy_listen_host d0) = MAX_PATH"
  shows "fst (load_settings api (save_settings api d reg) d0) = cur_selected d
    \<and> same_settings d (snd (load_settings api (save_settings api d reg) d0))"
proof -
  let ?vs = "fold (\<lambda>(name, data). RegSetValue True name data) (setting_values d) values"
  have saved: "app_key (save_settings api d reg) = Some ?vs"
    using key by (simp add: save_settings_def open_app_key_def)
  have stored: "?vs name = Some data" if "(name, data) \<in> set (setting_values d)" for name data
    by (rule fold_RegSetValue [OF _ that]) (simp add: setting_values_def)
  have "?vs ''cur_selected'' = Some (int_bytes (cur_selected d))"
    "?vs ''auto_connect'' = Some (int_bytes (auto_connect d))"
    "?vs ''ssr_listen_host'' = Some (ssr_listen_host d)"
    "?vs ''ssr_listen_port'' = Some (int_bytes (ssr_listen_port d))"
    "?vs ''http_proxy_listen_host'' = Some (http_proxy_listen_host d)"
    "?vs ''http_proxy_listen_port'' = Some (int_bytes (http_proxy_listen_port d))"
    "?vs ''delay_quit_ms'' = Some (int_bytes (delay_quit_ms d))"
    "?vs ''change_inet_opts'' = Some (int_bytes (change_inet_opts d))"
    by (rule stored, simp add: setting_values_def)+
  with d d0 show ?thesis
    by (simp add: load_settings_def saved same_settings_def settings_ok_def reg_query_int_def)
qed


definition demo_registry_api :: registry_api where
  "demo_registry_api = \<lparr>open_write = True, create_key = True, undefined_data = (\<lambda>n b. b),
     exe_file_path = ''C:/ssrWin.exe'', APP_NAME_KEY = ''ssrWin''\<rparr>"

lemma demo_window_settings: "settings_ok demo_window"
  by (simp add: settings_ok_def c_int_def demo_window_def)


text \<open>
  The first exit saves nothing. When the program's key does not exist it is created without
  access rights and every value written through its handle is refused: whatever the settings were,
  the next window finds an empty key or none, keeps the settings it starts with and selects no server.
\<close>

theorem first_exit_saves_nothing:
  assumes none: "app_key reg = None" and d0: "settings_ok d0"
  shows "app_key (save_settings api d reg) = (if create_key api then Some Map.empty else None)
    \<and> fst (load_settings api (save_settings api d reg) d0) = - 1
    \<and> same_settings d0 (snd (load_settings api (save_settings api d reg) d0))"
proof -
  have key: "app_key (save_settings api d reg) = (if create_key api then Some Map.empty else None)"
    using none by (simp add: save_settings_def open_app_key_def fold_RegSetValue_denied)
  have absent: "reg_query_int api Map.empty name v = v" if "c_int v" for name v
    using that by (simp add: reg_query_int_def reg_query_def)
  have "c_int (- 1)" by (simp add: c_int_def)
  with d0 key show ?thesis
    by (auto simp: load_settings_def same_settings_def settings_ok_def absent reg_query_def)
qed

lemma first_exit_saves_nothing_witness:
  "app_key (save_settings demo_registry_api demo_window \<lparr>app_key = None, run_key = None\<rparr>) = Some Map.empty"
  using first_exit_saves_nothing [OF _ demo_window_settings, of "\<lparr>app_key = None, run_key = None\<rparr>" demo_registry_api]
  by (simp add: demo_registry_api_def)

text \<open>The options dialog, from its opening to the button that closes it.\<close>

definition switches_ok :: "main_wnd_data \<Rightarrow> bool" where
  "switches_ok d \<longleftrightarrow> auto_run d \<in> {0, 1} \<and> auto_connect d \<in> {0, 1} \<and> change_inet_opts d \<in> {0, 1}
     \<and> NUL \<in> set (ssr_listen_host d) \<and> NUL \<in> set (http_proxy_listen_host d)"

lemma options_init_ok:
  assumes "switches_ok d" "length name < 236"
  shows "options_init name d = Inr
    \<lparr>CHK_AUTO_RUN = (auto_run d \<noteq> 0), CHK_AUTO_CONN = (auto_connect d \<noteq> 0),
     EDT_SSR_HOST = buffer_text (ssr_listen_host d), EDT_SSR_PORT = SetDlgItemInt (ssr_listen_port d),
     EDT_HTTP_PROXY_HOST = buffer_text (http_proxy_listen_host d),
     EDT_HTTP_PROXY_PORT = SetDlgItemInt (http_proxy_listen_port d),
     EDT_DELAY_MS = SetDlgItemInt (delay_quit_ms d), CHK_CHANGE_INET_OPTS = (change_inet_opts d \<noteq> 0)\<rparr>"
  using assms by (simp add: options_init_def auto_run_label_def Let_def buffer_string_def switches_ok_def)

lemma reset_ints: "GetDlgItemInt ''0'' = 0"
  by (simp add: GetDlgItemInt_def is_digit_def digit_val_def int32_def)

lemma default_texts:
  "length buf = MAX_PATH \<Longrightarrow> buffer_string (GetDlgItemTextA ''127.0.0.1'' buf) = Inr ''127.0.0.1''"
  by (simp add: GetDlgItemTextA_def lstrcpyn_id fits_def NUL_def)

text \<open>
  The options dialog. Opening it and pressing OK changes no setting; pressing Reset and then OK
  leaves the settings a window is created with: no automatic start or connection, both hosts the
  loopback address, the client's port 0, the proxy's 8118, the least delay, and the system setting
  changed; Cancel changes nothing whatever was edited before.
\<close>

theorem options_dialog_outcomes:
  assumes ok: "settings_ok d" "switches_ok d" and name: "length name < 236"
  shows "options_dialog name [Options_IDOK] d = Inr d
    \<and> (\<exists>d'. options_dialog name [IDC_BTN_RESET, Options_IDOK] d = Inr d'
       \<and> auto_run d' = 0 \<and> auto_connect d' = 0 \<and> buffer_string (ssr_listen_host d') = Inr ''127.0.0.1''
       \<and> ssr_listen_port d' = 0 \<and> buffer_string (http_proxy_listen_host d') = Inr HTTP_PROXY_LISTEN_ADDR
       \<and> http_proxy_listen_port d' = HTTP_PROXY_LISTEN_PORT \<and> delay_quit_ms d' = SSR_DELAY_QUIT_MIN
       \<and> change_inet_opts d' = 1)
    \<and> options_dialog name [Options_Edit dlg, Options_IDCANCEL] d = Inr d"
proof (intro conjI)
  note init = options_init_ok [OF ok(2) name]
  have bools: "of_bool (auto_run d \<noteq> 0) = auto_run d" "of_bool (auto_connect d \<noteq> 0) = auto_connect d"
    "of_bool (change_inet_opts d \<noteq> 0) = change_inet_opts d"
    using ok(2) by (auto simp: switches_ok_def)
  show "options_dialog name [Options_IDOK] d = Inr d"
    using ok bools by (simp add: options_dialog_def init OptionsDlgProc_def options_ok_def switches_ok_def
        GetDlgItemTextA_unchanged settings_ok_def)
  have "c_int HTTP_PROXY_LISTEN_PORT" "c_int SSR_DELAY_QUIT_MIN"
    by (simp_all add: c_int_def HTTP_PROXY_LISTEN_PORT_def SSR_DELAY_QUIT_MIN_def)
  then show "\<exists>d'. options_dialog name [IDC_BTN_RESET, Options_IDOK] d = Inr d'
       \<and> auto_run d' = 0 \<and> auto_connect d' = 0 \<and> buffer_string (ssr_listen_host d') = Inr ''127.0.0.1''
       \<and> ssr_listen_port d' = 0 \<and> buffer_string (http_proxy_listen_host d') = Inr HTTP_PROXY_LISTEN_ADDR
       \<and> http_proxy_listen_port d' = HTTP_PROXY_LISTEN_PORT \<and> delay_quit_ms d' = SSR_DELAY_QUIT_MIN
       \<and> change_inet_opts d' = 1"
    using ok(1) by (simp add: options_dialog_def init OptionsDlgProc_def options_ok_def options_reset_def
        default_texts reset_ints settings_ok_def HTTP_PROXY_LISTEN_ADDR_def)
  show "options_dialog name [Options_Edit dlg, Options_IDCANCEL] d = Inr d"
    by (simp add: options_dialog_def init OptionsDlgProc_def)
qed

lemma options_dialog_outcomes_witness:
  "options_dialog ''ssrWin'' [Options_IDOK] demo_window = Inr demo_window"
proof -
  have "switches_ok demo_window" by (simp add: switches_ok_def demo_window_def NUL_def)
  from options_dialog_outcomes [OF demo_window_settings this] show ?thesis by simp
qed

end
