(* ===== verification/Config_Dialog.thy ===== *)
theory Config_Dialog
  imports Window_Options
begin

text \<open>
  The dialog that shows and edits one server (main.c): the combo boxes filled from the client
  library's names, the fields as wide texts, and the way back into the configuration. The code page
  conversions, the allocator and the library's names are the record \<open>dlg_env\<close>.
\<close>

section \<open>Controls\<close>

record dlg_env =
  d_MultiByteToWideChar :: "string \<Rightarrow> wstr"
  d_WideCharToMultiByte :: "wstr \<Rightarrow> string"
  d_window_text_ansi :: "wstr \<Rightarrow> string"
  d_mallocs :: "nat \<Rightarrow> bool"
  ss_cipher_names :: "string option list"
  ssr_protocol_names :: "string option list"
  ssr_obfs_names :: "string option list"
  d_string_safe_assign :: "string option \<Rightarrow> string option \<Rightarrow> string option"

definition to_wide :: "dlg_env \<Rightarrow> string option \<Rightarrow> wstr option" where
  "to_wide env = utf8_to_wchar_string (d_MultiByteToWideChar env) (Some (d_mallocs env))"

definition to_utf8 :: "dlg_env \<Rightarrow> wstr option \<Rightarrow> string option" where
  "to_utf8 env = wchar_string_to_utf8 (d_WideCharToMultiByte env) (Some (d_mallocs env))"

text \<open>A drop-down list shows the selected item's text, nothing when none is selected.\<close>

record combo =
  combo_items :: "wstr list"
  combo_cur_sel :: "nat option"

definition combo_text :: "combo \<Rightarrow> wstr" where
  "combo_text c = (case combo_cur_sel c of Some i \<Rightarrow> combo_items c ! i | None \<Rightarrow> [])"

record config_dlg =
  EDT_REMARKS :: wstr
  EDT_SERVER_ADDR :: wstr
  EDT_SERVER_PORT :: wstr
  EDT_PASSWORD :: wstr
  CMB_ENCRYPTION :: combo
  CMB_PROTOCOL :: combo
  EDT_PROTOCOL_PARAM :: wstr
  CMB_OBFS :: combo
  EDT_OBFS_PARAM :: wstr
  STC_OT_ENABLE :: bool
  EDT_OT_DOMAIN :: wstr
  EDT_OT_PATH :: wstr

text \<open>The names of an enumeration: values without a name are left out.\<close>

fun add_names :: "dlg_env \<Rightarrow> string option list \<Rightarrow> combo \<Rightarrow> combo" where
  "add_names env [] c = c"
| "add_names env (None # ns) c = add_names env ns c"
| "add_names env (Some name # ns) c =
     add_names env ns (case to_wide env (Some name) of
       Some tmp \<Rightarrow> c\<lparr>combo_items := combo_items c @ [tmp]\<rparr> | None \<Rightarrow> c)"

definition empty_combo :: combo where
  "empty_combo = \<lparr>combo_items = [], combo_cur_sel = None\<rparr>"

definition config_dlg_init :: "dlg_env \<Rightarrow> config_dlg" where
  "config_dlg_init env =
     \<lparr>EDT_REMARKS = [], EDT_SERVER_ADDR = [], EDT_SERVER_PORT = [], EDT_PASSWORD = [],
      CMB_ENCRYPTION = add_names env (ss_cipher_names env) empty_combo,
      CMB_PROTOCOL = add_names env (ssr_protocol_names env) empty_combo, EDT_PROTOCOL_PARAM = [],
      CMB_OBFS = add_names env (ssr_obfs_names env) empty_combo, EDT_OBFS_PARAM = [],
      STC_OT_ENABLE = False, EDT_OT_DOMAIN = [], EDT_OT_PATH = []\<rparr>"

text \<open>The loop copies each item into a buffer of \<open>MAX_PATH\<close> characters and stops at the first match.\<close>

fun find_item :: "wstr \<Rightarrow> nat \<Rightarrow> wstr list \<Rightarrow> nat option res" where
  "find_item cur_sel index [] = Inr None"
| "find_item cur_sel index (x # xs) =
     bindr (copy_into MAX_PATH x) (\<lambda>lbstr.
       if lbstr = cur_sel then Inr (Some index) else find_item cur_sel (Suc index) xs)"

definition combo_box_set_cur_sel :: "wstr \<Rightarrow> combo \<Rightarrow> combo res" where
  "combo_box_set_cur_sel cur_sel c =
     bindr (find_item cur_sel 0 (combo_items c)) (\<lambda>r.
       Inr (case r of Some index \<Rightarrow> c\<lparr>combo_cur_sel := Some index\<rparr> | None \<Rightarrow> c))"

section \<open>Loading and saving\<close>

definition text_of :: "wstr option \<Rightarrow> wstr" where
  "text_of tmp = (case tmp of Some t \<Rightarrow> t | None \<Rightarrow> [])"

definition load_config_to_dlg :: "dlg_env \<Rightarrow> server_config \<Rightarrow> config_dlg \<Rightarrow> config_dlg res" where
  "load_config_to_dlg env config dlg =
     (let w = (\<lambda>s. text_of (to_wide env s))
      in bindr (combo_box_set_cur_sel (w (cfg_method config)) (CMB_ENCRYPTION dlg)) (\<lambda>enc.
         bindr (combo_box_set_cur_sel (w (protocol config)) (CMB_PROTOCOL dlg)) (\<lambda>proto.
         bindr (combo_box_set_cur_sel (w (obfs config)) (CMB_OBFS dlg)) (\<lambda>ob.
           Inr (dlg\<lparr>EDT_REMARKS := w (remarks config), EDT_SERVER_ADDR := w (remote_host config),
                    EDT_SERVER_PORT := L (show_int (remote_port config)),
                    EDT_PASSWORD := w (password config), CMB_ENCRYPTION := enc, CMB_PROTOCOL := proto,
                    EDT_PROTOCOL_PARAM := w (protocol_param config), CMB_OBFS := ob,
                    EDT_OBFS_PARAM := w (obfs_param config), STC_OT_ENABLE := over_tls_enable config,
                    EDT_OT_DOMAIN := w (over_tls_server_domain config),
                    EDT_OT_PATH := w (over_tls_path config)\<rparr>)))))"

text \<open>\<open>strtol (s, NULL, 10)\<close> with a \<open>long\<close> of 32 bits, which it saturates.\<close>

definition strtol10 :: "string \<Rightarrow> int" where
  "strtol10 s =
     (let t = dropWhile (\<lambda>c. c = CHR '' '' \<or> (9 \<le> (of_char c :: nat) \<and> (of_char c :: nat) \<le> 13)) s;
          v = (case t of
                 c # cs \<Rightarrow> if c = CHR ''-'' then - int (read_nat 0 cs)
                           else if c = CHR ''+'' then int (read_nat 0 cs) else int (read_nat 0 t)
               | [] \<Rightarrow> 0)
      in max (- (2 ^ 31)) (min (2 ^ 31 - 1) v))"

definition save_dlg_to_config :: "dlg_env \<Rightarrow> config_dlg \<Rightarrow> server_config \<Rightarrow> server_config" where
  "save_dlg_to_config env dlg config =
     (let assign = d_string_safe_assign env;
          utf8 = (\<lambda>t. case to_utf8 env (Some (lstrcpyn MAX_PATH t)) of Some s \<Rightarrow> Some s | None \<Rightarrow> Some []);
          ansi = (\<lambda>t. lstrcpyn MAX_PATH (d_window_text_ansi env t))
      in config\<lparr>remarks := assign (remarks config) (utf8 (EDT_REMARKS dlg)),
           remote_host := assign (remote_host config) (utf8 (EDT_SERVER_ADDR dlg)),
           remote_port := strtol10 (ansi (EDT_SERVER_PORT dlg)) mod 65536,
           password := assign (password config) (utf8 (EDT_PASSWORD dlg)),
           cfg_method := assign (cfg_method config) (Some (ansi (combo_text (CMB_ENCRYPTION dlg)))),
           protocol := assign (protocol config) (Some (ansi (combo_text (CMB_PROTOCOL dlg)))),
           protocol_param := assign (protocol_param config) (utf8 (EDT_PROTOCOL_PARAM dlg)),
           obfs := assign (obfs config) (Some (ansi (combo_text (CMB_OBFS dlg)))),
           obfs_param := assign (obfs_param config) (utf8 (EDT_OBFS_PARAM dlg)),
           over_tls_enable := STC_OT_ENABLE dlg,
           over_tls_server_domain := assign (over_tls_server_domain config) (utf8 (EDT_OT_DOMAIN dlg)),
           over_tls_path := assign (over_tls_path config) (utf8 (EDT_OT_PATH dlg))\<rparr>)"

text \<open>
  The dialog procedure: the controls while the dialog is open, then whether it was closed with OK.
  \<open>config\<close> is the static pointer; null is not edited and the buttons reset it.
\<close>

datatype config_event = Config_Edit config_dlg | Config_IDOK | Config_IDCANCEL

datatype 'c dialog_state = Dialog_Open 'c | Dialog_Ended bool

definition ConfigDetailsDlgProc ::
  "dlg_env \<Rightarrow> config_event \<Rightarrow> config_dlg dialog_state \<times> server_config option
     \<Rightarrow> config_dlg dialog_state \<times> server_config option" where
  "ConfigDetailsDlgProc env e s =
     (case s of
        (Dialog_Ended ok, config) \<Rightarrow> s
      | (Dialog_Open dlg, config) \<Rightarrow>
          (case e of
             Config_Edit dlg' \<Rightarrow> (Dialog_Open dlg', config)
           | Config_IDOK \<Rightarrow> (Dialog_Ended True, map_option (save_dlg_to_config env dlg) config)
           | Config_IDCANCEL \<Rightarrow> (Dialog_Ended False, config)))"

definition config_dialog ::
  "dlg_env \<Rightarrow> config_event list \<Rightarrow> server_config option \<Rightarrow> (config_dlg dialog_state \<times> server_config option) res" where
  "config_dialog env es config =
     bindr (case config of Some c \<Rightarrow> load_config_to_dlg env c (config_dlg_init env) | None \<Rightarrow> Inr (config_dlg_init env))
       (\<lambda>dlg. Inr (foldl (\<lambda>s e. ConfigDetailsDlgProc env e s) (Dialog_Open dlg, config) es))"

section \<open>What the dialog carries over\<close>

text \<open>Texts that survive the way into an edit control and back, and names the combo boxes offer.\<close>

definition editable :: "dlg_env \<Rightarrow> string \<Rightarrow> bool" where
  "editable env s \<longleftrightarrow> s = [] \<or>
     (d_MultiByteToWideChar env s \<noteq> [] \<and> length (d_MultiByteToWideChar env s) < MAX_PATH
      \<and> d_WideCharToMultiByte env (d_MultiByteToWideChar env s) = s)"

definition listed :: "dlg_env \<Rightarrow> string option list \<Rightarrow> string \<Rightarrow> bool" where
  "listed env names s \<longleftrightarrow> Some s \<in> set names \<and> s \<noteq> [] \<and> length s < MAX_PATH
     \<and> d_MultiByteToWideChar env s \<noteq> [] \<and> d_window_text_ansi env (d_MultiByteToWideChar env s) = s"

definition dlg_laws :: "dlg_env \<Rightarrow> bool" where
  "dlg_laws env \<longleftrightarrow> (\<forall>n. d_mallocs env n) \<and> (\<forall>old new. d_string_safe_assign env old new = new)
     \<and> (\<forall>s. (\<forall>c \<in> set s. (of_char c :: nat) < 128) \<longrightarrow> d_window_text_ansi env (L s) = s)
     \<and> (\<forall>name \<in> set (ss_cipher_names env) \<union> set (ssr_protocol_names env) \<union> set (ssr_obfs_names env).
          \<forall>s. name = Some s \<longrightarrow> length (d_MultiByteToWideChar env s) < MAX_PATH)"

lemma add_names_items:
  "combo_items (add_names env ns c) = combo_items c @ List.map_filter (to_wide env) ns \<and>
     combo_cur_sel (add_names env ns c) = combo_cur_sel c"
  by (induction env ns c rule: add_names.induct)
    (auto simp: List.map_filter_simps to_wide_def utf8_to_wchar_string_def split: option.splits)

lemma set_map_filter: "x \<in> set (List.map_filter f xs) \<longleftrightarrow> (\<exists>y \<in> set xs. f y = Some x)"
  by (induction xs) (auto simp: List.map_filter_simps split: option.splits)

lemma to_wide_Some: "to_wide env s = Some w \<Longrightarrow> \<exists>t. s = Some t \<and> w = d_MultiByteToWideChar env t"
  by (auto simp: to_wide_def utf8_to_wchar_string_def Let_def split: option.splits if_splits)

lemma find_item_ok:
  "\<forall>x \<in> set xs. length x < MAX_PATH \<Longrightarrow> \<exists>r. find_item t k xs = Inr r
     \<and> (case r of None \<Rightarrow> t \<notin> set xs | Some i \<Rightarrow> k \<le> i \<and> i < k + length xs \<and> xs ! (i - k) = t)"
proof (induction xs arbitrary: k)
  case (Cons x xs)
  show ?case
  proof (cases "x = t")
    case False
    from Cons.IH [of "Suc k"] Cons.prems obtain r where r: "find_item t (Suc k) xs = Inr r"
      "case r of None \<Rightarrow> t \<notin> set xs | Some i \<Rightarrow> Suc k \<le> i \<and> i < Suc k + length xs \<and> xs ! (i - Suc k) = t"
      by auto
    show ?thesis
    proof (cases r)
      case (Some a)
      with r(2) have "a - k = Suc (a - Suc k)" "Suc k \<le> a" by auto
      with Some r False Cons.prems show ?thesis by simp
    qed (use r False Cons.prems in simp)
  qed (use Cons.prems in simp)
qed simp

lemma combo_select:
  assumes "\<forall>x \<in> set (combo_items c). length x < MAX_PATH" and "combo_cur_sel c = None"
  shows "\<exists>c'. combo_box_set_cur_sel t c = Inr c' \<and> combo_text c' = (if t \<in> set (combo_items c) then t else [])"
proof -
  from find_item_ok [OF assms(1), of t 0] obtain r where r: "find_item t 0 (combo_items c) = Inr r"
    "case r of None \<Rightarrow> t \<notin> set (combo_items c)
       | Some i \<Rightarrow> 0 \<le> i \<and> i < 0 + length (combo_items c) \<and> combo_items c ! (i - 0) = t"
    by blast
  then show ?thesis
    using assms(2) by (cases r) (auto simp: combo_box_set_cur_sel_def combo_text_def)
qed

text \<open>The combo box of a list of names after the configuration's own name was looked up in it.\<close>

lemma combo_of_names:
  assumes env: "dlg_laws env"
    and names: "set ns \<subseteq> set (ss_cipher_names env) \<union> set (ssr_protocol_names env) \<union> set (ssr_obfs_names env)"
  shows "\<exists>c. combo_box_set_cur_sel t (add_names env ns empty_combo) = Inr c
    \<and> combo_text c = (if t \<in> set (List.map_filter (to_wide env) ns) then t else [])"
proof -
  have "length x < MAX_PATH" if "x \<in> set (combo_items (add_names env ns empty_combo))" for x
  proof -
    from that have "x \<in> set (List.map_filter (to_wide env) ns)"
      by (simp add: add_names_items empty_combo_def)
    then obtain o' where "o' \<in> set ns" "to_wide env o' = Some x"
      by (auto simp: set_map_filter)
    with to_wide_Some obtain name where "Some name \<in> set ns" "x = d_MultiByteToWideChar env name" by blast
    with env names show ?thesis unfolding dlg_laws_def by blast
  qed
  moreover have "combo_cur_sel (add_names env ns empty_combo) = None"
    "combo_items (add_names env ns empty_combo) = List.map_filter (to_wide env) ns"
    by (simp_all add: add_names_items empty_combo_def)
  ultimately show ?thesis using combo_select [of "add_names env ns empty_combo" t] by simp
qed

lemma listed_combo:
  assumes "dlg_laws env" "listed env ns s"
  shows "text_of (to_wide env (Some s)) \<in> set (List.map_filter (to_wide env) ns)"
    "text_of (to_wide env (Some s)) = d_MultiByteToWideChar env s"
proof -
  have w: "to_wide env (Some s) = Some (d_MultiByteToWideChar env s)"
    using assms by (simp add: to_wide_def utf8_to_wchar_string_def Let_def listed_def dlg_laws_def)
  then show "text_of (to_wide env (Some s)) = d_MultiByteToWideChar env s" by (simp add: text_of_def)
  have "Some s \<in> set ns" using assms(2) by (simp add: listed_def)
  with w show "text_of (to_wide env (Some s)) \<in> set (List.map_filter (to_wide env) ns)"
    by (auto simp: set_map_filter text_of_def)
qed

lemma listed_name:
  assumes "dlg_laws env" "listed env ns s" "combo_text c = text_of (to_wide env (Some s))"
  shows "lstrcpyn MAX_PATH (d_window_text_ansi env (combo_text c)) = s"
  using assms listed_combo [OF assms(1,2)] by (simp add: listed_def lstrcpyn_id fits_def)

lemma editable_text:
  assumes "dlg_laws env" "editable env s"
  shows "(case to_utf8 env (Some (lstrcpyn MAX_PATH (text_of (to_wide env (Some s))))) of
      Some x \<Rightarrow> Some x | None \<Rightarrow> Some []) = Some s"
  using assms
  by (auto simp: editable_def dlg_laws_def to_utf8_def to_wide_def text_of_def utf8_to_wchar_string_def
      wchar_string_to_utf8_def Let_def lstrcpyn_id fits_def)

lemma editable_none: "dlg_laws env \<Longrightarrow> (case to_utf8 env (Some (lstrcpyn MAX_PATH (text_of (to_wide env None)))) of
      Some x \<Rightarrow> Some x | None \<Rightarrow> Some []) = Some []"
  by (simp add: to_utf8_def to_wide_def text_of_def utf8_to_wchar_string_def wchar_string_to_utf8_def)

lemma port_text:
  assumes "dlg_laws env" "0 \<le> p" "p < 65536"
  shows "strtol10 (lstrcpyn MAX_PATH (d_window_text_ansi env (L (show_int p)))) mod 65536 = p"
proof -
  let ?t = "show_nat (nat p)"
  have shown: "show_int p = ?t" using assms(2) by (simp add: show_int_def)
  have ascii: "(of_char c :: nat) < 128" if "c \<in> set ?t" for c
    using show_nat_digits [OF that] by (simp add: is_digit_def)
  have "nat p < 10 ^ Suc 4" using assms(2,3) by simp
  from show_nat_bound [OF this] have len: "length ?t < MAX_PATH" by simp
  have ansi: "lstrcpyn MAX_PATH (d_window_text_ansi env (L ?t)) = ?t"
    using assms(1) ascii len by (simp add: dlg_laws_def lstrcpyn_id fits_def)
  obtain c cs where t: "?t = c # cs"
    by (cases ?t) (auto simp: show_nat.simps [of "nat p"] split: if_splits)
  then have c: "is_digit c" using show_nat_digits [of c "nat p"] by simp
  then have "c \<noteq> CHR ''-''" "c \<noteq> CHR ''+''" "c \<noteq> CHR '' ''" "\<not> (of_char c :: nat) \<le> 13"
    by (auto simp: is_digit_def)
  then have "strtol10 ?t = int (read_nat 0 ?t)" if "int (read_nat 0 ?t) < 2 ^ 31"
    using that by (simp add: strtol10_def t Let_def)
  then have "strtol10 ?t = p" using assms(2,3) by (simp add: read_show_nat)
  with assms(2,3) show ?thesis by (simp add: shown ansi)
qed

lemma load_config_ok:
  assumes env: "dlg_laws env"
  obtains enc proto ob where
    "load_config_to_dlg env c (config_dlg_init env) = Inr ((config_dlg_init env)\<lparr>
       EDT_REMARKS := text_of (to_wide env (remarks c)), EDT_SERVER_ADDR := text_of (to_wide env (remote_host c)),
       EDT_SERVER_PORT := L (show_int (remote_port c)), EDT_PASSWORD := text_of (to_wide env (password c)),
       CMB_ENCRYPTION := enc, CMB_PROTOCOL := proto,
       EDT_PROTOCOL_PARAM := text_of (to_wide env (protocol_param c)), CMB_OBFS := ob,
       EDT_OBFS_PARAM := text_of (to_wide env (obfs_param c)), STC_OT_ENABLE := over_tls_enable c,
       EDT_OT_DOMAIN := text_of (to_wide env (over_tls_server_domain c)),
       EDT_OT_PATH := text_of (to_wide env (over_tls_path c))\<rparr>)"
    "combo_text enc = (if text_of (to_wide env (cfg_method c)) \<in> set (List.map_filter (to_wide env) (ss_cipher_names env))
       then text_of (to_wide env (cfg_method c)) else [])"
    "combo_text proto = (if text_of (to_wide env (protocol c)) \<in> set (List.map_filter (to_wide env) (ssr_protocol_names env))
       then text_of (to_wide env (protocol c)) else [])"
    "combo_text ob = (if text_of (to_wide env (obfs c)) \<in> set (List.map_filter (to_wide env) (ssr_obfs_names env))
       then text_of (to_wide env (obfs c)) else [])"
proof -
  obtain enc where enc: "combo_box_set_cur_sel (text_of (to_wide env (cfg_method c)))
      (add_names env (ss_cipher_names env) empty_combo) = Inr enc"
    "combo_text enc = (if text_of (to_wide env (cfg_method c)) \<in> set (List.map_filter (to_wide env) (ss_cipher_names env))
       then text_of (to_wide env (cfg_method c)) else [])"
    using combo_of_names [OF env, of "ss_cipher_names env"] by blast
  obtain proto where proto: "combo_box_set_cur_sel (text_of (to_wide env (protocol c)))
      (add_names env (ssr_protocol_names env) empty_combo) = Inr proto"
    "combo_text proto = (if text_of (to_wide env (protocol c)) \<in> set (List.map_filter (to_wide env) (ssr_protocol_names env))
       then text_of (to_wide env (protocol c)) else [])"
    using combo_of_names [OF env, of "ssr_protocol_names env"] by blast
  obtain ob where ob: "combo_box_set_cur_sel (text_of (to_wide env (obfs c)))
      (add_names env (ssr_obfs_names env) empty_combo) = Inr ob"
    "combo_text ob = (if text_of (to_wide env (obfs c)) \<in> set (List.map_filter (to_wide env) (ssr_obfs_names env))
       then text_of (to_wide env (obfs c)) else [])"
    using combo_of_names [OF env, of "ssr_obfs_names env"] by blast
  show ?thesis
    by (rule that [OF _ enc(2) proto(2) ob(2)])
      (simp add: load_config_to_dlg_def config_dlg_init_def Let_def enc(1) proto(1) ob(1))
qed

definition editable_opt :: "dlg_env \<Rightarrow> string option \<Rightarrow> bool" where
  "editable_opt env s \<longleftrightarrow> (case s of None \<Rightarrow> True | Some t \<Rightarrow> editable env t)"

lemma editable_opt_text:
  assumes "dlg_laws env" "editable_opt env s"
  shows "(case to_utf8 env (Some (lstrcpyn MAX_PATH (text_of (to_wide env s)))) of
      Some x \<Rightarrow> Some x | None \<Rightarrow> Some []) = present s"
  using assms editable_text [OF assms(1)] editable_none [OF assms(1)]
  by (cases s) (simp_all add: editable_opt_def present_def)

definition representable :: "dlg_env \<Rightarrow> server_config \<Rightarrow> bool" where
  "representable env c \<longleftrightarrow>
     (\<forall>t \<in> {remarks c, password c, remote_host c, protocol_param c, obfs_param c,
             over_tls_server_domain c, over_tls_path c}. editable_opt env t)
   \<and> (\<exists>m. cfg_method c = Some m \<and> listed env (ss_cipher_names env) m)
   \<and> (\<exists>p. protocol c = Some p \<and> listed env (ssr_protocol_names env) p)
   \<and> (\<exists>ob. obfs c = Some ob \<and> listed env (ssr_obfs_names env) ob)
   \<and> 0 \<le> remote_port c \<and> remote_port c < 65536"

section \<open>Properties\<close>

text \<open>
  C16: Viewing a server's details and pressing OK keeps the server, when its texts survive the code
  pages and fit the dialog's buffers and its method, protocol and obfuscation are ones the library
  names; only absent texts become empty ones.
\<close>

theorem config_dialog_keeps:
  assumes env: "dlg_laws env" and c: "representable env c"
  shows "config_dialog env [Config_IDOK] (Some c) = Inr (Dialog_Ended True, Some (c\<lparr>
      remarks := present (remarks c), password := present (password c), remote_host := present (remote_host c),
      protocol_param := present (protocol_param c), obfs_param := present (obfs_param c),
      over_tls_server_domain := present (over_tls_server_domain c), over_tls_path := present (over_tls_path c)\<rparr>))"
proof -
  from c obtain m p ob where
    m: "cfg_method c = Some m" "listed env (ss_cipher_names env) m" and
    p: "protocol c = Some p" "listed env (ssr_protocol_names env) p" and
    ob: "obfs c = Some ob" "listed env (ssr_obfs_names env) ob" and
    port: "0 \<le> remote_port c" "remote_port c < 65536"
    unfolding representable_def by blast
  obtain enc proto obc where
    load: "load_config_to_dlg env c (config_dlg_init env) = Inr ((config_dlg_init env)\<lparr>
       EDT_REMARKS := text_of (to_wide env (remarks c)), EDT_SERVER_ADDR := text_of (to_wide env (remote_host c)),
       EDT_SERVER_PORT := L (show_int (remote_port c)), EDT_PASSWORD := text_of (to_wide env (password c)),
       CMB_ENCRYPTION := enc, CMB_PROTOCOL := proto,
       EDT_PROTOCOL_PARAM := text_of (to_wide env (protocol_param c)), CMB_OBFS := obc,
       EDT_OBFS_PARAM := text_of (to_wide env (obfs_param c)), STC_OT_ENABLE := over_tls_enable c,
       EDT_OT_DOMAIN := text_of (to_wide env (over_tls_server_domain c)),
       EDT_OT_PATH := text_of (to_wide env (over_tls_path c))\<rparr>)"
    and combos: "combo_text enc = text_of (to_wide env (Some m))" "combo_text proto = text_of (to_wide env (Some p))"
      "combo_text obc = text_of (to_wide env (Some ob))"
    by (rule load_config_ok [OF env, of c])
      (simp add: m(1) p(1) ob(1) listed_combo(1) [OF env m(2)] listed_combo(1) [OF env p(2)] listed_combo(1) [OF env ob(2)])
  have assign: "d_string_safe_assign env old new = new" for old new
    using env by (simp add: dlg_laws_def)
  have texts: "editable_opt env (remarks c)" "editable_opt env (password c)" "editable_opt env (remote_host c)"
    "editable_opt env (protocol_param c)" "editable_opt env (obfs_param c)"
    "editable_opt env (over_tls_server_domain c)" "editable_opt env (over_tls_path c)"
    using c unfolding representable_def by blast+
  have names: "lstrcpyn MAX_PATH (d_window_text_ansi env (combo_text enc)) = m"
    "lstrcpyn MAX_PATH (d_window_text_ansi env (combo_text proto)) = p"
    "lstrcpyn MAX_PATH (d_window_text_ansi env (combo_text obc)) = ob"
    using listed_name [OF env m(2) combos(1)] listed_name [OF env p(2) combos(2)]
      listed_name [OF env ob(2) combos(3)] by simp_all
  show ?thesis
    by (simp add: config_dialog_def load ConfigDetailsDlgProc_def save_dlg_to_config_def Let_def assign
        editable_opt_text [OF env] texts port_text [OF env port] names m(1) [symmetric] p(1) [symmetric]
        ob(1) [symmetric])
qed

text \<open>
  A method, protocol or obfuscation the library has no name for does not survive: the combo box
  selects nothing, and OK stores the empty string in its place.
\<close>

theorem unlisted_method_erased:
  assumes env: "dlg_laws env"
    and m: "text_of (to_wide env (cfg_method c)) \<notin> set (List.map_filter (to_wide env) (ss_cipher_names env))"
  shows "\<exists>c'. config_dialog env [Config_IDOK] (Some c) = Inr (Dialog_Ended True, Some c') \<and> cfg_method c' = Some []"
proof -
  have ansi: "d_window_text_ansi env [] = []" and assign: "d_string_safe_assign env old new = new" for old new
    using env by (auto simp: dlg_laws_def dest: spec [of _ "[]"])
  show ?thesis
    by (rule load_config_ok [OF env, of c])
      (simp add: config_dialog_def ConfigDetailsDlgProc_def save_dlg_to_config_def Let_def assign m ansi)
qed

definition demo_dlg_env :: dlg_env where
  "demo_dlg_env = \<lparr>d_MultiByteToWideChar = L, d_WideCharToMultiByte = map (\<lambda>w. char_of (unat w)),
     d_window_text_ansi = map (\<lambda>w. char_of (unat w)), d_mallocs = (\<lambda>n. True),
     ss_cipher_names = [Some ''none'', None, Some ''aes-128-ctr''], ssr_protocol_names = [Some ''origin''],
     ssr_obfs_names = [Some ''plain''], d_string_safe_assign = (\<lambda>old new. new)\<rparr>"

lemma char_of_word_of_char [simp]: "char_of (unat (of_char c :: 16 word)) = c"
proof -
  have "(of_char c :: 16 word) = of_nat (of_char c)" by (simp only: of_nat_of_char)
  then have "unat (of_char c :: 16 word) = of_char c mod 2 ^ LENGTH(16)" by (simp only: unat_of_nat)
  also have "\<dots> = of_char c" by (rule mod_less, rule less_trans [OF nat_of_char_less_256], simp)
  finally have "unat (of_char c :: 16 word) = of_char c" .
  then show ?thesis by simp
qed

lemma narrow_L [simp]: "map (\<lambda>w. char_of (unat w)) (L s) = s"
  by (induction s) (simp_all add: L_def)

lemma demo_dlg_laws: "dlg_laws demo_dlg_env"
  by (auto simp: dlg_laws_def demo_dlg_env_def)

lemma demo_representable: "representable demo_dlg_env demo_config"
  by (simp add: representable_def editable_opt_def editable_def listed_def demo_dlg_env_def demo_config_def)

lemma config_dialog_keeps_witness:
  "\<exists>c'. config_dialog demo_dlg_env [Config_IDOK] (Some demo_config) = Inr (Dialog_Ended True, Some c')
     \<and> remote_host c' = Some ''example.org'' \<and> over_tls_path c' = Some []"
  using config_dialog_keeps [OF demo_dlg_laws demo_representable]
  by (simp add: present_def demo_config_def)

lemma unlisted_method_erased_witness:
  "\<exists>c'. config_dialog demo_dlg_env [Config_IDOK] (Some (demo_config\<lparr>cfg_method := Some ''rc4''\<rparr>))
     = Inr (Dialog_Ended True, Some c') \<and> cfg_method c' = Some []"
  by (rule unlisted_method_erased [OF demo_dlg_laws])
    (simp add: demo_dlg_env_def to_wide_def utf8_to_wchar_string_def text_of_def List.map_filter_simps)

end
