(* ===== verification/Main_Window.thy ===== *)
theory Main_Window
  imports Config_Dialog
begin

text \<open>
  The main window (main.c): its log, what it does when it is created and destroyed, and its commands,
  composed from the server list, the dialogs, the settings and the client. The file store, the URL
  decoder and the answers of the user are arguments; a command that opens a dialog gets the events
  of that dialog.
\<close>

section \<open>The log\<close>

datatype verbosity = Off | Error | Warn | Info | Debug | Trace

definition MAX_LOG_LENGTH :: nat where
  "MAX_LOG_LENGTH = 10000 * 100"

definition crTextColor :: "verbosity \<Rightarrow> int \<times> int \<times> int" where
  "crTextColor v =
     (case v of
        Error \<Rightarrow> (255, 0, 0)
      | Warn \<Rightarrow> (168, 181, 50)
      | Info \<Rightarrow> (19, 161, 14)
      | Debug \<Rightarrow> (0, 55, 218)
      | _ \<Rightarrow> (58, 150, 221))"

text \<open>The log box holds runs of coloured text; its length is that of their texts.\<close>

definition log_text :: "((int \<times> int \<times> int) \<times> string) list \<Rightarrow> string" where
  "log_text b = concat (map snd b)"

definition put_string_to_rich_edit_control ::
  "bool \<Rightarrow> string \<Rightarrow> verbosity \<Rightarrow> ((int \<times> int \<times> int) \<times> string) list \<Rightarrow> ((int \<times> int \<times> int) \<times> string) list" where
  "put_string_to_rich_edit_control remove_old txt v b =
     (let b1 = (if remove_old \<and> length (log_text b) > MAX_LOG_LENGTH then [] else b)
      in b1 @ [(crTextColor v, txt)])"

text \<open>
  Other threads post lines to the window's queue. The line is copied into a buffer of its length and
  ten bytes; a line without its line feed gets one.
\<close>

definition dump_info_callback ::
  "verbosity \<Rightarrow> string \<Rightarrow> (verbosity \<times> string) list \<Rightarrow> (verbosity \<times> string) list res" where
  "dump_info_callback v info queue =
     (let len = length info
      in bindr (copy_into (len + 10)
                 (if 1 \<le> len \<and> info ! (len - 1) = newline then info else info @ [CHR 0x0D, newline])) (\<lambda>data.
           Inr (queue @ [(v, data)])))"

definition on_wm_dump_info ::
  "(verbosity \<times> string) list \<times> main_wnd_data \<Rightarrow> (verbosity \<times> string) list \<times> main_wnd_data" where
  "on_wm_dump_info s =
     (case s of
        ((v, data) # queue, d) \<Rightarrow> (queue, d\<lparr>log_box := put_string_to_rich_edit_control True data v (log_box d)\<rparr>)
      | ([], d) \<Rightarrow> ([], d))"

section \<open>Running the selected server\<close>

record 'j window_env =
  w_client :: client_env
  w_to_client :: "server_config \<Rightarrow> client_config"
  w_registry :: registry_api
  w_dialog :: dlg_env
  w_json :: "'j json_c"
  w_config :: config_api
  w_insert_ok :: "nat \<Rightarrow> bool"
  w_calloc_ok :: bool
  w_qr_decode :: "string \<Rightarrow> server_config option"

text \<open>The accessors other files read the settings through; without a window they give 0 or null.\<close>

definition get_ssr_listen_host :: "main_wnd_data option \<Rightarrow> string option" where
  "get_ssr_listen_host data = map_option ssr_listen_host data"

definition get_ssr_listen_port :: "main_wnd_data option \<Rightarrow> int" where
  "get_ssr_listen_port data = (case data of Some d \<Rightarrow> ssr_listen_port d | None \<Rightarrow> 0)"

definition get_http_proxy_listen_host :: "main_wnd_data option \<Rightarrow> string option" where
  "get_http_proxy_listen_host data = map_option http_proxy_listen_host data"

definition get_http_proxy_listen_port :: "main_wnd_data option \<Rightarrow> int" where
  "get_http_proxy_listen_port data = (case data of Some d \<Rightarrow> http_proxy_listen_port d | None \<Rightarrow> 0)"

definition get_delay_quit_ms :: "main_wnd_data option \<Rightarrow> int" where
  "get_delay_quit_ms data = (case data of Some d \<Rightarrow> delay_quit_ms d | None \<Rightarrow> 0)"

definition get_change_inet_opts :: "main_wnd_data option \<Rightarrow> int" where
  "get_change_inet_opts data = (case data of Some d \<Rightarrow> change_inet_opts d | None \<Rightarrow> 0)"

definition string_at :: "string option \<Rightarrow> string res" where
  "string_at p = (case p of None \<Rightarrow> Inl Null_Deref | Some buf \<Rightarrow> buffer_string buf)"

text \<open>What \<open>ssr_client_begin_run\<close> reads of the window before it starts.\<close>

definition client_options_of :: "main_wnd_data \<Rightarrow> client_options res" where
  "client_options_of d =
     bindr (string_at (get_ssr_listen_host (Some d))) (\<lambda>ssr_host.
       bindr (string_at (get_http_proxy_listen_host (Some d))) (\<lambda>http_host.
         Inr \<lparr>opt_ssr_listen_host = ssr_host, opt_ssr_listen_port = get_ssr_listen_port (Some d),
              opt_http_proxy_listen_host = http_host,
              opt_http_proxy_listen_port = get_http_proxy_listen_port (Some d),
              opt_delay_quit_ms = get_delay_quit_ms (Some d),
              opt_change_inet_opts = get_change_inet_opts (Some d)\<rparr>))"

text \<open>Starting the client with a row's server; a failure is shown in the log.\<close>

definition start_client :: "'j window_env \<Rightarrow> int \<Rightarrow> main_wnd_data \<Rightarrow> main_wnd_data res" where
  "start_client env index d =
     bindr (c_assert (client_ctx d = None)) (\<lambda>_.
       (case retrieve_config_from_list_view d index of
          None \<Rightarrow> Inl Null_Deref
        | Some config \<Rightarrow>
            bindr (client_options_of d) (\<lambda>opts.
              bindr (ssr_client_begin_run (w_client env) opts (w_to_client env config) (globals d)) (\<lambda>(ctx, g).
                let d1 = d\<lparr>client_ctx := ctx, globals := g\<rparr>
                in Inr (if ctx = None
                        then d1\<lparr>log_box := put_string_to_rich_edit_control True (error_info g) Warn (log_box d1)\<rparr>
                        else d1)))))"

definition on_cmd_run :: "'j window_env \<Rightarrow> main_wnd_data \<Rightarrow> main_wnd_data res" where
  "on_cmd_run env d =
     (let cur = adjust_current_selected_item (cur_selected d) (ListView_GetItemCount d);
          d1 = set_current_selected_item cur True d
      in if cur_selected d1 < 0 then Inr d1 else start_client env (cur_selected d1) d1)"

definition on_cmd_stop :: "'j window_env \<Rightarrow> main_wnd_data \<Rightarrow> main_wnd_data res" where
  "on_cmd_stop env d =
     bindr (c_assert (client_ctx d \<noteq> None)) (\<lambda>_.
       bindr (ssr_client_terminate (w_client env) (client_ctx d) (globals d)) (\<lambda>g.
         Inr (d\<lparr>client_ctx := None, globals := g\<rparr>)))"

section \<open>Creation and destruction\<close>

text \<open>
  The settings file lies beside the program: the part of its path before the last backslash. The
  buffer has \<open>MAX_PATH\<close> bytes; without a path it stays empty.
\<close>

definition settings_file_path :: "string option \<Rightarrow> string res" where
  "settings_file_path exe =
     (case exe of
        None \<Rightarrow> Inr []
      | Some tmp \<Rightarrow>
          if CHR 0x5C \<in> set tmp
          then copy_into MAX_PATH (rev (tl (dropWhile (\<lambda>c. c \<noteq> CHR 0x5C) (rev tmp))) @ ''/settings.json'')
          else Inr [])"

definition empty_window :: "client_state \<Rightarrow> main_wnd_data" where
  "empty_window g =
     \<lparr>hListView = [], cur_selected = - 1, client_ctx = None, auto_run = 0, auto_connect = 0,
      ssr_listen_host = replicate MAX_PATH NUL, ssr_listen_port = 0,
      http_proxy_listen_host = replicate MAX_PATH NUL, http_proxy_listen_port = 0, delay_quit_ms = 0,
      change_inet_opts = 0, globals = g, log_box = []\<rparr>"

definition load_rows :: "'j window_env \<Rightarrow> 'j option \<Rightarrow> main_wnd_data \<Rightarrow> main_wnd_data" where
  "load_rows env from_file d =
     fst (parse_settings_file (w_config env) (w_json env) from_file
            (Some (json_config_iter (w_insert_ok env))) (d, 0))"

text \<open>\<open>files\<close> is \<open>json_object_from_file\<close>; \<open>exe\<close> the program's path.\<close>

definition on_wm_create ::
  "'j window_env \<Rightarrow> (string \<Rightarrow> 'j option) \<Rightarrow> string option \<Rightarrow> registry \<Rightarrow> client_state \<Rightarrow> main_wnd_data res" where
  "on_wm_create env files exe reg g =
     bindr (settings_file_path exe) (\<lambda>path.
       let d0 = load_rows env (files path) (default_settings (empty_window g));
           (index, d1) = load_settings (w_registry env) reg d0;
           d2 = load_auto_run (w_registry env) reg d1
       in if index < 0 \<or> ListView_GetItemCount d2 \<le> index then Inr d2
          else let d3 = set_current_selected_item index True d2
               in if auto_connect d3 = 0 then Inr d3 else start_client env index d3)"

fun save_rows :: "'j window_env \<Rightarrow> row list \<Rightarrow> 'j config_json_saver option \<Rightarrow> 'j config_json_saver option res" where
  "save_rows env [] saver = Inr saver"
| "save_rows env (r # rs) saver =
     bindr (config_json_saver_add_item (w_config env) (w_json env) saver (row_config r)) (save_rows env rs)"

definition save_config_to_file ::
  "'j window_env \<Rightarrow> row list \<Rightarrow> string \<Rightarrow> (string \<Rightarrow> 'j option) \<Rightarrow> (string \<Rightarrow> 'j option) res" where
  "save_config_to_file env rs settings_file files =
     bindr (save_rows env rs (config_json_saver_create (w_json env) (w_calloc_ok env) (Some settings_file)))
       (\<lambda>saver. Inr (config_json_saver_write_file saver (\<lambda>path j fs. fs(path := Some j)) files))"

text \<open>\<open>settings_file\<close> is the window's path, as \<open>on_wm_create\<close> set it.\<close>

definition on_wm_destroy ::
  "'j window_env \<Rightarrow> string \<Rightarrow> main_wnd_data \<Rightarrow> (string \<Rightarrow> 'j option) \<times> registry
     \<Rightarrow> (((string \<Rightarrow> 'j option) \<times> registry) \<times> client_state) res" where
  "on_wm_destroy env settings_file d w =
     (case w of (files, reg) \<Rightarrow>
        bindr (save_config_to_file env (hListView d) settings_file files) (\<lambda>files'.
          let reg' = save_auto_run (w_registry env) d (save_settings (w_registry env) d reg)
          in bindr (ssr_client_terminate (w_client env) (client_ctx d) (globals d)) (\<lambda>g.
               Inr ((files', reg'), g))))"

section \<open>Commands\<close>

definition ID_CMD_EXIT :: int where "ID_CMD_EXIT = 40011"
definition ID_CMD_MANAGE_CENTER :: int where "ID_CMD_MANAGE_CENTER = 40013"
definition ID_CMD_NEW_RECORD :: int where "ID_CMD_NEW_RECORD = 40022"
definition ID_CMD_DELETE :: int where "ID_CMD_DELETE = 40023"
definition ID_CMD_QR_CODE :: int where "ID_CMD_QR_CODE = 40024"
definition ID_CMD_SCAN_QRCODE :: int where "ID_CMD_SCAN_QRCODE = 40034"
definition ID_CMD_IMPORT_URL :: int where "ID_CMD_IMPORT_URL = 40036"
definition ID_CMD_SERVER_DETAILS :: int where "ID_CMD_SERVER_DETAILS = 40038"
definition ID_CMD_SERVER_TO_JSON :: int where "ID_CMD_SERVER_TO_JSON = 40040"
definition ID_CMD_OPTIONS :: int where "ID_CMD_OPTIONS = 40042"
definition IDCANCEL :: int where "IDCANCEL = 2"

text \<open>The clipboard: plain text is preferred, wide text is converted; the copy is the allocator's.\<close>

record clipboard =
  clip_open :: bool
  CF_TEXT :: "string option"
  CF_UNICODETEXT :: "wstr option"

definition retrieve_string_from_clipboard :: "dlg_env \<Rightarrow> clipboard \<Rightarrow> (nat \<Rightarrow> bool) option \<Rightarrow> string option" where
  "retrieve_string_from_clipboard env clip allocator =
     (case allocator of
        None \<Rightarrow> None
      | Some grants \<Rightarrow>
          if \<not> clip_open clip then None
          else (case (case CF_TEXT clip of Some t \<Rightarrow> Some t | None \<Rightarrow> to_utf8 env (CF_UNICODETEXT clip)) of
                  None \<Rightarrow> None
                | Some lptstr \<Rightarrow> if grants (length lptstr + 1) then Some lptstr else None))"

definition add_ssr_url_to_sub_list_view :: "'j window_env \<Rightarrow> string option \<Rightarrow> main_wnd_data \<Rightarrow> bool \<times> main_wnd_data" where
  "add_ssr_url_to_sub_list_view env ssr_url d =
     (case ssr_url of
        None \<Rightarrow> (False, d)
      | Some url \<Rightarrow>
          (case w_qr_decode env url of
             None \<Rightarrow> (False, d)
           | Some config \<Rightarrow>
               let count = length (hListView d)
               in (True, snd (InsertListViewItem (w_insert_ok env count) count (Some config) d))))"

text \<open>What the user does: the row with the focus, the answers to message boxes and dialogs.\<close>

record user =
  focused_row :: int
  delete_confirmed :: bool
  in_options :: "options_event list"
  in_details :: "config_event list"
  user_clipboard :: clipboard
  screen_code :: "string option"

text \<open>The dialog edits the row's configuration in place, through the pointer the row holds.\<close>

definition view_server_details :: "'j window_env \<Rightarrow> user \<Rightarrow> main_wnd_data \<Rightarrow> main_wnd_data res" where
  "view_server_details env u d =
     (case retrieve_config_from_list_view d (focused_row u) of
        None \<Rightarrow> Inr d
      | Some config \<Rightarrow>
          bindr (config_dialog (w_dialog env) (in_details u) (Some config)) (\<lambda>(st, config').
            let i = nat (focused_row u)
            in Inr (d\<lparr>hListView := (hListView d)[i := (hListView d ! i)\<lparr>row_config := config'\<rparr>]\<rparr>)))"

definition on_cmd_new_record :: "'j window_env \<Rightarrow> user \<Rightarrow> main_wnd_data \<Rightarrow> main_wnd_data res" where
  "on_cmd_new_record env u d =
     bindr (config_dialog (w_dialog env) (in_details u) (config_create (w_config env))) (\<lambda>(st, config).
       let nIndex = length (hListView d)
       in Inr (if st = Dialog_Ended True
               then snd (InsertListViewItem (w_insert_ok env nIndex) nIndex config d) else d))"

definition wm_command :: "'j window_env \<Rightarrow> user \<Rightarrow> int \<Rightarrow> main_wnd_data \<Rightarrow> main_wnd_data res" where
  "wm_command env u cmd_id d =
     (if cmd_id \<in> {0, ID_CMD_EXIT, ID_CMD_MANAGE_CENTER, IDCANCEL, ID_CMD_SERVER_TO_JSON, ID_CMD_QR_CODE} then Inr d
      else if cmd_id = ID_CMD_OPTIONS then options_dialog (APP_NAME_KEY (w_registry env)) (in_options u) d
      else if cmd_id = ID_CMD_IMPORT_URL
      then Inr (snd (add_ssr_url_to_sub_list_view env
             (retrieve_string_from_clipboard (w_dialog env) (user_clipboard u) (Some (d_mallocs (w_dialog env)))) d))
      else if cmd_id = ID_CMD_SCAN_QRCODE then Inr (snd (add_ssr_url_to_sub_list_view env (screen_code u) d))
      else if cmd_id = ID_CMD_NEW_RECORD then on_cmd_new_record env u d
      else if cmd_id = ID_CMD_SERVER_DETAILS then view_server_details env u d
      else if cmd_id = ID_CMD_DELETE then Inr (snd (on_delete_item (focused_row u) (delete_confirmed u) d))
      else if cmd_id = ID_CMD_RUN then on_cmd_run env d
      else if cmd_id = ID_CMD_STOP then on_cmd_stop env d
      else if MENU_ID_NODE_BEGINNING \<le> cmd_id \<and> cmd_id < MENU_ID_NODE_BEGINNING + ListView_GetItemCount d
      then Inr (set_current_selected_item (cmd_id - MENU_ID_NODE_BEGINNING) True d)
      else Inl Assert_Failed)"

section \<open>What a row shows\<close>

text \<open>
  The text of a column, for the list view's buffer of \<open>cchTextMax\<close> characters: \<open>lstrcpynW\<close> cuts, the port
  is printed without regard to the size. A row without a configuration is a null pointer.
\<close>

definition on_list_view_notification_get_disp_info ::
  "dlg_env \<Rightarrow> nat \<Rightarrow> nat \<Rightarrow> server_config option \<Rightarrow> wstr \<Rightarrow> wstr res" where
  "on_list_view_notification_get_disp_info env iSubItem cchTextMax config pszText =
     (let field = (\<lambda>f. case config of None \<Rightarrow> Inl Null_Deref
                       | Some c \<Rightarrow> Inr (lstrcpyn cchTextMax (text_of (to_wide env (f c)))))
      in if iSubItem = 0 then field remarks
         else if iSubItem = 1 then field remote_host
         else if iSubItem = 2
         then (case config of None \<Rightarrow> Inl Null_Deref
               | Some c \<Rightarrow> copy_into cchTextMax (L (show_int (remote_port c))))
         else if iSubItem = 3 then field cfg_method
         else if iSubItem = 4 then field password
         else if iSubItem = 5 then field protocol
         else if iSubItem = 6 then field protocol_param
         else if iSubItem = 7 then field obfs
         else if iSubItem = 8 then field obfs_param
         else if iSubItem = 9
         then (case config of None \<Rightarrow> Inl Null_Deref
               | Some c \<Rightarrow> Inr (lstrcpyn cchTextMax (if over_tls_enable c then L ''True'' else L ''False'')))
         else if iSubItem = 10 then field over_tls_server_domain
         else if iSubItem = 11 then field over_tls_path
         else Inr pszText)"

section \<open>The selection is the check mark\<close>

text \<open>Everything that happens to the window but the deletion of a row.\<close>

inductive window_move :: "'j window_env \<Rightarrow> main_wnd_data \<Rightarrow> main_wnd_data \<Rightarrow> bool" for env where
  click: "has_row d i \<Longrightarrow> window_move env d (ListView_SetCheckState i b d)"
| menu: "modify_popup_menu_items (to_wide (w_dialog env)) d m = Inr (d', m') \<Longrightarrow> window_move env d d'"
| command: "cmd \<noteq> ID_CMD_DELETE \<Longrightarrow> wm_command env u cmd d = Inr d' \<Longrightarrow> window_move env d d'"

inductive_cases window_moveE: "window_move env d d'"

lemma selection_cong:
  assumes "map row_checked (hListView d') = map row_checked (hListView d)" "cur_selected d' = cur_selected d"
  shows "selection_ok d' = selection_ok d"
proof -
  have len: "length (hListView d') = length (hListView d)" using assms(1) by (rule map_eq_imp_length_eq)
  have "row_checked (hListView d' ! i) = row_checked (hListView d ! i)" if "i < length (hListView d)" for i
    using that len assms(1) by (metis nth_map)
  then have "checked_rows d' = checked_rows d" using len by (auto simp: checked_rows_def)
  then show ?thesis using len assms(2) by (simp add: selection_ok_def has_row_def ListView_GetItemCount_def)
qed

text \<open>The list is left alone by everything that concerns the settings and the client.\<close>

definition same_list :: "main_wnd_data \<Rightarrow> main_wnd_data \<Rightarrow> bool" where
  "same_list d d' \<longleftrightarrow> hListView d' = hListView d \<and> cur_selected d' = cur_selected d"

lemma same_list_selection: "same_list d d' \<Longrightarrow> selection_ok d' = selection_ok d"
  by (rule selection_cong) (simp_all add: same_list_def)

lemma options_run_list: "options_run es s = Inr s' \<Longrightarrow> same_list (snd s) (snd s')"
proof (induction es arbitrary: s)
  case (Cons e es)
  then obtain t where t: "OptionsDlgProc e s = Inr t" "options_run es t = Inr s'"
    by (auto simp: bindr_eq_Inr)
  from t(1) have "same_list (snd s) (snd t)"
    by (auto simp: OptionsDlgProc_def same_list_def options_ok_def split: options_event.splits option.splits prod.splits)
  with Cons.IH [OF t(2)] show ?case by (simp add: same_list_def)
qed (simp add: same_list_def)

lemma options_dialog_list: "options_dialog name es d = Inr d' \<Longrightarrow> same_list d d'"
  by (auto simp: options_dialog_def bindr_eq_Inr dest: options_run_list split: prod.splits)

lemma c_assert_Inr: "c_assert b = Inr u \<longleftrightarrow> b"
  by (cases b) simp_all

lemma start_client_cases:
  assumes "start_client env i d = Inr d'"
  obtains config opts ctx g where "client_ctx d = None" "retrieve_config_from_list_view d i = Some config"
    "client_options_of d = Inr opts"
    "ssr_client_begin_run (w_client env) opts (w_to_client env config) (globals d) = Inr (ctx, g)"
    "d' = d\<lparr>client_ctx := ctx, globals := g,
            log_box := if ctx = None then put_string_to_rich_edit_control True (error_info g) Warn (log_box d) else log_box d\<rparr>"
proof (cases "retrieve_config_from_list_view d i")
  case None
  with assms show ?thesis by (simp add: start_client_def bindr_eq_Inr)
next
  case (Some config)
  with assms obtain opts r where r: "client_ctx d = None" "client_options_of d = Inr opts"
    "ssr_client_begin_run (w_client env) opts (w_to_client env config) (globals d) = Inr r"
    "d' = (if fst r = None
       then d\<lparr>client_ctx := fst r, globals := snd r,
              log_box := put_string_to_rich_edit_control True (error_info (snd r)) Warn (log_box d)\<rparr>
       else d\<lparr>client_ctx := fst r, globals := snd r\<rparr>)"
    by (auto simp: start_client_def c_assert_Inr bindr_eq_Inr split_beta Let_def)
  show ?thesis
  proof (rule that [OF r(1) Some r(2)])
    show "ssr_client_begin_run (w_client env) opts (w_to_client env config) (globals d) = Inr (fst r, snd r)"
      using r(3) by simp
  qed (simp add: r(4))
qed

lemma start_client_list: "start_client env i d = Inr d' \<Longrightarrow> same_list d d'"
  by (erule start_client_cases) (simp add: same_list_def)

lemma on_cmd_stop_list: "on_cmd_stop env d = Inr d' \<Longrightarrow> same_list d d'"
  by (auto simp: on_cmd_stop_def bindr_eq_Inr same_list_def)

lemma modify_popup_selection: "modify_popup_menu_items tw d m = Inr (d', m') \<Longrightarrow> d' = select_adjusted d"
  by (auto simp: modify_popup_menu_items_def Let_def bindr_eq_Inr select_adjusted_def ListView_GetItemCount_def)

lemma view_server_details_selection:
  "view_server_details env u d = Inr d' \<Longrightarrow> selection_ok d' = selection_ok d"
proof (rule selection_cong)
  assume "view_server_details env u d = Inr d'"
  then show "map row_checked (hListView d') = map row_checked (hListView d)" "cur_selected d' = cur_selected d"
    by (auto simp: view_server_details_def bindr_eq_Inr Let_def map_update split: option.splits prod.splits)
      (metis list_update_beyond list_update_id list_update_same_conv nth_map linorder_not_less length_map)+
qed

lemma wm_command_selection:
  assumes ok: "selection_ok d" and cmd: "cmd \<noteq> ID_CMD_DELETE" and run: "wm_command env u cmd d = Inr d'"
  shows "selection_ok d'"
proof -
  note inserted = insert_selection_ok [OF ok]
  have urls: "selection_ok (snd (add_ssr_url_to_sub_list_view env url d))" for url
    using ok inserted by (auto simp: add_ssr_url_to_sub_list_view_def Let_def split: option.splits)
  have new: "on_cmd_new_record env u d = Inr d' \<Longrightarrow> selection_ok d'"
    using ok inserted by (auto simp: on_cmd_new_record_def Let_def bindr_eq_Inr split: prod.splits if_splits)
  have runs: "on_cmd_run env d = Inr d' \<Longrightarrow> selection_ok d'"
    using select_adjusted_ok(1) [OF ok] start_client_list [THEN same_list_selection]
    by (auto simp: on_cmd_run_def Let_def select_adjusted_def split: if_splits)
  have node: "MENU_ID_NODE_BEGINNING \<le> cmd \<Longrightarrow> cmd < MENU_ID_NODE_BEGINNING + ListView_GetItemCount d \<Longrightarrow>
      selection_ok (set_current_selected_item (cmd - MENU_ID_NODE_BEGINNING) True d)"
    by (rule set_current_row [OF ok]) (simp add: has_row_def)
  show ?thesis
    using run cmd ok urls new runs node options_dialog_list [THEN same_list_selection]
      on_cmd_stop_list [THEN same_list_selection, of env d d'] view_server_details_selection [of env u d d']
    unfolding wm_command_def by (auto split: if_splits)
qed

lemma window_move_selection: "window_move env d d' \<Longrightarrow> selection_ok d \<Longrightarrow> selection_ok d'"
proof (induction rule: window_move.induct)
  case (click d i b)
  then show ?case by (cases b) (simp_all add: check_row_selected(1) uncheck_row_eq)
next
  case (menu d m d' m')
  then show ?case using modify_popup_selection select_adjusted_ok(1) by blast
next
  case (command cmd u d d')
  then show ?case using wm_command_selection by blast
qed

lemma window_moves_selection:
  assumes "rtranclp (window_move env) d d'" "selection_ok d" shows "selection_ok d'"
  using assms by (induction rule: rtranclp_induct) (auto intro: window_move_selection)

lemma on_cmd_run_eq:
  "on_cmd_run env d = (if cur_selected (select_adjusted d) < 0 then Inr (select_adjusted d)
     else start_client env (cur_selected (select_adjusted d)) (select_adjusted d))"
  by (simp only: on_cmd_run_def select_adjusted_def Let_def)

lemma on_cmd_run_cases:
  assumes "on_cmd_run env d = Inr d'"
  shows "same_list (select_adjusted d) d'
    \<and> (cur_selected (select_adjusted d) < 0 \<and> d' = select_adjusted d
       \<or> 0 \<le> cur_selected (select_adjusted d)
          \<and> start_client env (cur_selected (select_adjusted d)) (select_adjusted d) = Inr d')"
  using assms start_client_list by (auto simp: on_cmd_run_def Let_def select_adjusted_def same_list_def split: if_splits)

section \<open>Restart\<close>

lemma save_rows_add_items:
  "\<forall>r \<in> set rs. row_config r \<noteq> None \<Longrightarrow>
     save_rows env rs saver = add_items (w_config env) (w_json env) (map (\<lambda>r. the (row_config r)) rs) saver"
proof (induction rs arbitrary: saver)
  case (Cons r rs)
  then show ?case
    by (cases "config_json_saver_add_item (w_config env) (w_json env) saver (row_config r)") auto
qed simp

lemma json_config_iter_rows:
  assumes "\<forall>n. ok n"
  shows "n = length (hListView d) \<Longrightarrow>
    fold (\<lambda>c p. json_config_iter ok c p) cs (d, n)
      = (d\<lparr>hListView := hListView d @ map (\<lambda>c. \<lparr>row_config = c, row_checked = False\<rparr>) cs\<rparr>, n + length cs)"
proof (induction cs arbitrary: d n)
  case (Cons c cs)
  let ?d = "d\<lparr>hListView := hListView d @ [\<lparr>row_config = c, row_checked = False\<rparr>]\<rparr>"
  have "fold (\<lambda>c p. json_config_iter ok c p) cs (?d, Suc n)
      = (?d\<lparr>hListView := hListView ?d @ map (\<lambda>c. \<lparr>row_config = c, row_checked = False\<rparr>) cs\<rparr>, Suc n + length cs)"
    by (rule Cons.IH) (use Cons.prems in simp)
  with assms Cons.prems show ?case by (simp add: json_config_iter_def InsertListViewItem_def)
qed simp

text \<open>Reading the file gives one unchecked row per element.\<close>

lemma load_rows_array:
  assumes "json_object_get_type (w_json env) (Some j) = json_type_array" "\<forall>n. w_insert_ok env n" "hListView d = []"
  shows "load_rows env (Some j) d = d\<lparr>hListView := map (\<lambda>obj.
      \<lparr>row_config = parse_config_from_json (w_config env) (w_json env) obj, row_checked = False\<rparr>)
      (json_object_array_items (w_json env) j)\<rparr>"
proof -
  let ?p = "parse_config_from_json (w_config env) (w_json env)"
  have "fold (\<lambda>obj p. json_config_iter (w_insert_ok env) (?p obj) p) xs p
      = fold (\<lambda>c p. json_config_iter (w_insert_ok env) c p) (map ?p xs) p" for xs p
    by (induction xs arbitrary: p) simp_all
  with assms show ?thesis
    by (simp add: load_rows_def parse_settings_file_def json_config_iter_rows comp_def)
qed

lemma saved_document:
  assumes jc: "json_c_laws (w_json env)" and api: "config_laws (w_config env)"
    and rows: "\<forall>r \<in> set rs. \<exists>c. row_config r = Some c \<and> storable (w_config env) c"
    and alloc: "w_calloc_ok env"
  obtains j where "save_config_to_file env rs path files = Inr (files(path := Some j))"
    "json_object_get_type (w_json env) (Some j) = json_type_array"
    "map (parse_config_from_json (w_config env) (w_json env)) (json_object_array_items (w_json env) j)
      = map (\<lambda>r. map_option (read_back (w_config env)) (row_config r)) rs"
proof -
  let ?cs = "map (\<lambda>r. the (row_config r)) rs"
  let ?s0 = "\<lparr>jso_array = json_object_new_array (w_json env), saver_path = path\<rparr>"
  have cs: "\<forall>c \<in> set ?cs. storable (w_config env) c" "\<forall>r \<in> set rs. row_config r \<noteq> None"
    using rows by fastforce+
  have "json_object_get_type (w_json env) (Some (jso_array ?s0)) = json_type_array"
    "json_object_array_items (w_json env) (jso_array ?s0) = []" by (simp_all add: json_c_lawsD [OF jc])
  with add_items_array [OF jc api cs(1), of ?s0] obtain s js where s:
    "add_items (w_config env) (w_json env) ?cs (Some ?s0) = Inr (Some s)" "saver_path s = path"
    "json_object_get_type (w_json env) (Some (jso_array s)) = json_type_array"
    "json_object_array_items (w_json env) (jso_array s) = map Some js"
    "map (\<lambda>j. parse_config_from_json (w_config env) (w_json env) (Some j)) js
      = map (\<lambda>c. Some (read_back (w_config env) c)) ?cs" by auto
  have "map (\<lambda>c. Some (read_back (w_config env) c)) ?cs
      = map (\<lambda>r. map_option (read_back (w_config env)) (row_config r)) rs"
    using cs(2) by (induction rs) auto
  with s alloc show ?thesis
    by (intro that [of "jso_array s"])
      (simp_all add: save_config_to_file_def config_json_saver_create_def save_rows_add_items [OF cs(2)]
        config_json_saver_write_file_def comp_def)
qed

lemma load_settings_list:
  "same_list d (snd (load_settings api reg d))" "same_list d (load_auto_run api reg d)"
  "same_settings d (load_auto_run api reg d)"
  by (auto simp: load_settings_def load_auto_run_def same_list_def same_settings_def Let_def split: option.splits)

lemma load_settings_cong:
  "app_key reg = app_key reg' \<Longrightarrow> load_settings api reg d = load_settings api reg' d"
  by (simp add: load_settings_def)

lemma save_auto_run_app_key [simp]: "app_key (save_auto_run api d reg) = app_key reg"
  by (simp add: save_auto_run_def)

lemma rest_same_settings: "rest d' = rest d \<Longrightarrow> same_settings d d'"
proof -
  have sel: "auto_connect (rest x) = auto_connect x" "ssr_listen_host (rest x) = ssr_listen_host x"
    "ssr_listen_port (rest x) = ssr_listen_port x" "http_proxy_listen_host (rest x) = http_proxy_listen_host x"
    "http_proxy_listen_port (rest x) = http_proxy_listen_port x" "delay_quit_ms (rest x) = delay_quit_ms x"
    "change_inet_opts (rest x) = change_inet_opts x" for x
    by (simp_all add: rest_def)
  assume "rest d' = rest d"
  then show ?thesis unfolding same_settings_def by (metis sel)
qed

lemma same_settings_trans: "same_settings a b \<Longrightarrow> same_settings b c \<Longrightarrow> same_settings a c"
  by (simp add: same_settings_def)

lemma default_fields:
  "hListView (default_settings d) = hListView d" "cur_selected (default_settings d) = cur_selected d"
  "length (ssr_listen_host (default_settings d)) = MAX_PATH" "length (http_proxy_listen_host (default_settings d)) = MAX_PATH"
  by (simp_all add: default_settings_def HTTP_PROXY_LISTEN_ADDR_def)

lemma empty_fields: "hListView (empty_window g) = []" "cur_selected (empty_window g) = - 1"
  by (simp_all add: empty_window_def)

text \<open>The window that the saved document, the registry and the default settings make.\<close>

lemma create_after_save:
  assumes rows: "json_object_get_type (w_json env) (Some j) = json_type_array" "\<forall>n. w_insert_ok env n"
      "map (parse_config_from_json (w_config env) (w_json env)) (json_object_array_items (w_json env) j) = cs"
    and reg: "app_key reg = app_key (save_settings (w_registry env) d reg0)" "app_key reg0 = Some values"
      "open_write (w_registry env)"
    and d: "settings_ok d" "auto_connect d = 0" "selection_ok d" "length cs = length (hListView d)"
    and path: "settings_file_path exe = Inr path" "files path = Some j"
  shows "\<exists>d'. on_wm_create env files exe reg g = Inr d' \<and> map row_config (hListView d') = cs
    \<and> cur_selected d' = cur_selected d \<and> selection_ok d' \<and> same_settings d d'"
proof -
  let ?d0 = "load_rows env (Some j) (default_settings (empty_window g))"
  have d0: "?d0 = (default_settings (empty_window g))\<lparr>hListView :=
      map (\<lambda>c. \<lparr>row_config = c, row_checked = False\<rparr>) cs\<rparr>"
    by (subst load_rows_array [OF rows(1,2)])
      (simp_all add: default_fields empty_fields rows(3) [symmetric] comp_def)
  have len: "length (ssr_listen_host ?d0) = MAX_PATH" "length (http_proxy_listen_host ?d0) = MAX_PATH"
    by (simp_all add: d0 default_fields)
  obtain d1 where d1: "load_settings (w_registry env) reg ?d0 = (cur_selected d, d1)" "same_settings d d1"
    using saved_settings_load [OF reg(2,3) d(1) len] load_settings_cong [OF reg(1), of "w_registry env" ?d0]
    by (metis prod.collapse)
  let ?d2 = "load_auto_run (w_registry env) reg d1"
  have list: "hListView ?d2 = map (\<lambda>c. \<lparr>row_config = c, row_checked = False\<rparr>) cs" "cur_selected ?d2 = - 1"
    using load_settings_list(1) [of ?d0 "w_registry env" reg] load_settings_list(2) [of d1 "w_registry env" reg] d1(1)
    by (simp_all add: same_list_def d0 default_fields empty_fields)
  have sel: "selection_ok ?d2" "map row_config (hListView ?d2) = cs"
    by (auto simp: selection_ok_def checked_rows_def list comp_def)
  have settings: "same_settings d ?d2"
    using same_settings_trans [OF d1(2) load_settings_list(3)] .
  have count: "ListView_GetItemCount ?d2 = ListView_GetItemCount d"
    by (simp add: ListView_GetItemCount_def list d(4))
  show ?thesis
  proof (cases "has_row d (cur_selected d)")
    case True
    then have row: "has_row ?d2 (cur_selected d)" by (simp add: has_row_def count)
    let ?d3 = "set_current_selected_item (cur_selected d) True ?d2"
    have "?d3 = ListView_SetCheckState (cur_selected d) True ?d2"
      using True by (simp add: set_current_selected_item_def list(2) has_row_def)
    then have "map row_config (hListView ?d3) = cs"
      using check_row_selected(4) [OF sel(1) row] sel(2) by simp
    moreover have "same_settings d ?d3"
      by (rule same_settings_trans [OF settings rest_same_settings]) simp
    moreover from this have "auto_connect ?d3 = 0" using d(2) by (simp add: same_settings_def)
    ultimately show ?thesis
      using True count set_current_row [OF sel(1) row] path
      by (auto simp: on_wm_create_def Let_def d1(1) has_row_def)
  next
    case False
    then have "cur_selected d = - 1" using d(3) by (auto simp: selection_ok_def)
    with path sel list settings show ?thesis by (auto simp: on_wm_create_def Let_def d1(1))
  qed
qed

section \<open>Properties\<close>

text \<open>
  C6: Whatever the user does but delete a row (check boxes, menus, commands, dialogs, imports, starts
  and stops), the selected server is the one checked server; and when Run succeeds in doing
  anything, the server it starts is the checked one.
\<close>

theorem selection_is_check_mark:
  assumes moves: "rtranclp (window_move env) d d'" and ok: "selection_ok d"
  shows "selection_ok d' \<and> (\<forall>d''. on_cmd_run env d' = Inr d'' \<and> hListView d' \<noteq> [] \<longrightarrow>
    (\<exists>i. checked_rows d'' = {i} \<and> cur_selected d'' = int i
       \<and> start_client env (int i) (select_adjusted d') = Inr d''))"
proof -
  have ok': "selection_ok d'" by (rule window_moves_selection [OF moves ok])
  have "\<exists>i. checked_rows d'' = {i} \<and> cur_selected d'' = int i \<and> start_client env (int i) (select_adjusted d') = Inr d''"
    if run: "on_cmd_run env d' = Inr d''" and ne: "hListView d' \<noteq> []" for d''
  proof -
    have cur: "has_row d' (cur_selected (select_adjusted d'))"
      using adjust_range [of d' "cur_selected d'"] ne select_adjusted_ok(2) [OF ok'] by auto
    then have "0 \<le> cur_selected (select_adjusted d')" by (simp add: has_row_def)
    with on_cmd_run_cases [OF run] have d'': "same_list (select_adjusted d') d''"
      "start_client env (cur_selected (select_adjusted d')) (select_adjusted d') = Inr d''" by auto
    from same_list_selection [OF d''(1)] select_adjusted_ok(1) [OF ok'] have "selection_ok d''" by simp
    with d''(1) \<open>0 \<le> cur_selected (select_adjusted d')\<close>
    have "checked_rows d'' = {nat (cur_selected d'')}" "0 \<le> cur_selected d''"
      by (auto simp: selection_ok_def same_list_def)
    with d'' show ?thesis by (intro exI [of _ "nat (cur_selected d'')"]) (simp add: same_list_def)
  qed
  with ok' show ?thesis by blast
qed


text \<open>The window that is destroyed leaves what the next process creates its window from, whatever that process begins with.\<close>

lemma destroy_then_create:
  assumes libs: "json_c_laws (w_json env)" "config_laws (w_config env)" "w_calloc_ok env" "\<forall>n. w_insert_ok env n"
    and rows: "\<forall>r \<in> set (hListView d). \<exists>c. row_config r = Some c \<and> storable (w_config env) c"
    and d: "settings_ok d" "selection_ok d" "auto_connect d = 0" "client_ctx d = None"
    and reg: "app_key reg = Some values" "open_write (w_registry env)"
    and path: "settings_file_path exe = Inr path"
  shows "\<exists>files' reg'. on_wm_destroy env path d (files, reg) = Inr ((files', reg'), globals d)
    \<and> (\<forall>g. \<exists>d'. on_wm_create env files' exe reg' g = Inr d'
         \<and> map row_config (hListView d') = map (\<lambda>r. map_option (read_back (w_config env)) (row_config r)) (hListView d)
         \<and> cur_selected d' = cur_selected d \<and> selection_ok d' \<and> same_settings d d')"
proof -
  from saved_document [OF libs(1,2) rows libs(3), of path files] obtain j where j:
    "save_config_to_file env (hListView d) path files = Inr (files(path := Some j))"
    "json_object_get_type (w_json env) (Some j) = json_type_array"
    "map (parse_config_from_json (w_config env) (w_json env)) (json_object_array_items (w_json env) j)
      = map (\<lambda>r. map_option (read_back (w_config env)) (row_config r)) (hListView d)" .
  let ?reg = "save_auto_run (w_registry env) d (save_settings (w_registry env) d reg)"
  have "on_wm_destroy env path d (files, reg) = Inr ((files(path := Some j), ?reg), globals d)"
    by (simp add: on_wm_destroy_def j(1) Let_def d(4) ssr_client_terminate_def)
  moreover have "\<exists>d'. on_wm_create env (files(path := Some j)) exe ?reg g = Inr d'
      \<and> map row_config (hListView d') = map (\<lambda>r. map_option (read_back (w_config env)) (row_config r)) (hListView d)
      \<and> cur_selected d' = cur_selected d \<and> selection_ok d' \<and> same_settings d d'" for g
    by (rule create_after_save [OF j(2) libs(4) j(3) _ reg d(1,3,2) _ path]) simp_all
  ultimately show ?thesis by blast
qed

text \<open>
  A restart restores the window. When the window is destroyed its servers go to the settings file
  and its settings to the registry; a window created afterwards shows the same servers in the same
  order (each as it reads back), has the same settings, and selects and checks the same server.
\<close>

theorem restart_restores_window:
  assumes libs: "json_c_laws (w_json env)" "config_laws (w_config env)" "w_calloc_ok env" "\<forall>n. w_insert_ok env n"
    and rows: "\<forall>r \<in> set (hListView d). \<exists>c. row_config r = Some c \<and> storable (w_config env) c"
    and d: "settings_ok d" "selection_ok d" "auto_connect d = 0" "client_ctx d = None"
    and reg: "app_key reg = Some values" "open_write (w_registry env)"
    and path: "settings_file_path exe = Inr path"
  shows "\<exists>files' reg' g d'. on_wm_destroy env path d (files, reg) = Inr ((files', reg'), g)
    \<and> on_wm_create env files' exe reg' g = Inr d'
    \<and> map row_config (hListView d') = map (\<lambda>r. map_option (read_back (w_config env)) (row_config r)) (hListView d)
    \<and> cur_selected d' = cur_selected d \<and> selection_ok d' \<and> same_settings d d'"
  using destroy_then_create [OF assms] by blast

definition demo_window_env :: "demo_json window_env" where
  "demo_window_env = \<lparr>w_client = demo_client_env, w_to_client = (\<lambda>c. demo_client_config),
     w_registry = demo_registry_api, w_dialog = demo_dlg_env, w_json = demo_json_c, w_config = demo_config_api,
     w_insert_ok = (\<lambda>n. True), w_calloc_ok = True, w_qr_decode = (\<lambda>s. None)\<rparr>"

definition demo_ready :: main_wnd_data where
  "demo_ready = demo_window\<lparr>http_proxy_listen_host := ''0.0.0.0'' @ replicate 253 (CHR 0x00), delay_quit_ms := 100\<rparr>"

lemma selection_is_check_mark_witness:
  "selection_ok (ListView_SetCheckState 2 True demo_window)
     \<and> cur_selected (ListView_SetCheckState 2 True demo_window) = 2"
proof -
  have row: "has_row demo_window 2" by (simp add: has_row_def ListView_GetItemCount_def demo_window_rows)
  have "rtranclp (window_move demo_window_env) demo_window (ListView_SetCheckState 2 True demo_window)"
    by (rule r_into_rtranclp) (rule window_move.click [OF row])
  from selection_is_check_mark [OF this demo_window_selection(1)] show ?thesis
    using check_row_selected(2) [OF demo_window_selection(1) row] by simp
qed

lemma demo_ready_selection: "selection_ok demo_ready"
  using demo_window_selection(1) by (subst selection_cong [of _ demo_window]) (simp_all add: demo_ready_def)

lemma demo_ready_select: "select_adjusted demo_ready = demo_ready"
proof -
  have "has_row demo_ready 1" "cur_selected demo_ready = 1"
    by (simp_all add: demo_ready_def demo_window_def has_row_def ListView_GetItemCount_def)
  then show ?thesis
    by (simp add: select_adjusted_def adjust_current_selected_item_def set_current_selected_item_def has_row_def)
qed

lemma demo_ready_options: "client_options_of demo_ready = Inr demo_options"
  by (simp add: client_options_of_def string_at_def get_ssr_listen_host_def get_ssr_listen_port_def
      get_http_proxy_listen_host_def get_http_proxy_listen_port_def get_delay_quit_ms_def
      get_change_inet_opts_def buffer_string_def buffer_text_def demo_ready_def demo_window_def
      demo_options_def NUL_def)

lemma demo_ready_run: "\<exists>d' ctx. on_cmd_run demo_window_env demo_ready = Inr d' \<and> client_ctx d' = Some ctx"
proof -
  obtain ctx g where beg:
    "ssr_client_begin_run demo_client_env demo_options demo_client_config demo_client = Inr (Some ctx, g)"
    using demo_client_begin by blast
  have ready: "client_ctx demo_ready = None" "cur_selected demo_ready = 1" "globals demo_ready = demo_client"
    "retrieve_config_from_list_view demo_ready 1 = Some (demo_config\<lparr>remarks := Some []\<rparr>)"
    by (simp_all add: demo_ready_def demo_window_def retrieve_config_from_list_view_def has_row_def
        ListView_GetItemCount_def)
  have "start_client demo_window_env 1 demo_ready = Inr (demo_ready\<lparr>client_ctx := Some ctx, globals := g\<rparr>)"
    by (simp add: start_client_def ready demo_ready_options demo_window_env_def beg Let_def)
  then have "on_cmd_run demo_window_env demo_ready = Inr (demo_ready\<lparr>client_ctx := Some ctx, globals := g\<rparr>)"
    by (simp add: on_cmd_run_eq demo_ready_select ready(2))
  then show ?thesis by simp
qed


lemma restart_restores_window_witness:
  "\<exists>files' reg' g d'. on_wm_destroy demo_window_env ''C:/settings.json'' demo_window
       ((\<lambda>p. None), \<lparr>app_key = Some Map.empty, run_key = None\<rparr>) = Inr ((files', reg'), g)
     \<and> on_wm_create demo_window_env files' (Some (''C:'' @ [CHR 0x5C] @ ''ssrWin.exe'')) reg' g = Inr d'
     \<and> cur_selected d' = 1 \<and> length (hListView d') = 3"
proof -
  have libs: "json_c_laws (w_json demo_window_env)" "config_laws (w_config demo_window_env)"
    "w_calloc_ok demo_window_env" "\<forall>n. w_insert_ok demo_window_env n"
    by (simp_all add: demo_window_env_def demo_json_laws demo_config_laws)
  have rows: "\<forall>r \<in> set (hListView demo_window). \<exists>c. row_config r = Some c \<and> storable (w_config demo_window_env) c"
    by (simp add: demo_window_def storable_def demo_config_def)
  have d: "auto_connect demo_window = 0" "client_ctx demo_window = None" by (simp_all add: demo_window_def)
  have reg: "app_key \<lparr>app_key = Some Map.empty, run_key = None\<rparr> = Some Map.empty"
    "open_write (w_registry demo_window_env)"
    by (simp_all add: demo_window_env_def demo_registry_api_def)
  have path: "settings_file_path (Some (''C:'' @ [CHR 0x5C] @ ''ssrWin.exe'')) = Inr ''C:/settings.json''"
    by (simp add: settings_file_path_def)
  from restart_restores_window [OF libs rows demo_window_settings demo_window_selection(1) d reg path, of "\<lambda>p. None"]
  obtain files' reg' g d' where
    "on_wm_destroy demo_window_env ''C:/settings.json'' demo_window
       ((\<lambda>p. None), \<lparr>app_key = Some Map.empty, run_key = None\<rparr>) = Inr ((files', reg'), g)"
    "on_wm_create demo_window_env files' (Some (''C:'' @ [CHR 0x5C] @ ''ssrWin.exe'')) reg' g = Inr d'"
    and rows': "map row_config (hListView d')
      = map (\<lambda>r. map_option (read_back (w_config demo_window_env)) (row_config r)) (hListView demo_window)"
    and "cur_selected d' = cur_selected demo_window" by blast
  moreover have "length (hListView d') = 3"
    using arg_cong [OF rows', of length] demo_window_rows(1) by simp
  ultimately show ?thesis using demo_window_selection(2) by metis
qed

lemma insert_node_items_null:
  "\<exists>i < k. retrieve_config_from_list_view d (int i) = None \<Longrightarrow> insert_node_items tw d k m = Inl Assert_Failed"
proof (induction k arbitrary: m)
  case (Suc k)
  show ?case
  proof (cases "retrieve_config_from_list_view d (int k)")
    case (Some c)
    with Suc.prems have "\<exists>i < k. retrieve_config_from_list_view d (int i) = None"
      by (metis less_antisym option.distinct(1))
    with Some show ?thesis by (simp add: Suc.IH)
  qed simp
qed simp

text \<open>
  An element \<open>null\<close> in the settings file becomes a row without a configuration: drawing any of its
  columns follows the null pointer, and opening the menu stops in an assertion.
\<close>

theorem null_entry_faults:
  fixes g :: client_state
  assumes doc: "json_object_get_type (w_json env) (Some j) = json_type_array"
      "None \<in> set (json_object_array_items (w_json env) j)" "\<forall>n. w_insert_ok env n"
  defines "d \<equiv> load_rows env (Some j) (default_settings (empty_window g))"
  shows "(\<exists>r \<in> set (hListView d). \<forall>col < 12. \<forall>size_max buf.
      on_list_view_notification_get_disp_info (w_dialog env) col size_max (row_config r) buf = Inl Null_Deref)
    \<and> (\<forall>tw m. modify_popup_menu_items tw d m = Inl Assert_Failed)"
proof -
  have rows: "hListView d = map (\<lambda>obj. \<lparr>row_config = parse_config_from_json (w_config env) (w_json env) obj,
      row_checked = False\<rparr>) (json_object_array_items (w_json env) j)"
    unfolding d_def by (subst load_rows_array [OF doc(1,3)]) (simp_all add: default_fields empty_fields)
  have null: "\<lparr>row_config = None, row_checked = False\<rparr> \<in> set (hListView d)"
    unfolding rows using doc(2) by (force simp: parse_config_from_json_def)
  then obtain i where i: "i < length (hListView d)" "hListView d ! i = \<lparr>row_config = None, row_checked = False\<rparr>"
    by (auto simp: in_set_conv_nth)
  then have "retrieve_config_from_list_view d (int i) = None" by (simp add: retrieve_int)
  with i(1) have "insert_node_items tw d (length (hListView d)) m = Inl Assert_Failed" for tw m
    by (intro insert_node_items_null) blast
  then have menu: "\<forall>tw m. modify_popup_menu_items tw d m = Inl Assert_Failed"
    by (simp add: modify_popup_menu_items_def Let_def)
  have "on_list_view_notification_get_disp_info e col size_max None buf = Inl Null_Deref" if "col < 12" for e col size_max buf
    using that by (simp add: on_list_view_notification_get_disp_info_def Let_def) presburger
  then have "\<forall>col < 12. \<forall>size_max buf. on_list_view_notification_get_disp_info (w_dialog env) col size_max
      (row_config \<lparr>row_config = None, row_checked = False\<rparr>) buf = Inl Null_Deref" by simp
  with null menu show ?thesis by blast
qed

lemma null_entry_faults_witness:
  "\<forall>tw m. modify_popup_menu_items tw (load_rows demo_window_env (Some (DArray [None]))
     (default_settings (empty_window demo_client))) m = Inl Assert_Failed"
proof -
  have "json_object_get_type (w_json demo_window_env) (Some (DArray [None])) = json_type_array"
    "None \<in> set (json_object_array_items (w_json demo_window_env) (DArray [None]))"
    "\<forall>n. w_insert_ok demo_window_env n"
    by (simp_all add: demo_window_env_def demo_json_c_def)
  from null_entry_faults [OF this, of demo_client] show ?thesis by blast
qed

section \<open>The log stays bounded\<close>

text \<open>
  Lines of at most \<open>k\<close> characters posted by other threads, interleaved in any way with the window
  taking them from its queue.
\<close>

inductive log_move ::
  "nat \<Rightarrow> (verbosity \<times> string) list \<times> main_wnd_data \<Rightarrow> (verbosity \<times> string) list \<times> main_wnd_data \<Rightarrow> bool" for k where
  post: "length info \<le> k \<Longrightarrow> dump_info_callback v info queue = Inr queue' \<Longrightarrow> log_move k (queue, d) (queue', d)"
| take_one: "log_move k s (on_wm_dump_info s)"

definition log_inv :: "nat \<Rightarrow> (verbosity \<times> string) list \<times> main_wnd_data \<Rightarrow> bool" where
  "log_inv k s \<longleftrightarrow> (\<forall>e \<in> set (fst s). length (snd e) \<le> k + 2)
     \<and> length (log_text (log_box (snd s))) \<le> MAX_LOG_LENGTH + k + 2"

lemma dump_info_callback_line:
  "dump_info_callback v info queue = Inr (queue @
     [(v, if info \<noteq> [] \<and> last info = newline then info else info @ [CHR 0x0D, newline])])"
  by (cases "info = []") (simp_all add: dump_info_callback_def Let_def last_conv_nth Suc_le_eq)

lemma put_string_length:
  "length (log_text (put_string_to_rich_edit_control True t v b)) \<le> MAX_LOG_LENGTH + length t
     \<or> length (log_text (put_string_to_rich_edit_control True t v b)) = length (log_text b) + length t
        \<and> length (log_text b) \<le> MAX_LOG_LENGTH"
  by (simp add: put_string_to_rich_edit_control_def log_text_def Let_def)

lemma log_move_inv: "log_move k s s' \<Longrightarrow> log_inv k s \<Longrightarrow> log_inv k s'"
proof (induction rule: log_move.induct)
  case (post info v queue queue' d)
  then have "queue' = queue @ [(v, if info \<noteq> [] \<and> last info = newline then info else info @ [CHR 0x0D, newline])]"
    by (simp only: dump_info_callback_line) simp
  with post show ?case by (auto simp: log_inv_def split: if_splits)
next
  case (take_one s)
  obtain queue d where s: "s = (queue, d)" by (cases s)
  show ?case
  proof (cases queue)
    case Nil
    with take_one show ?thesis by (simp add: s on_wm_dump_info_def)
  next
    case (Cons e es)
    obtain v t where e: "e = (v, t)" by (cases e)
    with take_one s Cons have "length t \<le> k + 2" by (simp add: log_inv_def)
    then have "length (log_text (put_string_to_rich_edit_control True t v (log_box d))) \<le> MAX_LOG_LENGTH + k + 2"
      using put_string_length [of t v "log_box d"] by linarith
    with take_one s Cons e show ?thesis by (simp add: log_inv_def on_wm_dump_info_def)
  qed
qed

text \<open>
  C22: The log. Posting a line never overruns its buffer, and however the threads' lines (of at most
  \<open>k\<close> characters) interleave with the window's taking them, the log box never holds more than a
  million characters and one line.
\<close>

theorem log_bounded:
  assumes moves: "rtranclp (log_move k) (queue, d) s" and start: "queue = []" "log_box d = []"
  shows "length (log_text (log_box (snd s))) \<le> MAX_LOG_LENGTH + k + 2
    \<and> (\<forall>v info. \<exists>line. dump_info_callback v info (fst s) = Inr (fst s @ [(v, line)]) \<and> length line \<le> length info + 2)"
proof -
  have "log_inv k (queue, d)" by (simp add: log_inv_def start log_text_def)
  with moves have "log_inv k s" by (induction rule: rtranclp_induct) (auto intro: log_move_inv)
  then show ?thesis by (auto simp: log_inv_def dump_info_callback_line)
qed

lemma log_bounded_witness:
  "length (log_text (log_box (snd (on_wm_dump_info ([(Warn, ''hello'' @ [CHR 0x0D, newline])], demo_window))))) \<le> 1000007"
proof -
  have "dump_info_callback Warn ''hello'' [] = Inr [(Warn, ''hello'' @ [CHR 0x0D, newline])]"
    by (simp add: dump_info_callback_line newline_def)
  then have "log_move 5 ([], demo_window) ([(Warn, ''hello'' @ [CHR 0x0D, newline])], demo_window)"
    by (intro log_move.post) simp_all
  moreover have "log_move 5 ([(Warn, ''hello'' @ [CHR 0x0D, newline])], demo_window)
      (on_wm_dump_info ([(Warn, ''hello'' @ [CHR 0x0D, newline])], demo_window))"
    by (rule log_move.take_one)
  ultimately have "rtranclp (log_move 5) ([], demo_window)
      (on_wm_dump_info ([(Warn, ''hello'' @ [CHR 0x0D, newline])], demo_window))"
    by (rule rtranclp.rtrancl_into_rtrancl [OF r_into_rtranclp])
  from log_bounded [OF this] show ?thesis by (simp add: demo_window_def MAX_LOG_LENGTH_def)
qed

end
