(* ===== verification/Window_Shell.thy ===== *)
theory Window_Shell
  imports Main_Window
begin

text \<open>
  The shell around the main window: the program's names and single instance (wWinMain), the
  messages that show, hide and end the window (MainWndProc), its position, its context menu, and
  the icon in the notification area (w32taskbar.c). Handles are numbers, 0 is null; the notification
  area maps the icons' numbers to what they show.
\<close>

section \<open>The program's names\<close>

text \<open>
  The name of the program is the part of its path after the last backslash, up to its last dot; it
  keeps the compiled-in name when the path has no backslash. All three names are in buffers of
  \<open>MAX_PATH\<close> characters.
\<close>

record app_names =
  APP_NAME :: string
  APP_REG_KEY :: wstr
  MutexName :: wstr

definition after_last :: "char \<Rightarrow> string \<Rightarrow> string" where
  "after_last c s = rev (takeWhile (\<lambda>x. x \<noteq> c) (rev s))"

definition before_last :: "char \<Rightarrow> string \<Rightarrow> string" where
  "before_last c s = (if c \<in> set s then rev (tl (dropWhile (\<lambda>x. x \<noteq> c) (rev s))) else s)"

definition app_name_key :: "string \<Rightarrow> string res" where
  "app_name_key AppNameExe =
     bindr (if CHR 0x5C \<in> set AppNameExe
            then bindr (copy_into MAX_PATH (after_last (CHR 0x5C) AppNameExe)) (\<lambda>n. Inr (before_last (CHR ''.'') n))
            else Inr ''dummy'') (\<lambda>key.
       bindr (c_assert (key \<noteq> [])) (\<lambda>_. Inr key))"

definition start_names :: "dlg_env \<Rightarrow> string \<Rightarrow> app_names res" where
  "start_names env AppNameExe =
     bindr (app_name_key AppNameExe) (\<lambda>key.
       let pw = text_of (to_wide env (Some key))
       in bindr (copy_into MAX_PATH (L ''Software'' @ [0x5C] @ pw)) (\<lambda>reg.
            bindr (copy_into MAX_PATH (pw @ L ''_single_instance'')) (\<lambda>mutex.
              Inr \<lparr>APP_NAME = key, APP_REG_KEY = reg, MutexName = mutex\<rparr>)))"

text \<open>The mutexes of the session; a second instance only brings the first one's window forward.\<close>

datatype start = Runs "wstr set" | Already_Running "wstr set"

definition single_instance :: "app_names \<Rightarrow> wstr set \<Rightarrow> start" where
  "single_instance n mutexes =
     (if MutexName n \<in> mutexes then Already_Running mutexes else Runs (insert (MutexName n) mutexes))"

section \<open>Showing, hiding, ending\<close>

datatype show_state = Hidden | Minimized | Shown

definition g_bShowOnTaskBar :: bool where
  "g_bShowOnTaskBar = False"

text \<open>A window that no longer exists is \<open>None\<close>.\<close>

definition ShowWindowSimple :: "bool \<Rightarrow> show_state option \<Rightarrow> show_state option" where
  "ShowWindowSimple bShow w =
     (case w of
        None \<Rightarrow> None
      | Some s \<Rightarrow> Some (if bShow then Shown else if g_bShowOnTaskBar then Minimized else Hidden))"

definition TrayClickCb :: "show_state option \<Rightarrow> show_state option" where
  "TrayClickCb w = (case w of None \<Rightarrow> None | Some s \<Rightarrow> ShowWindowSimple (s = Hidden) w)"

datatype shell_message = WM_CLOSE int | WM_QUERYENDSESSION | WM_SYSCOMMAND_CLOSE | WM_SYSCOMMAND_MINIMIZE
  | SHELL_COMMAND int | OTHER_MESSAGE

text \<open>
  \<open>DestroyWindow\<close> sends \<open>WM_DESTROY\<close>, whose handler is \<open>on_wm_destroy\<close>. The commands that end or hide
  the window send it \<open>WM_CLOSE\<close>.
\<close>

definition on_wm_close :: "int \<Rightarrow> show_state option \<Rightarrow> show_state option" where
  "on_wm_close wParam w = (if wParam = ID_CMD_EXIT then None else ShowWindowSimple False w)"

definition shell_proc :: "shell_message \<Rightarrow> show_state option \<Rightarrow> show_state option" where
  "shell_proc msg w =
     (case msg of
        WM_CLOSE wParam \<Rightarrow> on_wm_close wParam w
      | WM_QUERYENDSESSION \<Rightarrow> None
      | WM_SYSCOMMAND_CLOSE \<Rightarrow> ShowWindowSimple False w
      | WM_SYSCOMMAND_MINIMIZE \<Rightarrow> ShowWindowSimple False w
      | SHELL_COMMAND cmd \<Rightarrow>
          if cmd = ID_CMD_EXIT then on_wm_close ID_CMD_EXIT w
          else if cmd = IDCANCEL then on_wm_close 0 w
          else if cmd = ID_CMD_MANAGE_CENTER then ShowWindowSimple True w
          else w
      | OTHER_MESSAGE \<Rightarrow> w)"

section \<open>Position\<close>

record rect =
  left :: int
  top :: int
  right :: int
  bottom :: int

definition OffsetRect :: "int \<Rightarrow> int \<Rightarrow> rect \<Rightarrow> rect" where
  "OffsetRect dx dy r = \<lparr>left = left r + dx, top = top r + dy, right = right r + dx, bottom = bottom r + dy\<rparr>"

text \<open>C's division rounds towards zero.\<close>

definition c_half :: "int \<Rightarrow> int" where
  "c_half x = (if x < 0 then - ((- x) div 2) else x div 2)"

definition RestoreWindowPos :: "rect \<Rightarrow> rect \<Rightarrow> int \<times> int" where
  "RestoreWindowPos rcOwner rcDlg0 =
     (let rcDlg = OffsetRect (- left rcDlg0) (- top rcDlg0) rcDlg0;
          rc1 = OffsetRect (- left rcOwner) (- top rcOwner) rcOwner;
          rc = OffsetRect (- right rcDlg) (- bottom rcDlg) rc1
      in (left rcOwner + c_half (right rc), top rcOwner + c_half (bottom rc)))"

text \<open>The window ends up in the middle: the margins on both sides differ by at most one pixel.\<close>

lemma RestoreWindowPos_centred:
  assumes "RestoreWindowPos rcOwner rcDlg = (x, y)"
  shows "\<bar>(x - left rcOwner) - (right rcOwner - (x + (right rcDlg - left rcDlg)))\<bar> \<le> 1"
    "\<bar>(y - top rcOwner) - (bottom rcOwner - (y + (bottom rcDlg - top rcDlg)))\<bar> \<le> 1"
  using assms by (auto simp: RestoreWindowPos_def OffsetRect_def c_half_def Let_def)

section \<open>The list's columns and context menu\<close>

definition list_columns :: "(wstr \<times> bool \<times> int) list" where
  "list_columns =
     [(L ''Remarks'', False, 100), (L ''Server Address'', False, 200), (L ''Server Port'', True, 80),
      (L ''Method'', False, 100), (L ''Password'', False, 230), (L ''Protocol'', False, 150),
      (L ''Protocol Param'', False, 150), (L ''Obfs'', False, 150), (L ''Obfs Param'', False, 150),
      (L ''SSRoT Enable'', False, 100), (L ''SSRoT Domain'', False, 200), (L ''SSRoT Path'', False, 250)]"

text \<open>\<open>ok i\<close> is whether inserting column \<open>i\<close> succeeds; the flag of a column is right alignment.\<close>

fun insert_columns :: "(nat \<Rightarrow> bool) \<Rightarrow> nat \<Rightarrow> (wstr \<times> bool \<times> int) list \<Rightarrow> (wstr \<times> bool \<times> int) list
    \<Rightarrow> bool \<times> (wstr \<times> bool \<times> int) list" where
  "insert_columns ok iCol [] shown = (True, shown)"
| "insert_columns ok iCol (c # cs) shown =
     (if \<not> ok iCol then (False, shown) else insert_columns ok (Suc iCol) cs (shown @ [c]))"

definition InitListViewColumns :: "(nat \<Rightarrow> bool) \<Rightarrow> bool \<times> (wstr \<times> bool \<times> int) list" where
  "InitListViewColumns ok = insert_columns ok 0 list_columns []"

text \<open>The items that need a row are enabled when one has the focus; other windows get no menu.\<close>

definition on_context_menu :: "bool \<Rightarrow> int \<Rightarrow> menu_item list \<Rightarrow> menu_item list option" where
  "on_context_menu on_list nIndex hMenu =
     (if \<not> on_list then None
      else let uEnable = 0 \<le> nIndex
           in Some (EnableMenuItem ID_CMD_DELETE uEnable (EnableMenuItem ID_CMD_SERVER_TO_JSON uEnable
                (EnableMenuItem ID_CMD_QR_CODE uEnable (EnableMenuItem ID_CMD_SERVER_DETAILS uEnable hMenu)))))"

definition on_cmd_server_export_to_json ::
  "'j window_env \<Rightarrow> (string \<Rightarrow> 'j \<Rightarrow> bool) \<Rightarrow> int \<Rightarrow> string option \<Rightarrow> main_wnd_data \<Rightarrow> (bool \<times> bool option) res" where
  "on_cmd_server_export_to_json env to_file nIndex chosen d =
     (if nIndex < 0 then Inr (False, None)
      else (case retrieve_config_from_list_view d nIndex of
              None \<Rightarrow> Inr (False, None)
            | Some config \<Rightarrow>
                (case chosen of
                   None \<Rightarrow> Inr (True, None)
                 | Some szSaveFileName \<Rightarrow>
                     bindr (save_single_config_to_json_file (w_config env) (w_json env) to_file (Some config)
                              (Some szSaveFileName)) (\<lambda>ok. Inr (True, Some ok)))))"

section \<open>The notification area\<close>

type_synonym HICON = int

type_synonym area = "nat \<rightharpoonup> HICON \<times> wstr"

record 'w tray =
  g_hmenuTray :: "menu_item list"
  g_hiconApp :: HICON
  g_szToolTip :: wstr
  g_before_popup_menu_cb :: "(menu_item list \<Rightarrow> 'w \<Rightarrow> ('w \<times> menu_item list) res) option"
  g_dbclk_cb :: "('w \<Rightarrow> 'w) option"
  g_clk_cb :: "('w \<Rightarrow> 'w) option"
  notify_area :: area

definition CreateTrayWindow :: "menu_item list \<Rightarrow> area \<Rightarrow> 'w tray" where
  "CreateTrayWindow hMenuTray a =
     \<lparr>g_hmenuTray = hMenuTray, g_hiconApp = 0, g_szToolTip = [], g_before_popup_menu_cb = None,
      g_dbclk_cb = None, g_clk_cb = None, notify_area = a\<rparr>"

definition TraySetBeforePopupMenuCallback ::
  "(menu_item list \<Rightarrow> 'w \<Rightarrow> ('w \<times> menu_item list) res) \<Rightarrow> 'w tray \<Rightarrow> 'w tray" where
  "TraySetBeforePopupMenuCallback cb t = t\<lparr>g_before_popup_menu_cb := Some cb\<rparr>"

definition TraySetDblClkCallback :: "('w \<Rightarrow> 'w) \<Rightarrow> 'w tray \<Rightarrow> 'w tray" where
  "TraySetDblClkCallback cb t = t\<lparr>g_dbclk_cb := Some cb\<rparr>"

definition TraySetClickCallback :: "('w \<Rightarrow> 'w) \<Rightarrow> 'w tray \<Rightarrow> 'w tray" where
  "TraySetClickCallback cb t = t\<lparr>g_clk_cb := Some cb\<rparr>"

text \<open>\<open>Shell_NotifyIconW\<close>: an icon is added once, and modified or deleted when it is there.\<close>

definition TraySetIcon :: "nat \<Rightarrow> HICON \<Rightarrow> 'w tray \<Rightarrow> bool \<times> 'w tray" where
  "TraySetIcon uID hicon t =
     (case notify_area t uID of
        None \<Rightarrow> (False, t)
      | Some (_, tip) \<Rightarrow> (True, t\<lparr>notify_area := (notify_area t)(uID \<mapsto> (hicon, tip))\<rparr>))"

text \<open>The tooltip is copied into the 128 characters of \<open>szTip\<close> and once into \<open>g_szToolTip\<close>.\<close>

definition TrayAddIcon :: "nat \<Rightarrow> HICON \<Rightarrow> wstr option \<Rightarrow> 'w tray \<Rightarrow> (bool \<times> 'w tray) res" where
  "TrayAddIcon uID hicon pszToolTip t =
     bindr (case pszToolTip of None \<Rightarrow> Inr [] | Some tip \<Rightarrow> copy_into 128 tip) (\<lambda>szTip.
       let t1 = (if g_hiconApp t = 0 then t\<lparr>g_hiconApp := hicon\<rparr> else t)
       in bindr (case pszToolTip of
                   Some tip \<Rightarrow> if g_szToolTip t1 = [] then copy_into MAX_PATH tip else Inr (g_szToolTip t1)
                 | None \<Rightarrow> Inr (g_szToolTip t1)) (\<lambda>tip.
            let t2 = t1\<lparr>g_szToolTip := tip\<rparr>
            in Inr (if notify_area t2 uID \<noteq> None then (False, t2)
                    else (True, t2\<lparr>notify_area := (notify_area t2)(uID \<mapsto> (hicon, szTip))\<rparr>))))"

definition TrayDeleteIcon :: "nat \<Rightarrow> 'w tray \<Rightarrow> bool \<times> 'w tray" where
  "TrayDeleteIcon uID t =
     (if notify_area t uID = None then (False, t) else (True, t\<lparr>notify_area := (notify_area t)(uID := None)\<rparr>))"

datatype mouse_message = WM_RBUTTONDOWN | WM_LBUTTONDBLCLK | WM_LBUTTONDOWN | OTHER_MOUSE

datatype tray_message = TRAY_WM_CREATE | TRAY_WM_CLOSE | WM_TRAYMSG mouse_message | TASKBAR_CREATED | TRAY_OTHER

text \<open>What the procedure does besides calling back: it ends the thread's loop, or pops a menu up.\<close>

datatype tray_effect = PostQuitMessage | TrackPopupMenu "menu_item list" | DefWindowProc

definition TrayProc :: "tray_message \<Rightarrow> 'w tray \<Rightarrow> 'w \<Rightarrow> (tray_effect list \<times> 'w tray \<times> 'w) res" where
  "TrayProc msg t w =
     (case msg of
        TRAY_WM_CREATE \<Rightarrow> Inr ([], t, w)
      | TRAY_WM_CLOSE \<Rightarrow> Inr ([PostQuitMessage], t, w)
      | WM_TRAYMSG m \<Rightarrow>
          (case m of
             WM_RBUTTONDOWN \<Rightarrow>
               bindr (case g_before_popup_menu_cb t of
                        None \<Rightarrow> Inr (w, g_hmenuTray t)
                      | Some cb \<Rightarrow> cb (g_hmenuTray t) w) (\<lambda>(w', menu).
                 Inr ([TrackPopupMenu menu], t\<lparr>g_hmenuTray := menu\<rparr>, w'))
           | WM_LBUTTONDBLCLK \<Rightarrow> Inr ([], t, case g_dbclk_cb t of None \<Rightarrow> w | Some cb \<Rightarrow> cb w)
           | WM_LBUTTONDOWN \<Rightarrow> Inr ([], t, case g_clk_cb t of None \<Rightarrow> w | Some cb \<Rightarrow> cb w)
           | OTHER_MOUSE \<Rightarrow> Inr ([], t, w))
      | TASKBAR_CREATED \<Rightarrow>
          if g_hiconApp t \<noteq> 0
          then bindr (TrayAddIcon 1 (g_hiconApp t) (Some (g_szToolTip t)) t) (\<lambda>(ok, t'). Inr ([DefWindowProc], t', w))
          else Inr ([DefWindowProc], t, w)
      | TRAY_OTHER \<Rightarrow> Inr ([DefWindowProc], t, w))"

text \<open>The callback the program installs: the menu of servers, and an assertion that the window exists.\<close>

definition before_tray_menu_popup ::
  "dlg_env \<Rightarrow> menu_item list \<Rightarrow> main_wnd_data option \<Rightarrow> (main_wnd_data option \<times> menu_item list) res" where
  "before_tray_menu_popup env hMenu w =
     (case w of
        None \<Rightarrow> Inl Assert_Failed
      | Some d \<Rightarrow> bindr (modify_popup_menu_items (to_wide env) d hMenu) (\<lambda>(d', m). Inr (Some d', m)))"

text \<open>
  Everything that can happen to the icon: the procedure's messages, the program's own calls, and a
  restart of the shell, which empties the notification area. A call that faults ends the run.
\<close>

datatype tray_event = Tray_Message tray_message | Set_Icon nat HICON | Add_Icon nat HICON "wstr option"
  | Delete_Icon nat | Shell_Restart

definition tray_step :: "'w tray \<times> 'w \<Rightarrow> tray_event \<Rightarrow> 'w tray \<times> 'w" where
  "tray_step s e =
     (case s of (t, w) \<Rightarrow>
        (case e of
           Tray_Message m \<Rightarrow> (case TrayProc m t w of Inr (out, t', w') \<Rightarrow> (t', w') | Inl f \<Rightarrow> s)
         | Set_Icon uID h \<Rightarrow> (snd (TraySetIcon uID h t), w)
         | Add_Icon uID h tip \<Rightarrow> (case TrayAddIcon uID h tip t of Inr (ok, t') \<Rightarrow> (t', w) | Inl f \<Rightarrow> s)
         | Delete_Icon uID \<Rightarrow> (snd (TrayDeleteIcon uID t), w)
         | Shell_Restart \<Rightarrow> (t\<lparr>notify_area := Map.empty\<rparr>, w)))"

definition remembers :: "HICON \<Rightarrow> wstr \<Rightarrow> 'w tray \<times> 'w \<Rightarrow> bool" where
  "remembers icon tip s \<longleftrightarrow> g_hiconApp (fst s) = icon \<and> g_szToolTip (fst s) = tip \<and> icon \<noteq> 0 \<and> tip \<noteq> []"

lemma TrayAddIcon_remembers:
  "remembers icon tip (t, w) \<Longrightarrow> TrayAddIcon uID h tp t = Inr (ok, t') \<Longrightarrow> remembers icon tip (t', w)"
  by (auto simp: remembers_def TrayAddIcon_def Let_def bindr_eq_Inr split: option.splits if_splits)

lemma TrayProc_remembers:
  "remembers icon tip (t, w) \<Longrightarrow> TrayProc m t w = Inr (out, t', w') \<Longrightarrow> remembers icon tip (t', w')"
proof (cases m)
  case TASKBAR_CREATED
  assume r: "remembers icon tip (t, w)" and p: "TrayProc m t w = Inr (out, t', w')"
  with TASKBAR_CREATED obtain ok where "TrayAddIcon 1 (g_hiconApp t) (Some (g_szToolTip t)) t = Inr (ok, t')"
    by (auto simp: TrayProc_def remembers_def bindr_eq_Inr)
  from TrayAddIcon_remembers [OF r this] show ?thesis by (simp add: remembers_def)
qed (auto simp: TrayProc_def remembers_def bindr_eq_Inr split: mouse_message.splits option.splits prod.splits)

interpretation tray_icon: event_machine tray_step "remembers icon tip" for icon tip
proof
  fix s :: "'a tray \<times> 'a" and e
  assume inv: "remembers icon tip s"
  obtain t w where s: "s = (t, w)" by (cases s)
  show "remembers icon tip (tray_step s e)"
  proof (cases e)
    case (Tray_Message m)
    show ?thesis
    proof (cases "TrayProc m t w")
      case (Inr r)
      obtain out t' w' where "r = (out, t', w')" by (cases r)
      with TrayProc_remembers [of icon tip t w m out t' w'] inv Inr Tray_Message s show ?thesis
        by (simp add: tray_step_def)
    qed (use inv Tray_Message s in \<open>simp add: tray_step_def\<close>)
  next
    case (Add_Icon uID h tp)
    show ?thesis
    proof (cases "TrayAddIcon uID h tp t")
      case (Inr r)
      obtain ok t' where "r = (ok, t')" by (cases r)
      with TrayAddIcon_remembers [of icon tip t w uID h tp ok t'] inv Inr Add_Icon s show ?thesis
        by (simp add: tray_step_def)
    qed (use inv Add_Icon s in \<open>simp add: tray_step_def\<close>)
  qed (use inv s in \<open>auto simp: tray_step_def remembers_def TraySetIcon_def TrayDeleteIcon_def split: option.splits\<close>)
qed

section \<open>Properties\<close>

text \<open>
  C21: The icon survives a restart of the shell. After the program added its icon with a tooltip that
  fits, and whatever happened to the tray since, the message that the task bar was created again
  puts the same icon with the same tooltip back into the emptied notification area.
\<close>

theorem icon_survives_shell_restart:
  assumes tip: "tip \<noteq> []" "length tip < 128" and icon: "icon \<noteq> 0"
    and add: "TrayAddIcon 1 icon (Some tip) (CreateTrayWindow menu a) = Inr (ok, t)"
  shows "notify_area (fst (foldl tray_step (t, w) (es @ [Shell_Restart, Tray_Message TASKBAR_CREATED]))) = [1 \<mapsto> (icon, tip)]"
proof -
  have "remembers icon tip (t, w)"
    using add tip icon by (auto simp: TrayAddIcon_def CreateTrayWindow_def remembers_def Let_def split: if_splits)
  from tray_icon.run_inv [OF this, of es] obtain t' w' where
    "foldl tray_step (t, w) es = (t', w')" "remembers icon tip (t', w')"
    by (cases "foldl tray_step (t, w) es") auto
  with tip show ?thesis
    by (simp add: tray_step_def TrayProc_def TrayAddIcon_def remembers_def)
qed

lemma icon_survives_shell_restart_witness:
  "\<exists>t. notify_area (fst (foldl tray_step (t, ()) ([Set_Icon 1 9] @ [Shell_Restart, Tray_Message TASKBAR_CREATED])))
     = [1 \<mapsto> (7, L ''ssr'')]"
proof -
  have "L ''ssr'' \<noteq> []" "length (L ''ssr'') < 128" "(7 :: int) \<noteq> 0" by simp_all
  moreover obtain t where "TrayAddIcon 1 7 (Some (L ''ssr'')) (CreateTrayWindow [] Map.empty) = Inr (True, t :: unit tray)"
    by (simp add: TrayAddIcon_def CreateTrayWindow_def)
  ultimately have "notify_area (fst (foldl tray_step (t, ()) ([Set_Icon 1 9] @ [Shell_Restart, Tray_Message TASKBAR_CREATED])))
      = [1 \<mapsto> (7, L ''ssr'')]"
    by (rule icon_survives_shell_restart)
  then show ?thesis by (intro exI [of _ t])
qed

lemma app_name_key_simple:
  assumes "CHR 0x5C \<notin> set name" "CHR ''.'' \<notin> set name" "name \<noteq> []" "length name + length ext + 1 < MAX_PATH"
    "CHR 0x5C \<notin> set ext" "CHR ''.'' \<notin> set ext"
  shows "app_name_key (dir @ [CHR 0x5C] @ name @ [CHR ''.''] @ ext) = Inr name"
proof -
  have tw: "takeWhile (\<lambda>x. x \<noteq> c) (xs @ c # ys) = xs" "dropWhile (\<lambda>x. x \<noteq> c) (xs @ c # ys) = c # ys"
    if "c \<notin> set xs" for c :: char and xs ys
    using that by (induction xs) auto
  have "after_last (CHR 0x5C) (dir @ [CHR 0x5C] @ name @ [CHR ''.''] @ ext) = name @ [CHR ''.''] @ ext"
    using tw(1) [of "CHR 0x5C" "rev (name @ [CHR ''.''] @ ext)" "rev dir"] assms by (simp add: after_last_def)
  moreover have "before_last (CHR ''.'') (name @ [CHR ''.''] @ ext) = name"
    using tw(2) [of "CHR ''.''" "rev ext" "rev name"] assms by (simp add: before_last_def)
  ultimately show ?thesis using assms by (simp add: app_name_key_def)
qed

text \<open>
  The names of the program. A program name of up to 243 characters fits every buffer; one of 244
  to 250 characters overruns the buffer of the name of the single-instance mutex.
\<close>

theorem mutex_name_bound:
  assumes name: "CHR 0x5C \<notin> set name" "CHR ''.'' \<notin> set name" "name \<noteq> []"
      "\<forall>c \<in> set name. (of_char c :: nat) < 128" "length name \<le> 250"
    and conv: "ascii_law (d_MultiByteToWideChar env)" "\<forall>n. d_mallocs env n"
  shows "start_names env (dir @ [CHR 0x5C] @ name @ ''.exe'') =
     (if length name \<le> 243
      then Inr \<lparr>APP_NAME = name, APP_REG_KEY = L ''Software'' @ [0x5C] @ L name, MutexName = L (name @ ''_single_instance'')\<rparr>
      else Inl Buffer_Overflow)"
proof -
  have w: "text_of (to_wide env (Some name)) = L name"
    using utf8_to_wchar_ascii [OF conv name(4,3)] by (simp add: to_wide_def text_of_def)
  have "app_name_key (dir @ [CHR 0x5C] @ name @ ''.exe'') = Inr name"
    using app_name_key_simple [of name "''exe''" dir] name by simp
  then show ?thesis using name(5) by (simp add: start_names_def w L_append Let_def)
qed

lemma mutex_name_bound_witness:
  "start_names demo_dlg_env (''C:'' @ [CHR 0x5C] @ replicate 245 CHR ''a'' @ ''.exe'') = Inl Buffer_Overflow"
proof -
  have "ascii_law (d_MultiByteToWideChar demo_dlg_env)" "\<forall>n. d_mallocs demo_dlg_env n"
    by (simp_all add: ascii_law_def demo_dlg_env_def)
  moreover have "CHR 0x5C \<notin> set (replicate 245 CHR ''a'')" "CHR ''.'' \<notin> set (replicate 245 CHR ''a'')"
    "replicate 245 CHR ''a'' \<noteq> []" "\<forall>c \<in> set (replicate 245 CHR ''a''). (of_char c :: nat) < 128"
    "length (replicate 245 CHR ''a'') \<le> 250"
    by simp_all
  ultimately have "start_names demo_dlg_env (''C:'' @ [CHR 0x5C] @ replicate 245 CHR ''a'' @ ''.exe'') =
     (if length (replicate 245 CHR ''a'') \<le> 243
      then Inr \<lparr>APP_NAME = replicate 245 CHR ''a'', APP_REG_KEY = L ''Software'' @ [0x5C] @ L (replicate 245 CHR ''a''),
             MutexName = L (replicate 245 CHR ''a'' @ ''_single_instance'')\<rparr>
      else Inl Buffer_Overflow)"
    by (intro mutex_name_bound)
  then show ?thesis by simp
qed

end
