(* ===== verification/Byte_Buffer.thy ===== *)
theory Byte_Buffer
  imports Win_Prelude
begin

text \<open>
  Byte buffers of a fixed size and counted loops over them, shared by the bitmap and the QR code
  theories: reads and writes are checked against the size. The lemmas say which bytes a nest of loops
  that stores one byte value has changed.
\<close>

type_synonym bytes = "8 word list"

definition store :: "nat \<Rightarrow> bytes \<Rightarrow> bytes \<Rightarrow> bytes res" where
  "store p bs buf =
     (if p + length bs \<le> length buf then Inr (take p buf @ bs @ drop (p + length bs) buf)
      else Inl Buffer_Overflow)"

definition fetch :: "nat \<Rightarrow> nat \<Rightarrow> bytes \<Rightarrow> bytes res" where
  "fetch p n buf = (if p + n \<le> length buf then Inr (take n (drop p buf)) else Inl Out_Of_Bounds)"

text \<open>\<open>for (i = 0; i < n; i++)\<close> over the state \<open>'s\<close>.\<close>

fun for_each :: "('x \<Rightarrow> 's \<Rightarrow> 's res) \<Rightarrow> 'x list \<Rightarrow> 's \<Rightarrow> 's res" where
  "for_each body [] s = Inr s"
| "for_each body (x # xs) s = bindr (body x s) (for_each body xs)"

definition count_to :: "nat \<Rightarrow> (nat \<Rightarrow> 's \<Rightarrow> 's res) \<Rightarrow> 's \<Rightarrow> 's res" where
  "count_to n body = for_each body [0..<n]"

lemma for_each_append: "for_each body (xs @ ys) s = bindr (for_each body xs s) (for_each body ys)"
proof (induction xs arbitrary: s)
  case (Cons x xs)
  then show ?case by (cases "body x s") simp_all
qed simp

lemma count_to_0 [simp]: "count_to 0 body s = Inr s"
  by (simp add: count_to_def)

lemma count_to_Suc: "count_to (Suc n) body s = bindr (count_to n body s) (body n)"
  by (simp add: count_to_def for_each_append bindr_def split: sum.split)

text \<open>An invariant of the loop, indexed by the number of iterations done.\<close>

lemma count_to_inv:
  assumes "P 0 s" and "\<And>i s. i < n \<Longrightarrow> P i s \<Longrightarrow> \<exists>s'. body i s = Inr s' \<and> P (Suc i) s'"
  shows "\<exists>s'. count_to n body s = Inr s' \<and> P n s'"
  using assms(2)
proof (induction n)
  case 0
  then show ?case using assms(1) by simp
next
  case (Suc n)
  then obtain s' where "count_to n body s = Inr s'" "P n s'" by (meson less_Suc_eq)
  with Suc.prems [of n s'] show ?case by (auto simp: count_to_Suc)
qed

lemma length_store: "store p bs buf = Inr buf' \<Longrightarrow> length buf' = length buf"
  by (auto simp: store_def split: if_splits)

lemma nth_store:
  "store p bs buf = Inr buf' \<Longrightarrow> i < length buf \<Longrightarrow>
   buf' ! i = (if p \<le> i \<and> i < p + length bs then bs ! (i - p) else buf ! i)"
  by (auto simp: store_def nth_append split: if_splits)

text \<open>
  \<open>painted b A buf buf'\<close>: the bytes at the positions of \<open>A\<close> have become \<open>b\<close>, the others are as before.
\<close>

definition painted :: "8 word \<Rightarrow> nat set \<Rightarrow> bytes \<Rightarrow> bytes \<Rightarrow> bool" where
  "painted b A buf buf' \<longleftrightarrow> length buf' = length buf
     \<and> (\<forall>i < length buf. buf' ! i = (if i \<in> A then b else buf ! i))"

lemma painted_refl [simp]: "painted b {} buf buf"
  by (simp add: painted_def)

lemma painted_trans: "painted b A buf buf1 \<Longrightarrow> painted b B buf1 buf2 \<Longrightarrow> painted b (A \<union> B) buf buf2"
  by (auto simp: painted_def)

lemma painted_store:
  "p + n \<le> length buf \<Longrightarrow> \<exists>buf'. store p (replicate n b) buf = Inr buf' \<and> painted b {p..<p + n} buf buf'"
proof -
  assume room: "p + n \<le> length buf"
  then obtain buf' where s: "store p (replicate n b) buf = Inr buf'" by (simp add: store_def)
  with nth_store [OF s] length_store [OF s] show ?thesis by (auto simp: painted_def)
qed

lemma painted_byte: "p < length buf \<Longrightarrow> \<exists>buf'. store p [b] buf = Inr buf' \<and> painted b {p} buf buf'"
  using painted_store [of p 1 buf b] by simp

text \<open>A loop whose iterations paint.\<close>

lemma count_to_paints:
  assumes "\<And>i buf. i < n \<Longrightarrow> length buf = len \<Longrightarrow> \<exists>buf'. body i buf = Inr buf' \<and> painted b (A i) buf buf'"
    and "length buf = len"
  shows "\<exists>buf'. count_to n body buf = Inr buf' \<and> painted b (\<Union>i < n. A i) buf buf'"
proof -
  have "\<exists>buf'. count_to n body buf = Inr buf' \<and> painted b (\<Union>i < n. A i) buf buf'"
  proof (rule count_to_inv [where P = "\<lambda>k buf'. painted b (\<Union>i < k. A i) buf buf'"])
    fix i buf1 assume i: "i < n" and p: "painted b (\<Union>j < i. A j) buf buf1"
    then have "length buf1 = len" using assms(2) by (simp add: painted_def)
    with assms(1) [OF i] obtain buf' where "body i buf1 = Inr buf'" "painted b (A i) buf1 buf'" by blast
    with painted_trans [OF p] show "\<exists>buf'. body i buf1 = Inr buf' \<and> painted b (\<Union>j < Suc i. A j) buf buf'"
      by (auto simp: lessThan_Suc Un_commute)
  qed simp
  then show ?thesis .
qed

end
