(* ===== verification/QR_Image.thy ===== *)
theory QR_Image
  imports Byte_Buffer
begin

unbundle bit_operations_syntax

text \<open>
  The pictures of QR codes (qrcode\_gen.c): the modules of a symbol are drawn as squares of black pixels into
  a white buffer, 32 bits a pixel for the dialog's bitmap, 24 bits a pixel and bottom row first for the
  file. The encoder (qrencode) is a parameter: a symbol is its width and one byte per module, the lowest bit
  being its colour. The widths of symbols are 21 to 177, so the products stay far below 32 bits.
\<close>

record QRcode =
  width :: nat
  data :: bytes

definition IMG_MAX_WIDTH :: nat where
  "IMG_MAX_WIDTH = 400"

definition scale_rate :: "nat \<Rightarrow> nat" where
  "scale_rate w = (let s = IMG_MAX_WIDTH div w in if s < 1 then 1 else s)"

text \<open>A pixel of the bitmap is one store of 32 bits, a pixel of the file three stores of a byte.\<close>

definition store32 :: "nat \<Rightarrow> bytes \<Rightarrow> bytes res" where
  "store32 p = store p [0, 0, 0, 0]"

definition store24 :: "nat \<Rightarrow> bytes \<Rightarrow> bytes res" where
  "store24 p buf = bindr (store (p + 0) [0] buf) (\<lambda>b1. bindr (store (p + 1) [0] b1) (store (p + 2) [0]))"

text \<open>
  The loops over the rows, the modules of a row and the pixels of a module, with \<open>pDestData\<close> and
  \<open>pSourceData\<close> as positions; \<open>px\<close> stores a pixel of \<open>bpp\<close> bytes and \<open>adj\<close> is the length of a line of the picture.
\<close>

definition draw_module :: "(nat \<Rightarrow> bytes \<Rightarrow> bytes res) \<Rightarrow> nat \<Rightarrow> nat \<Rightarrow> nat \<Rightarrow> nat \<Rightarrow> bytes \<Rightarrow> bytes res" where
  "draw_module px bpp s adj dest = count_to s (\<lambda>l. count_to s (\<lambda>n. px (dest + n * bpp + adj * l)))"

definition draw_cell ::
  "(nat \<Rightarrow> bytes \<Rightarrow> bytes res) \<Rightarrow> nat \<Rightarrow> nat \<Rightarrow> nat \<Rightarrow> bytes \<Rightarrow> nat \<times> nat \<times> bytes \<Rightarrow> (nat \<times> nat \<times> bytes) res" where
  "draw_cell px bpp s adj modules t = (case t of (dest, src, buf) \<Rightarrow>
     bindr (fetch src 1 modules) (\<lambda>b.
     bindr (if b ! 0 AND 1 \<noteq> 0 then draw_module px bpp s adj dest buf else Inr buf) (\<lambda>buf1.
     Inr (dest + bpp * s, src + 1, buf1))))"

definition draw_row ::
  "(nat \<Rightarrow> bytes \<Rightarrow> bytes res) \<Rightarrow> nat \<Rightarrow> nat \<Rightarrow> nat \<Rightarrow> nat \<Rightarrow> bytes \<Rightarrow> nat \<Rightarrow> nat \<times> bytes \<Rightarrow> (nat \<times> bytes) res" where
  "draw_row px bpp s adj w modules y t = (case t of (src, buf) \<Rightarrow>
     bindr (count_to w (\<lambda>_. draw_cell px bpp s adj modules) (adj * y * s, src, buf)) (\<lambda>(dest, src1, buf1).
     Inr (src1, buf1)))"

definition draw_rows ::
  "(nat \<Rightarrow> bytes \<Rightarrow> bytes res) \<Rightarrow> nat \<Rightarrow> nat \<Rightarrow> nat \<Rightarrow> nat \<Rightarrow> bytes \<Rightarrow> bytes \<Rightarrow> bytes res" where
  "draw_rows px bpp s adj w modules buf =
     bindr (count_to w (draw_row px bpp s adj w modules) (0, buf)) (\<lambda>(src, buf1). Inr buf1)"

section \<open>The bitmap of the dialog\<close>

text \<open>
  What \<open>CreateBitmap\<close> is called with. \<open>Inr None\<close> never comes: a failed encoding and a failed
  allocation stop in an assertion.
\<close>

definition generate_qr_code_image ::
  "(string \<Rightarrow> QRcode option) \<Rightarrow> bool \<Rightarrow> string \<Rightarrow> (nat \<times> nat \<times> bytes) res" where
  "generate_qr_code_image encodeString malloc_ok szSourceSring =
     (case encodeString szSourceSring of
        None \<Rightarrow> Inl Assert_Failed
      | Some pQRC \<Rightarrow>
          let s = scale_rate (width pQRC); unWidth = width pQRC;
              unWidthAdjusted = unWidth * s * 4;
              unDataBytes = unWidthAdjusted * unWidth * s
          in if \<not> malloc_ok then Inl Assert_Failed
             else bindr (draw_rows store32 4 s unWidthAdjusted unWidth (data pQRC) (replicate unDataBytes 0xFF)) (\<lambda>bits.
                  Inr (width pQRC * s, width pQRC * s, bits)))"

section \<open>The file\<close>

text \<open>The rows of the symbol are exchanged in place, with the pixel buffer as the intermediate.\<close>

definition swap_rows :: "nat \<Rightarrow> nat \<Rightarrow> bytes \<times> bytes \<Rightarrow> (bytes \<times> bytes) res" where
  "swap_rows step x t = (case t of (pixels, modules) \<Rightarrow>
     bindr (fetch (x * step) step modules) (\<lambda>row.
     bindr (store 0 row pixels) (\<lambda>pixels1.
     bindr (fetch ((step - 1 - x) * step) step modules) (\<lambda>other.
     bindr (store (x * step) other modules) (\<lambda>modules1.
     bindr (fetch 0 step pixels1) (\<lambda>saved.
     bindr (store ((step - 1 - x) * step) saved modules1) (\<lambda>modules2.
     Inr (pixels1, modules2))))))))"

definition flip_rows :: "nat \<Rightarrow> bytes \<Rightarrow> bytes \<Rightarrow> (bytes \<times> bytes) res" where
  "flip_rows step pixels modules = count_to (step div 2) (swap_rows step) (pixels, modules)"

record bmp_file =
  bfType :: nat
  bfSize :: nat
  bfOffBits :: nat
  biWidth :: nat
  biHeight :: nat
  biPlanes :: nat
  biBitCount :: nat
  pixel_bytes :: bytes

definition SIZEOF_BITMAPFILEHEADER :: nat where "SIZEOF_BITMAPFILEHEADER = 14"
definition SIZEOF_BITMAPINFOHEADER :: nat where "SIZEOF_BITMAPINFOHEADER = 40"

definition adjusted_width :: "nat \<Rightarrow> nat" where
  "adjusted_width n = (if n mod 4 \<noteq> 0 then (n div 4 + 1) * 4 else n)"

text \<open>\<open>pixels0\<close> is what the allocated memory holds; the result is what the file is given.\<close>

definition generate_qr_code_image_file ::
  "(string \<Rightarrow> QRcode option) \<Rightarrow> (nat \<Rightarrow> bytes option) \<Rightarrow> bool \<Rightarrow> string \<Rightarrow> bmp_file res" where
  "generate_qr_code_image_file encodeString malloc fopen_ok szSourceSring =
     (case encodeString szSourceSring of
        None \<Rightarrow> Inl Assert_Failed
      | Some pQRC \<Rightarrow>
          let s = scale_rate (width pQRC); unWidth = width pQRC;
              unWidthAdjusted = adjusted_width (unWidth * s * 3);
              unDataBytes = unWidthAdjusted * unWidth * s
          in case malloc unDataBytes of
               None \<Rightarrow> Inl Assert_Failed
             | Some pixels0 \<Rightarrow>
                 bindr (flip_rows unWidth pixels0 (data pQRC)) (\<lambda>(pixels1, modules).
                 bindr (draw_rows store24 3 s unWidthAdjusted unWidth modules (replicate unDataBytes 0xFF)) (\<lambda>pixels.
                 if \<not> fopen_ok then Inl Assert_Failed
                 else Inr \<lparr>bfType = 0x4d42,
                           bfSize = SIZEOF_BITMAPFILEHEADER + SIZEOF_BITMAPINFOHEADER + unDataBytes,
                           bfOffBits = SIZEOF_BITMAPFILEHEADER + SIZEOF_BITMAPINFOHEADER,
                           biWidth = unWidth * s, biHeight = unWidth * s, biPlanes = 1, biBitCount = 24,
                           pixel_bytes = pixels\<rparr>)))"

text \<open>The picture by way of a file in the temporary directory; \<open>load\<close> is \<open>LoadImageA\<close>, the result of the write is ignored.\<close>

definition generate_qr_code_image_2 ::
  "(string \<Rightarrow> QRcode option) \<Rightarrow> (nat \<Rightarrow> bytes option) \<Rightarrow> bool \<Rightarrow> (bmp_file \<Rightarrow> 'h) \<Rightarrow> string \<Rightarrow> 'h res" where
  "generate_qr_code_image_2 encodeString malloc fopen_ok load szSourceSring =
     bindr (generate_qr_code_image_file encodeString malloc fopen_ok szSourceSring) (\<lambda>file. Inr (load file))"

section \<open>Drawing\<close>

definition dark :: "bytes \<Rightarrow> nat \<Rightarrow> bool" where
  "dark modules k \<longleftrightarrow> modules ! k AND 1 \<noteq> 0"

text \<open>The bytes of a module, of the dark modules of a row, and of all of them.\<close>

definition module_bytes :: "nat \<Rightarrow> nat \<Rightarrow> nat \<Rightarrow> nat \<Rightarrow> nat set" where
  "module_bytes bpp s adj dest = (\<Union>l < s. \<Union>n < s. {dest + n * bpp + adj * l..<dest + n * bpp + adj * l + bpp})"

definition row_bytes :: "nat \<Rightarrow> nat \<Rightarrow> nat \<Rightarrow> bytes \<Rightarrow> nat \<Rightarrow> nat \<Rightarrow> nat \<Rightarrow> nat set" where
  "row_bytes bpp s adj modules w y k =
     (\<Union>x < k. if dark modules (y * w + x) then module_bytes bpp s adj (adj * y * s + x * (bpp * s)) else {})"

definition rows_bytes :: "nat \<Rightarrow> nat \<Rightarrow> nat \<Rightarrow> bytes \<Rightarrow> nat \<Rightarrow> nat \<Rightarrow> nat set" where
  "rows_bytes bpp s adj modules w k = (\<Union>y < k. row_bytes bpp s adj modules w y w)"

text \<open>What the loops need of the store of a pixel.\<close>

locale pixel_store =
  fixes px :: "nat \<Rightarrow> bytes \<Rightarrow> bytes res" and bpp :: nat
  assumes px_paints: "p + bpp \<le> length buf \<Longrightarrow> \<exists>buf'. px p buf = Inr buf' \<and> painted 0 {p..<p + bpp} buf buf'"
begin

lemma draw_module_paints:
  assumes room: "dest + bpp * s + adj * (s - 1) \<le> length buf"
  shows "\<exists>buf'. draw_module px bpp s adj dest buf = Inr buf' \<and> painted 0 (module_bytes bpp s adj dest) buf buf'"
  unfolding draw_module_def module_bytes_def
proof (rule count_to_paints [OF _ refl])
  fix l and buf1 :: bytes assume l: "l < s" and len: "length buf1 = length buf"
  show "\<exists>buf'. count_to s (\<lambda>n. px (dest + n * bpp + adj * l)) buf1 = Inr buf'
      \<and> painted 0 (\<Union>n < s. {dest + n * bpp + adj * l..<dest + n * bpp + adj * l + bpp}) buf1 buf'"
  proof (rule count_to_paints [OF _ len])
    fix n and buf2 :: bytes assume n: "n < s" and len2: "length buf2 = length buf"
    have "n * bpp + bpp \<le> bpp * s" using n by (metis Suc_leI add.commute mult.commute mult_Suc mult_le_mono2)
    moreover have "adj * l \<le> adj * (s - 1)" using l by (intro mult_le_mono2) linarith
    ultimately show "\<exists>buf'. px (dest + n * bpp + adj * l) buf2 = Inr buf'
        \<and> painted 0 {dest + n * bpp + adj * l..<dest + n * bpp + adj * l + bpp} buf2 buf'"
      using room len2 by (intro px_paints) linarith
  qed
qed

lemma draw_row_paints:
  assumes y: "y < w" and s: "0 < s" and adj: "bpp * s * w \<le> adj"
    and modules: "length modules = w * w" and len: "length buf = adj * w * s"
  shows "\<exists>buf'. draw_row px bpp s adj w modules y (y * w, buf) = Inr (y * w + w, buf')
    \<and> painted 0 (row_bytes bpp s adj modules w y w) buf buf'"
proof -
  let ?base = "adj * y * s"
  have "\<exists>t. count_to w (\<lambda>_. draw_cell px bpp s adj modules) (?base, y * w, buf) = Inr t
      \<and> (fst t = ?base + w * (bpp * s) \<and> fst (snd t) = y * w + w
        \<and> painted 0 (row_bytes bpp s adj modules w y w) buf (snd (snd t)))"
  proof (rule count_to_inv [where P = "\<lambda>k t. fst t = ?base + k * (bpp * s) \<and> fst (snd t) = y * w + k
        \<and> painted 0 (row_bytes bpp s adj modules w y k) buf (snd (snd t))"])
    show "fst (?base, y * w, buf) = ?base + 0 * (bpp * s) \<and> fst (snd (?base, y * w, buf)) = y * w + 0
        \<and> painted 0 (row_bytes bpp s adj modules w y 0) buf (snd (snd (?base, y * w, buf)))"
      by (simp add: row_bytes_def)
  next
    fix x and t :: "nat \<times> nat \<times> bytes"
    assume x: "x < w" and P: "fst t = ?base + x * (bpp * s) \<and> fst (snd t) = y * w + x
        \<and> painted 0 (row_bytes bpp s adj modules w y x) buf (snd (snd t))"
    obtain buf1 where t: "t = (?base + x * (bpp * s), y * w + x, buf1)"
      and p1: "painted 0 (row_bytes bpp s adj modules w y x) buf buf1" using P by (cases t) auto
    have len1: "length buf1 = adj * w * s" using p1 len by (simp add: painted_def)
    have "Suc y * w \<le> w * w" using y by (intro mult_le_mono1) simp
    then have src: "y * w + x < length modules" using x modules by simp
    then have f: "fetch (y * w + x) 1 modules = Inr [modules ! (y * w + x)]"
      by (simp add: fetch_def take_Suc_conv_app_nth hd_drop_conv_nth [symmetric] take_Suc)
    have room: "?base + x * (bpp * s) + bpp * s + adj * (s - 1) \<le> length buf1"
    proof -
      have "x * (bpp * s) + bpp * s \<le> w * (bpp * s)" using x by (metis Suc_leI add.commute mult_Suc mult_le_mono1)
      also have "\<dots> \<le> adj" using adj by (simp add: mult.commute)
      finally have "?base + x * (bpp * s) + bpp * s + adj * (s - 1) \<le> adj * y * s + adj * s"
        using s by (cases s) simp_all
      also have "\<dots> = adj * Suc y * s" by (simp add: algebra_simps)
      also have "\<dots> \<le> adj * w * s" using y by (intro mult_le_mono1 mult_le_mono2) simp
      finally show ?thesis by (simp add: len1)
    qed
    obtain buf2 where b2: "(if dark modules (y * w + x) then draw_module px bpp s adj (?base + x * (bpp * s)) buf1 else Inr buf1) = Inr buf2"
      and p2: "painted 0 (if dark modules (y * w + x) then module_bytes bpp s adj (?base + x * (bpp * s)) else {}) buf1 buf2"
      using draw_module_paints [OF room] by (cases "dark modules (y * w + x)") auto
    have "draw_cell px bpp s adj modules t = Inr (?base + x * (bpp * s) + bpp * s, y * w + x + 1, buf2)"
      using b2 unfolding dark_def by (simp add: t draw_cell_def f [unfolded One_nat_def])
    moreover have "painted 0 (row_bytes bpp s adj modules w y (Suc x)) buf buf2"
      using painted_trans [OF p1 p2] by (simp only: row_bytes_def lessThan_Suc UN_insert Un_commute)
    ultimately show "\<exists>t'. draw_cell px bpp s adj modules t = Inr t'
        \<and> (fst t' = ?base + Suc x * (bpp * s) \<and> fst (snd t') = y * w + Suc x
          \<and> painted 0 (row_bytes bpp s adj modules w y (Suc x)) buf (snd (snd t')))"
      by (simp add: algebra_simps)
  qed
  then show ?thesis by (auto simp: draw_row_def)
qed

lemma draw_rows_paints:
  assumes s: "0 < s" and adj: "bpp * s * w \<le> adj" and modules: "length modules = w * w" and len: "length buf = adj * w * s"
  shows "\<exists>buf'. draw_rows px bpp s adj w modules buf = Inr buf' \<and> painted 0 (rows_bytes bpp s adj modules w w) buf buf'"
proof -
  have "\<exists>t. count_to w (draw_row px bpp s adj w modules) (0, buf) = Inr t
      \<and> (fst t = w * w \<and> painted 0 (rows_bytes bpp s adj modules w w) buf (snd t))"
  proof (rule count_to_inv [where P = "\<lambda>k t. fst t = k * w \<and> painted 0 (rows_bytes bpp s adj modules w k) buf (snd t)"])
    fix y and t :: "nat \<times> bytes"
    assume y: "y < w" and "fst t = y * w \<and> painted 0 (rows_bytes bpp s adj modules w y) buf (snd t)"
    then obtain buf1 where t: "t = (y * w, buf1)" and p1: "painted 0 (rows_bytes bpp s adj modules w y) buf buf1"
      by (cases t) auto
    then have "length buf1 = adj * w * s" using len by (simp add: painted_def)
    from draw_row_paints [OF y s adj modules this] obtain buf2 where
      b2: "draw_row px bpp s adj w modules y t = Inr (y * w + w, buf2)" "painted 0 (row_bytes bpp s adj modules w y w) buf1 buf2"
      by (auto simp: t)
    from painted_trans [OF p1 b2(2)] b2(1)
    show "\<exists>t'. draw_row px bpp s adj w modules y t = Inr t'
        \<and> (fst t' = Suc y * w \<and> painted 0 (rows_bytes bpp s adj modules w (Suc y)) buf (snd t'))"
      by (auto simp: rows_bytes_def lessThan_Suc Un_commute)
  qed (simp add: rows_bytes_def)
  then show ?thesis by (auto simp: draw_rows_def)
qed

end

interpretation px32: pixel_store store32 4
proof
  fix p and buf :: bytes assume "p + 4 \<le> length buf"
  from painted_store [OF this, of 0] show "\<exists>buf'. store32 p buf = Inr buf' \<and> painted 0 {p..<p + 4} buf buf'"
    by (simp add: store32_def eval_nat_numeral)
qed

interpretation px24: pixel_store store24 3
proof
  fix p and buf :: bytes assume room: "p + 3 \<le> length buf"
  from painted_byte [of p buf 0] room
  obtain b1 where b1: "store p [0] buf = Inr b1" "painted 0 {p} buf b1" by auto
  then have l1: "length b1 = length buf" by (simp add: painted_def)
  from painted_byte [of "p + 1" b1 0] room l1
  obtain b2 where b2: "store (p + 1) [0] b1 = Inr b2" "painted 0 {p + 1} b1 b2" by auto
  then have l2: "length b2 = length buf" using l1 by (simp add: painted_def)
  from painted_byte [of "p + 2" b2 0] room l2
  obtain b3 where b3: "store (p + 2) [0] b2 = Inr b3" "painted 0 {p + 2} b2 b3" by auto
  have "{p} \<union> ({p + 1} \<union> {p + 2}) = {p..<p + 3}" by auto
  with painted_trans [OF b1(2) painted_trans [OF b2(2) b3(2)]] b1(1) b2(1) b3(1)
  show "\<exists>buf'. store24 p buf = Inr buf' \<and> painted 0 {p..<p + 3} buf buf'" by (simp add: store24_def)
qed

section \<open>Pixels\<close>

lemma line_unique:
  assumes "adj * a + i = adj * b + (j::nat)" "i < adj" "j < adj"
  shows "a = b \<and> i = j"
proof -
  have "(adj * a + i) div adj = (adj * b + j) div adj" "(adj * a + i) mod adj = (adj * b + j) mod adj"
    using assms(1) by simp_all
  with assms(2,3) show ?thesis by simp
qed

lemma cell_unique:
  assumes "(Y::nat) = y * s + l" "l < s"
  shows "Y div s = y \<and> Y mod s = l"
  using assms by simp

text \<open>The bytes of pixel \<open>(X, Y)\<close> are drawn exactly when its module is dark.\<close>

lemma pixel_drawn:
  assumes s: "0 < s" and bpp: "bpp * s * w \<le> adj" and X: "X < w * s" and Y: "Y < w * s" and k: "k < bpp"
  shows "adj * Y + bpp * X + k \<in> rows_bytes bpp s adj modules w w \<longleftrightarrow> dark modules (Y div s * w + X div s)"
proof -
  have small: "bpp * (x * s + n) + k' < adj" if "x < w" "n < s" "k' < bpp" for x n k'
  proof -
    have "x * s + n + 1 \<le> w * s" using that by (metis Suc_eq_plus1 Suc_leI add_less_mono1 less_le_trans mult_Suc mult_le_mono1 add.commute add_lessD1 nat_add_left_cancel_less)
    then have "bpp * (x * s + n + 1) \<le> bpp * (w * s)" by (rule mult_le_mono2)
    with that(3) bpp show ?thesis by (simp add: algebra_simps)
  qed
  have XY: "X div s < w" "Y div s < w" using X Y by (simp_all add: less_mult_imp_div_less)
  have Xs: "X = X div s * s + X mod s" "X mod s < s" and Ys: "Y = Y div s * s + Y mod s" "Y mod s < s" using s by simp_all
  have addr: "adj * y * s + x * (bpp * s) + n * bpp + adj * l + k' = adj * (y * s + l) + (bpp * (x * s + n) + k')" for y x l n k'
    by (simp add: algebra_simps)
  have here: "adj * Y + bpp * X + k = adj * (Y div s * s + Y mod s) + (bpp * (X div s * s + X mod s) + k)" by simp
  show ?thesis
  proof
    assume "adj * Y + bpp * X + k \<in> rows_bytes bpp s adj modules w w"
    then obtain y x l n where yx: "y < w" "x < w" "dark modules (y * w + x)" "l < s" "n < s"
      and lo: "adj * y * s + x * (bpp * s) + n * bpp + adj * l \<le> adj * Y + bpp * X + k"
      and hi: "adj * Y + bpp * X + k < adj * y * s + x * (bpp * s) + n * bpp + adj * l + bpp"
      by (auto simp: rows_bytes_def row_bytes_def module_bytes_def split: if_splits)
    define j where "j = adj * Y + bpp * X + k - (adj * y * s + x * (bpp * s) + n * bpp + adj * l)"
    have j: "j < bpp" "adj * Y + bpp * X + k = adj * (y * s + l) + (bpp * (x * s + n) + j)"
      using lo hi unfolding addr [symmetric] j_def by linarith+
    have "adj * Y + (bpp * X + k) = adj * (y * s + l) + (bpp * (x * s + n) + j)" using j(2) by simp
    moreover have "bpp * X + k < adj" using small [OF XY(1) Xs(2) k] Xs(1) by simp
    ultimately have Y': "Y = y * s + l" and X': "bpp * X + k = bpp * (x * s + n) + j"
      using line_unique small [OF yx(2,5) j(1)] by blast+
    from line_unique [OF X' k j(1)] have "X = x * s + n" by simp
    with Y' yx show "dark modules (Y div s * w + X div s)" using cell_unique by simp
  next
    assume d: "dark modules (Y div s * w + X div s)"
    have "adj * Y + bpp * X + k \<in> module_bytes bpp s adj (adj * (Y div s) * s + X div s * (bpp * s))"
      unfolding module_bytes_def
    proof (intro UN_I)
      show "Y mod s \<in> {..<s}" "X mod s \<in> {..<s}" using s by simp_all
      show "adj * Y + bpp * X + k \<in> {adj * (Y div s) * s + X div s * (bpp * s) + X mod s * bpp + adj * (Y mod s)..<
          adj * (Y div s) * s + X div s * (bpp * s) + X mod s * bpp + adj * (Y mod s) + bpp}"
        using addr [of "Y div s" "X div s" "X mod s" "Y mod s" k] here k by simp
    qed
    with d XY show "adj * Y + bpp * X + k \<in> rows_bytes bpp s adj modules w w"
      unfolding rows_bytes_def row_bytes_def by (intro UN_I [of "Y div s"] UN_I [of "X div s"]) simp_all
  qed
qed

text \<open>The picture of a symbol: black where its module is dark, white elsewhere.\<close>

definition shade :: "bytes \<Rightarrow> nat \<Rightarrow> nat \<Rightarrow> nat \<Rightarrow> nat \<Rightarrow> 8 word" where
  "shade modules w s X Y = (if dark modules (Y div s * w + X div s) then 0 else 0xFF)"

lemma picture:
  assumes "painted 0 (rows_bytes bpp s adj modules w w) (replicate (adj * w * s) 0xFF) buf"
    and "0 < s" "bpp * s * w \<le> adj" "X < w * s" "Y < w * s" "k < bpp"
  shows "buf ! (adj * Y + bpp * X + k) = shade modules w s X Y"
proof -
  have "bpp * X + k < adj"
  proof -
    have "bpp * X + k < bpp * Suc X" using assms(6) by simp
    also have "\<dots> \<le> bpp * (w * s)" using assms(4) by (intro mult_le_mono2) simp
    finally show ?thesis using assms(3) by (simp add: algebra_simps)
  qed
  then have "adj * Y + bpp * X + k < adj * Suc Y" by simp
  also have "\<dots> \<le> adj * (w * s)" using assms(5) by (intro mult_le_mono2) simp
  finally have "adj * Y + bpp * X + k < adj * w * s" by (simp add: mult.assoc)
  with assms(1) pixel_drawn [OF assms(2-6)] show ?thesis by (simp add: painted_def shade_def)
qed

lemma scale_rate_pos: "0 < scale_rate w"
  by (simp add: scale_rate_def Let_def)

lemma image_exists:
  assumes "encode src = Some q" and "length (data q) = width q * width q" and W: "W = width q * scale_rate (width q)"
  shows "\<exists>bits. generate_qr_code_image encode True src = Inr (W, W, bits) \<and> length bits = 4 * W * W
    \<and> (\<forall>X < W. \<forall>Y < W. \<forall>k < 4. bits ! (4 * W * Y + 4 * X + k) = shade (data q) (width q) (scale_rate (width q)) X Y)"
proof -
  let ?w = "width q" and ?s = "scale_rate (width q)"
  have adj: "4 * ?s * ?w \<le> 4 * W" and size: "4 * W * ?w * ?s = 4 * W * W" by (simp_all add: W)
  from px32.draw_rows_paints [OF scale_rate_pos adj assms(2), of "replicate (4 * W * ?w * ?s) 0xFF"]
  obtain bits where b: "draw_rows store32 4 ?s (4 * W) ?w (data q) (replicate (4 * W * ?w * ?s) 0xFF) = Inr bits"
    "painted 0 (rows_bytes 4 ?s (4 * W) (data q) ?w ?w) (replicate (4 * W * ?w * ?s) 0xFF) bits" by auto
  have "length bits = 4 * W * W" using b(2) size by (simp add: painted_def)
  moreover have "bits ! (4 * W * Y + 4 * X + k) = shade (data q) ?w ?s X Y" if "X < W" "Y < W" "k < 4" for X Y k
    by (rule picture [OF b(2) scale_rate_pos adj that [unfolded W]])
  moreover have "width q * ?s * 4 = 4 * W" by (simp add: W)
  ultimately show ?thesis using b(1) assms(1) by (simp add: generate_qr_code_image_def Let_def W [symmetric] mult.commute [of W 4])
qed

text \<open>
  C32: The bitmap of a QR code is a faithful enlargement of the symbol: a square of side width times
  scale whose pixel (X, Y) is black exactly when the module X / scale, Y / scale is dark and white otherwise;
  no store leaves the buffer.
\<close>

theorem qr_image_pixels:
  assumes "encode src = Some q" and "length (data q) = width q * width q" and W: "W = width q * scale_rate (width q)"
  shows "\<exists>bits. generate_qr_code_image encode True src = Inr (W, W, bits) \<and> length bits = 4 * W * W
    \<and> (\<forall>X < W. \<forall>Y < W. \<forall>k < 4. bits ! (4 * W * Y + 4 * X + k) = shade (data q) (width q) (scale_rate (width q)) X Y)"
  using assms by (rule image_exists)

section \<open>The file is bottom row first\<close>

text \<open>After \<open>k\<close> exchanges, the first and the last \<open>k\<close> rows have changed places.\<close>

definition flipped :: "nat \<Rightarrow> nat \<Rightarrow> bytes \<Rightarrow> bytes \<Rightarrow> bool" where
  "flipped step k old new \<longleftrightarrow> length new = length old
     \<and> (\<forall>y < step. \<forall>x < step. new ! (y * step + x)
          = old ! ((if y < k \<or> step - k \<le> y then step - 1 - y else y) * step + x))"

lemma row_in: "y < step \<Longrightarrow> (y::nat) * step + step \<le> step * step"
  by (metis Suc_leI add.commute mult_Suc mult_le_mono1)

lemma row_neq:
  assumes "y \<noteq> z" "x < step"
  shows "\<not> (z * step \<le> y * step + x \<and> y * step + x < z * step + (step::nat))"
proof
  assume "z * step \<le> y * step + x \<and> y * step + x < z * step + step"
  then obtain i where "y * step + x = z * step + i" "i < step" using le_Suc_ex by (metis nat_add_left_cancel_less)
  then have "step * y + x = step * z + i" by (simp add: mult.commute)
  from line_unique [OF this assms(2) \<open>i < step\<close>] assms(1) show False by simp
qed

lemma nth_stored_row:
  assumes "store (z * step) row buf = Inr buf'" "length row = step" "x < step" "y * step + x < length buf"
  shows "buf' ! (y * step + x) = (if y = z then row ! x else buf ! (y * step + x))"
  using nth_store [OF assms(1,4)] assms(2,3) row_neq [of y z x step] by auto

lemma swap_rows_flips:
  assumes f: "flipped step k old new" and old: "length old = step * step" and k: "k < step div 2" and room: "step \<le> length pixels"
  shows "\<exists>pixels' new'. swap_rows step k (pixels, new) = Inr (pixels', new') \<and> length pixels' = length pixels
    \<and> flipped step (Suc k) old new'"
proof -
  have len: "length new = step * step" using f old by (simp add: flipped_def)
  have ks: "k < step" "step - 1 - k < step" "k \<noteq> step - 1 - k" using k by linarith+
  note in1 = row_in [OF ks(1)] and in2 = row_in [OF ks(2)]
  define row where "row = take step (drop (k * step) new)"
  define other where "other = take step (drop ((step - 1 - k) * step) new)"
  have l: "length row = step" "length other = step" using in1 in2 len by (simp_all add: row_def other_def)
  have nth: "row ! x = new ! (k * step + x)" "other ! x = new ! ((step - 1 - k) * step + x)" if "x < step" for x
  proof -
    have "k * step \<le> length new" "(step - 1 - k) * step \<le> length new" using in1 in2 len by linarith+
    with that show "row ! x = new ! (k * step + x)" "other ! x = new ! ((step - 1 - k) * step + x)"
      unfolding row_def other_def by (simp_all only: nth_take nth_drop)
  qed
  obtain p1 where p1: "store 0 row pixels = Inr p1" using l room by (simp add: store_def)
  obtain n1 where n1: "store (k * step) other new = Inr n1" using l in1 len by (simp add: store_def)
  have len1: "length n1 = step * step" using length_store [OF n1] len by simp
  have saved: "fetch 0 step p1 = Inr row" using p1 l room by (auto simp: store_def fetch_def split: if_splits)
  obtain n2 where n2: "store ((step - 1 - k) * step) row n1 = Inr n2" using l in2 len1 by (simp add: store_def)
  have "swap_rows step k (pixels, new) = Inr (p1, n2)"
  proof -
    have "fetch (k * step) step new = Inr row" "fetch ((step - 1 - k) * step) step new = Inr other"
      using in1 in2 len unfolding fetch_def row_def other_def by simp_all
    with p1 n1 n2 saved show ?thesis by (simp add: swap_rows_def)
  qed
  moreover have "flipped step (Suc k) old n2"
    unfolding flipped_def
  proof (intro conjI allI impI)
    show "length n2 = length old" using length_store [OF n2] len1 old by simp
    fix y x assume y: "y < step" and x: "x < step"
    have i: "y * step + x < step * step" using row_in [OF y] x by linarith
    have "n2 ! (y * step + x) = (if y = step - 1 - k then row ! x else if y = k then other ! x else new ! (y * step + x))"
      using nth_stored_row [OF n2 l(1) x, of y] nth_stored_row [OF n1 l(2) x, of y] i len len1 by simp
    also have "\<dots> = old ! ((if y < Suc k \<or> step - Suc k \<le> y then step - 1 - y else y) * step + x)"
    proof -
      have new: "new ! (z * step + x) = old ! ((if z < k \<or> step - k \<le> z then step - 1 - z else z) * step + x)" if "z < step" for z
        using f that x by (simp add: flipped_def)
      have "\<not> (k < k \<or> step - k \<le> k)" "\<not> (step - 1 - k < k \<or> step - k \<le> step - 1 - k)" using k by linarith+
      then have kk: "new ! (k * step + x) = old ! (k * step + x)" "new ! ((step - 1 - k) * step + x) = old ! ((step - 1 - k) * step + x)"
        using new [OF ks(1)] new [OF ks(2)] by simp_all
      consider "y = step - 1 - k" | "y = k" | "y \<noteq> step - 1 - k" "y \<noteq> k" by blast
      then show ?thesis
      proof cases
        case 1
        then have "step - 1 - y = k" "step - Suc k \<le> y" using ks by linarith+
        with 1 show ?thesis using nth(1) [OF x] kk(1) by simp
      next
        case 2
        then show ?thesis using nth(2) [OF x] kk(2) ks by simp
      next
        case 3
        then have "(y < Suc k \<or> step - Suc k \<le> y) = (y < k \<or> step - k \<le> y)" using y by linarith
        with 3 show ?thesis using new [OF y] by simp
      qed
    qed
    finally show "n2 ! (y * step + x) = old ! ((if y < Suc k \<or> step - Suc k \<le> y then step - 1 - y else y) * step + x)" .
  qed
  ultimately show ?thesis using length_store [OF p1] by blast
qed

lemma flip_rows_flips:
  assumes old: "length old = step * step" and room: "step \<le> length pixels"
  shows "\<exists>pixels' new. flip_rows step pixels old = Inr (pixels', new) \<and> length new = step * step
    \<and> (\<forall>y < step. \<forall>x < step. new ! (y * step + x) = old ! ((step - 1 - y) * step + x))"
proof -
  have "\<exists>t. count_to (step div 2) (swap_rows step) (pixels, old) = Inr t
      \<and> (length (fst t) = length pixels \<and> flipped step (step div 2) old (snd t))"
  proof (rule count_to_inv [where P = "\<lambda>k t. length (fst t) = length pixels \<and> flipped step k old (snd t)"])
    show "length (fst (pixels, old)) = length pixels \<and> flipped step 0 old (snd (pixels, old))"
      by (simp add: flipped_def)
  next
    fix k and t :: "bytes \<times> bytes"
    assume k: "k < step div 2" and P: "length (fst t) = length pixels \<and> flipped step k old (snd t)"
    from swap_rows_flips [OF conjunct2 [OF P] old k, of "fst t"] P room
    show "\<exists>t'. swap_rows step k t = Inr t' \<and> (length (fst t') = length pixels \<and> flipped step (Suc k) old (snd t'))" by auto
  qed
  then obtain p' new where n: "flip_rows step pixels old = Inr (p', new)" "flipped step (step div 2) old new"
    by (auto simp: flip_rows_def)
  have "new ! (y * step + x) = old ! ((step - 1 - y) * step + x)" if "y < step" "x < step" for x y
  proof (cases "y < step div 2 \<or> step - step div 2 \<le> y")
    case True
    with n(2) that show ?thesis by (simp add: flipped_def)
  next
    case False
    then have "step - 1 - y = y" using that(1) by presburger
    with n(2) that show ?thesis by (simp add: flipped_def)
  qed
  with n old show ?thesis by (auto simp: flipped_def)
qed

lemma div_mirror:
  assumes "Y < w * (s::nat)"
  shows "(w * s - 1 - Y) div s = w - 1 - Y div s"
proof -
  have s: "0 < s" using assms by (cases s) simp_all
  have q: "Y div s < w" using assms by (simp add: less_mult_imp_div_less)
  have r: "Y mod s < s" using s by simp
  obtain d where d: "w = Suc (Y div s + d)" using q less_iff_Suc_add by auto
  have "w * s = Y div s * s + d * s + s" by (subst d) (simp add: algebra_simps)
  moreover have "Y = Y div s * s + Y mod s" by simp
  ultimately have "w * s - 1 - Y = d * s + (s - 1 - Y mod s)" using r by linarith
  moreover have "(d * s + i) div s = d" if "i < s" for i using that s by simp
  moreover have "s - 1 - Y mod s < s" using s by simp
  moreover have "d = w - 1 - Y div s" using d by simp
  ultimately show ?thesis by metis
qed

lemma adjusted_width_ge: "n \<le> adjusted_width n"
  by (simp add: adjusted_width_def) presburger

text \<open>
  C33: The file and the dialog show the same picture. The file's rows are stored bottom first and padded to
  multiples of four bytes; read in that order its pixels are those of the bitmap, and its header gives their number.
\<close>

theorem qr_file_pixels:
  assumes "encode src = Some q" and "length (data q) = width q * width q" and "0 < width q"
    and W: "W = width q * scale_rate (width q)" and malloc: "\<forall>n. \<exists>p. malloc n = Some p \<and> length p = n"
  shows "\<exists>file bits. generate_qr_code_image_file encode malloc True src = Inr file
    \<and> generate_qr_code_image encode True src = Inr (W, W, bits)
    \<and> biWidth file = W \<and> biHeight file = W \<and> bfSize file = bfOffBits file + length (pixel_bytes file)
    \<and> length (pixel_bytes file) = adjusted_width (3 * W) * W
    \<and> (\<forall>X < W. \<forall>Y < W. \<forall>k < 3. pixel_bytes file ! (adjusted_width (3 * W) * (W - 1 - Y) + 3 * X + k) = bits ! (4 * W * Y + 4 * X + k))"
proof -
  let ?w = "width q" and ?s = "scale_rate (width q)"
  let ?adj = "adjusted_width (3 * W)"
  have s: "0 < ?s" by (rule scale_rate_pos)
  have adj: "3 * ?s * ?w \<le> ?adj" and size: "?adj * ?w * ?s = ?adj * W" and W3: "?w * ?s * 3 = 3 * W"
    using adjusted_width_ge [of "3 * W"] by (simp_all add: W ac_simps)
  obtain p0 where p0: "malloc (?adj * ?w * ?s) = Some p0" "length p0 = ?adj * ?w * ?s" using malloc by blast
  have "0 < ?adj" using assms(3) s adjusted_width_ge [of "3 * W"] unfolding W by (metis less_le_trans mult_pos_pos zero_less_numeral)
  then have "1 * ?w * 1 \<le> ?adj * ?w * ?s" using s by (intro mult_le_mono) simp_all
  then have room: "?w \<le> length p0" using p0(2) by simp
  from flip_rows_flips [OF assms(2) room] obtain p1 new where flip: "flip_rows ?w p0 (data q) = Inr (p1, new)" "length new = ?w * ?w"
    "\<And>y x. y < ?w \<Longrightarrow> x < ?w \<Longrightarrow> new ! (y * ?w + x) = data q ! ((?w - 1 - y) * ?w + x)" by blast
  from px24.draw_rows_paints [OF s adj flip(2), of "replicate (?adj * ?w * ?s) 0xFF"]
  obtain pixels where b: "draw_rows store24 3 ?s ?adj ?w new (replicate (?adj * ?w * ?s) 0xFF) = Inr pixels"
    "painted 0 (rows_bytes 3 ?s ?adj new ?w ?w) (replicate (?adj * ?w * ?s) 0xFF) pixels" by auto
  obtain bits where bits: "generate_qr_code_image encode True src = Inr (W, W, bits)"
    and at: "\<And>X Y k. X < W \<Longrightarrow> Y < W \<Longrightarrow> k < 4 \<Longrightarrow> bits ! (4 * W * Y + 4 * X + k) = shade (data q) ?w ?s X Y"
    using image_exists [where encode = encode and src = src and q = q, OF assms(1,2) W] by blast
  have "pixels ! (?adj * (W - 1 - Y) + 3 * X + k) = bits ! (4 * W * Y + 4 * X + k)" if X: "X < W" and Y: "Y < W" and k: "k < 3" for X Y k
  proof -
    have Y': "W - 1 - Y < ?w * ?s" "(W - 1 - Y) div ?s = ?w - 1 - Y div ?s" using Y div_mirror [of Y ?w ?s] by (simp_all add: W)
    have m: "Y div ?s < ?w" "X div ?s < ?w" using X Y by (simp_all add: W less_mult_imp_div_less)
    have "pixels ! (?adj * (W - 1 - Y) + 3 * X + k) = shade new ?w ?s X (W - 1 - Y)"
      by (rule picture [OF b(2) s adj X [unfolded W] Y'(1) k])
    also have "\<dots> = shade (data q) ?w ?s X Y"
      using flip(3) [of "?w - 1 - Y div ?s" "X div ?s"] m unfolding shade_def dark_def Y'(2) by simp
    finally show ?thesis using at [OF X Y] k by simp
  qed
  moreover have "length pixels = ?adj * W" using b(2) size by (simp add: painted_def)
  moreover have "generate_qr_code_image_file encode malloc True src = Inr \<lparr>bfType = 0x4d42,
      bfSize = SIZEOF_BITMAPFILEHEADER + SIZEOF_BITMAPINFOHEADER + ?adj * ?w * ?s,
      bfOffBits = SIZEOF_BITMAPFILEHEADER + SIZEOF_BITMAPINFOHEADER,
      biWidth = ?w * ?s, biHeight = ?w * ?s, biPlanes = 1, biBitCount = 24, pixel_bytes = pixels\<rparr>"
    using assms(1) p0(1) flip(1) b(1) by (simp add: generate_qr_code_image_file_def Let_def W3)
  ultimately show ?thesis using bits size by (simp add: W)
qed

section \<open>Witnesses\<close>

definition demo_symbol :: QRcode where
  "demo_symbol = \<lparr>width = 2, data = [1, 0, 0, 3]\<rparr>"

lemma qr_image_pixels_witness:
  "\<exists>bits. generate_qr_code_image (\<lambda>_. Some demo_symbol) True ''ssr'' = Inr (400, 400, bits)
    \<and> bits ! 0 = 0 \<and> bits ! (4 * 400 * 0 + 4 * 200 + 0) = 0xFF"
proof -
  have "length (data demo_symbol) = width demo_symbol * width demo_symbol" "(400::nat) = width demo_symbol * scale_rate (width demo_symbol)"
    by (simp_all add: demo_symbol_def scale_rate_def IMG_MAX_WIDTH_def)
  from qr_image_pixels [of "\<lambda>_. Some demo_symbol" "''ssr''" demo_symbol, OF refl this]
  obtain bits where bits: "generate_qr_code_image (\<lambda>_. Some demo_symbol) True ''ssr'' = Inr (400, 400, bits)"
    and at: "\<forall>X < 400. \<forall>Y < 400. \<forall>k < 4. bits ! (4 * 400 * Y + 4 * X + k)
      = shade (data demo_symbol) (width demo_symbol) (scale_rate (width demo_symbol)) X Y" by blast
  have "bits ! (4 * 400 * 0 + 4 * 0 + 0) = 0" "bits ! (4 * 400 * 0 + 4 * 200 + 0) = 0xFF"
    by (subst at [rule_format]; simp add: shade_def dark_def demo_symbol_def scale_rate_def IMG_MAX_WIDTH_def)+
  with bits show ?thesis by auto
qed

lemma qr_file_pixels_witness:
  "\<exists>file. generate_qr_code_image_file (\<lambda>_. Some demo_symbol) (\<lambda>n. Some (replicate n 0)) True ''ssr'' = Inr file
    \<and> biWidth file = 400 \<and> length (pixel_bytes file) = 480000"
proof -
  have "length (data demo_symbol) = width demo_symbol * width demo_symbol" "(400::nat) = width demo_symbol * scale_rate (width demo_symbol)"
    "0 < width demo_symbol" "\<forall>n. \<exists>p. (\<lambda>n. Some (replicate n (0::8 word))) n = Some p \<and> length p = n"
    by (simp_all add: demo_symbol_def scale_rate_def IMG_MAX_WIDTH_def)
  from qr_file_pixels [of "\<lambda>_. Some demo_symbol" "''ssr''" demo_symbol, OF refl this(1,3,2,4)]
  show ?thesis by (auto simp: adjusted_width_def)
qed

end
