(* ===== verification/Screen_Bitmap.thy ===== *)
theory Screen_Bitmap
  imports Byte_Buffer
begin

text \<open>
  Bitmaps (save\_bitmap.c), the capture of the screen (capture\_screen.c) and the reading of QR codes
  from it (qrcode\_dec.c). A bitmap is its size, its depth and the bytes \<open>GetDIBits\<close> delivers, lines padded
  to four bytes. The imaging component (WIC) and the symbol scanner (zbar) are parameters. The grey value is
  computed in double precision, which is written out over the integers.
\<close>

section \<open>Saving to a file\<close>

datatype image_format = image_format_bitmap | image_format_png | image_format_jpg

datatype wic_call = GetObject | CoCreateInstance | CreateBitmapFromHBITMAP | CreateStream | InitializeFromFilename
  | CreateEncoder image_format | Encoder_Initialize | CreateNewFrame | Frame_Initialize | SetSize | SetPixelFormat
  | WriteSource | Frame_Commit | Encoder_Commit

datatype wic_object = factory | wic_bitmap | stream | encoder | frame

text \<open>The calls made, the interfaces obtained and the ones released; \<open>hr\<close> is the last result.\<close>

record wic_state =
  hr :: int
  calls :: "wic_call list"
  obtained :: "wic_object list"
  released :: "wic_object list"

definition SUCCEEDED :: "int \<Rightarrow> bool" where
  "SUCCEEDED r \<longleftrightarrow> 0 \<le> r"

definition E_FAIL :: int where
  "E_FAIL = - 2147467259"

definition S_OK :: int where
  "S_OK = 0"

text \<open>\<open>if (SUCCEEDED(hr)) hr = call(...)\<close>, for a call that hands out an interface or none.\<close>

definition wic :: "(wic_call \<Rightarrow> int) \<Rightarrow> wic_call \<Rightarrow> wic_object option \<Rightarrow> wic_state \<Rightarrow> wic_state" where
  "wic answer call obj s =
     (if SUCCEEDED (hr s)
      then s\<lparr>hr := answer call, calls := calls s @ [call],
             obtained := (case obj of Some x \<Rightarrow> if SUCCEEDED (answer call) then obtained s @ [x] else obtained s
                                    | None \<Rightarrow> obtained s)\<rparr>
      else s)"

definition release :: "wic_object \<Rightarrow> wic_state \<Rightarrow> wic_state" where
  "release x s = (if x \<in> set (obtained s) then s\<lparr>released := released s @ [x]\<rparr> else s)"

definition save_steps :: "image_format \<Rightarrow> (wic_call \<times> wic_object option) list" where
  "save_steps fmt =
     [(CoCreateInstance, Some factory), (CreateBitmapFromHBITMAP, Some wic_bitmap), (CreateStream, Some stream),
      (InitializeFromFilename, None), (CreateEncoder fmt, Some encoder), (Encoder_Initialize, None),
      (CreateNewFrame, Some frame), (Frame_Initialize, None), (SetSize, None), (SetPixelFormat, None),
      (WriteSource, None), (Frame_Commit, None), (Encoder_Commit, None)]"

definition save_bitmap_to_file :: "(wic_call \<Rightarrow> int) \<Rightarrow> bool \<Rightarrow> image_format \<Rightarrow> wic_state" where
  "save_bitmap_to_file answer getobject_ok fmt =
     (let s0 = \<lparr>hr = (if getobject_ok then S_OK else E_FAIL), calls = [GetObject], obtained = [], released = []\<rparr>;
          s1 = fold (\<lambda>(call, obj). wic answer call obj) (save_steps fmt) s0
      in fold release [frame, encoder, stream, wic_bitmap, factory] s1)"

definition save_bitmap_to_bmp_file :: "(wic_call \<Rightarrow> int) \<Rightarrow> bool \<Rightarrow> wic_state" where
  "save_bitmap_to_bmp_file answer getobject_ok = save_bitmap_to_file answer getobject_ok image_format_bitmap"

definition save_bitmap_to_png_file :: "(wic_call \<Rightarrow> int) \<Rightarrow> bool \<Rightarrow> wic_state" where
  "save_bitmap_to_png_file answer getobject_ok = save_bitmap_to_file answer getobject_ok image_format_png"

definition save_bitmap_to_jpg_file :: "(wic_call \<Rightarrow> int) \<Rightarrow> bool \<Rightarrow> wic_state" where
  "save_bitmap_to_jpg_file answer getobject_ok = save_bitmap_to_file answer getobject_ok image_format_jpg"

section \<open>Grey values\<close>

text \<open>
  A non-negative double is an integer number of units of 2 to the minus 56; rounding keeps 53
  significant bits, to the nearest and ties to even. The constants are the doubles nearest to 0.1, 0.6 and 0.3.
\<close>

fun bit_length :: "nat \<Rightarrow> nat" where
  "bit_length n = (if n = 0 then 0 else Suc (bit_length (n div 2)))"

declare bit_length.simps [simp del]

definition round_double :: "nat \<Rightarrow> nat" where
  "round_double n =
     (let e = bit_length n - 53; q = n div 2 ^ e; r = n mod 2 ^ e
      in if e = 0 then n
         else if 2 ^ (e - 1) < r \<or> (r = 2 ^ (e - 1) \<and> odd q) then (q + 1) * 2 ^ e
         else q * 2 ^ e)"

definition double_0_1 :: nat where "double_0_1 = 7205759403792794"
definition double_0_6 :: nat where "double_0_6 = 43234556422756760"
definition double_0_3 :: nat where "double_0_3 = 21617278211378380"

definition gray :: "8 word \<Rightarrow> 8 word \<Rightarrow> 8 word \<Rightarrow> 8 word" where
  "gray b0 b1 b2 =
     (let blue = round_double (double_0_1 * unat b0); green = round_double (double_0_6 * unat b1);
          red = round_double (double_0_3 * unat b2)
      in word_of_nat (round_double (round_double (blue + green) + red) div 2 ^ 56))"

section \<open>Bitmaps\<close>

record BITMAP =
  bmWidth :: nat
  bmHeight :: nat
  bmBitsPixel :: nat
  dib :: bytes

definition bitmap_clone :: "BITMAP \<Rightarrow> BITMAP" where
  "bitmap_clone src = src"

text \<open>The bytes of a line as the system pads it, and the pixels of a line as the loops count them.\<close>

definition line_bytes :: "nat \<Rightarrow> nat \<Rightarrow> nat" where
  "line_bytes w bits_pixel = ((w * bits_pixel + 31) div 32) * 4"

definition stride :: "nat \<Rightarrow> nat \<Rightarrow> nat" where
  "stride w bits_pixel = w + (w * bits_pixel div 8) mod 4"

text \<open>The grey value of the pixel in the three bytes from \<open>i\<close>.\<close>

definition gray_at :: "nat \<Rightarrow> bytes \<Rightarrow> 8 word res" where
  "gray_at i bits = bindr (fetch i 3 bits) (\<lambda>b. Inr (gray (b ! 0) (b ! 1) (b ! 2)))"

text \<open>\<open>DebugBreak\<close> is an assertion that failed.\<close>

definition bitmap_grayscale :: "BITMAP \<Rightarrow> BITMAP res" where
  "bitmap_grayscale bm =
     (if bmBitsPixel bm < 24 then Inl Assert_Failed
      else let s = stride (bmWidth bm) (bmBitsPixel bm)
           in bindr (count_to (bmHeight bm) (\<lambda>y. count_to s (\<lambda>x bits.
                let i = (x + y * s) * bmBitsPixel bm div 8
                in bindr (gray_at i bits) (\<lambda>g. store i [g, g, g] bits))) (dib bm)) (\<lambda>bits.
              Inr (bm\<lparr>dib := bits\<rparr>)))"

text \<open>\<open>target0\<close> is what the allocated memory holds.\<close>

definition extract_bitmap_in_grayscale_8bpp :: "BITMAP \<Rightarrow> (nat \<Rightarrow> bytes) \<Rightarrow> (nat \<times> nat \<times> bytes) res" where
  "extract_bitmap_in_grayscale_8bpp bm allocator =
     (if bmBitsPixel bm < 24 then Inl Assert_Failed
      else let s = stride (bmWidth bm) (bmBitsPixel bm)
           in bindr (count_to (bmHeight bm) (\<lambda>y. count_to s (\<lambda>x target.
                let i = (x + y * s) * bmBitsPixel bm div 8
                in bindr (gray_at i (dib bm)) (\<lambda>g. store (y * bmWidth bm + x) [g] target)))
                (allocator (bmWidth bm * bmHeight bm))) (\<lambda>target.
              Inr (bmWidth bm, bmHeight bm, target)))"

section \<open>Reading a QR code from the screen\<close>

text \<open>The screen as a bitmap of its own depth.\<close>

definition capture_screen :: "nat \<Rightarrow> nat \<Rightarrow> nat \<Rightarrow> bytes \<Rightarrow> BITMAP" where
  "capture_screen screen_width screen_height depth pixels =
     \<lparr>bmWidth = screen_width, bmHeight = screen_height, bmBitsPixel = depth, dib = pixels\<rparr>"

text \<open>
  The first symbol \<open>scan\<close> finds in the grey picture; \<open>None\<close> when there is none or no memory for it.
\<close>

definition qr_code_decoder ::
  "(nat \<Rightarrow> nat \<Rightarrow> bytes \<Rightarrow> string list) \<Rightarrow> (nat \<times> nat \<times> bytes) res \<Rightarrow> bool \<Rightarrow> string option res" where
  "qr_code_decoder scan get_data alloc_ok =
     bindr get_data (\<lambda>(w, h, raw).
       case scan w h raw of
         [] \<Rightarrow> Inr None
       | symbol # _ \<Rightarrow> Inr (if alloc_ok then Some symbol else None))"

section \<open>Saving\<close>

lemma wic_obtained:
  "set (obtained (wic answer call obj s)) \<subseteq> set (obtained s) \<union> set_option obj"
  by (auto simp: wic_def split: option.splits)

lemma release_fold:
  "distinct xs \<Longrightarrow> set xs \<inter> set (released s) = {} \<Longrightarrow> distinct (released s) \<Longrightarrow>
   distinct (released (fold release xs s)) \<and> set (released (fold release xs s)) = set (released s) \<union> (set xs \<inter> set (obtained s))
   \<and> obtained (fold release xs s) = obtained s \<and> hr (fold release xs s) = hr s \<and> calls (fold release xs s) = calls s"
  by (induction xs arbitrary: s) (auto simp: release_def)

lemma all_objects: "x \<in> set [frame, encoder, stream, wic_bitmap, factory]"
  by (cases x) simp_all

lemma steps_released: "released (fold (\<lambda>(call, obj). wic answer call obj) cs s) = released s"
  by (induction cs arbitrary: s) (auto simp: wic_def)

text \<open>The calls of a run: up to the first that fails, whose result is the result of the run.\<close>

lemma steps_failed:
  "\<not> SUCCEEDED (hr s) \<Longrightarrow> fold (\<lambda>(call, obj). wic answer call obj) cs s = s"
  by (induction cs) (auto simp: wic_def)

lemma steps_run:
  "SUCCEEDED (hr s) \<Longrightarrow>
   calls (fold (\<lambda>(call, obj). wic answer call obj) cs s)
     = calls s @ takeWhile (\<lambda>c. SUCCEEDED (answer c)) (map fst cs) @ take 1 (dropWhile (\<lambda>c. SUCCEEDED (answer c)) (map fst cs))
   \<and> (SUCCEEDED (hr (fold (\<lambda>(call, obj). wic answer call obj) cs s)) \<longleftrightarrow> (\<forall>c \<in> fst ` set cs. SUCCEEDED (answer c)))"
proof (induction cs arbitrary: s)
  case (Cons c cs)
  obtain call obj where c: "c = (call, obj)" by (cases c)
  let ?s = "wic answer call obj s"
  have w: "hr ?s = answer call" "calls ?s = calls s @ [call]" using Cons.prems by (simp_all add: wic_def)
  show ?case
  proof (cases "SUCCEEDED (answer call)")
    case True
    with Cons.IH [of ?s] w show ?thesis by (simp add: c)
  next
    case False
    with steps_failed [of ?s answer cs] w show ?thesis by (simp add: c)
  qed
qed simp

text \<open>
  C34: However far the saving of a bitmap comes, every interface it obtained is released exactly once.
\<close>

theorem save_releases_all:
  "distinct (released (save_bitmap_to_file answer getobject_ok fmt))
   \<and> set (released (save_bitmap_to_file answer getobject_ok fmt)) = set (obtained (save_bitmap_to_file answer getobject_ok fmt))"
proof -
  define s1 where "s1 = fold (\<lambda>(call, obj). wic answer call obj) (save_steps fmt)
    \<lparr>hr = (if getobject_ok then S_OK else E_FAIL), calls = [GetObject], obtained = [], released = []\<rparr>"
  have r: "released s1 = []" by (simp add: s1_def steps_released)
  have "save_bitmap_to_file answer getobject_ok fmt = fold release [frame, encoder, stream, wic_bitmap, factory] s1"
    by (simp add: save_bitmap_to_file_def s1_def Let_def)
  with release_fold [of "[frame, encoder, stream, wic_bitmap, factory]" s1] r all_objects show ?thesis by auto
qed

section \<open>Grey pictures\<close>

lemma count_to_keeps:
  assumes "count_to n body s = Inr s'" and "I s" and "\<And>i s s'. I s \<Longrightarrow> body i s = Inr s' \<Longrightarrow> I s'"
  shows "I s'"
  using assms(1)
proof (induction n arbitrary: s')
  case (Suc n)
  then show ?case using assms(3) by (fastforce simp: count_to_Suc bindr_eq_Inr)
qed (use assms(2) in simp)

lemma count_to_reaches:
  assumes "count_to n body s = Inr s'" and "I s" and "\<And>i s s'. I s \<Longrightarrow> body i s = Inr s' \<Longrightarrow> I s'" and "i < n"
  shows "\<exists>t t'. I t \<and> body i t = Inr t'"
  using assms(1,4)
proof (induction n arbitrary: s')
  case (Suc n)
  from Suc.prems(1) obtain t where t: "count_to n body s = Inr t" "body n t = Inr s'"
    by (auto simp: count_to_Suc bindr_eq_Inr)
  from count_to_keeps [OF t(1), of I] assms(2,3) have "I t" by blast
  with t Suc show ?case by (metis less_Suc_eq)
qed simp

text \<open>The index of a pixel, when the lines are not padded.\<close>

lemma stride_exact: "(w * bpp div 8) mod 4 = 0 \<Longrightarrow> stride w bpp = w"
  by (simp add: stride_def)

lemma line_exact: "bpp \<in> {24, 32} \<Longrightarrow> (w * bpp div 8) mod 4 = 0 \<Longrightarrow> line_bytes w bpp = w * (bpp div 8)"
  by (auto simp: line_bytes_def) presburger+

lemma pixel_index: "bpp \<in> {24, 32::nat} \<Longrightarrow> n * bpp div 8 = n * (bpp div 8)"
  by auto

lemma gray_at_in: "i + 3 \<le> length bits \<Longrightarrow> gray_at i bits = Inr (gray (bits ! i) (bits ! (i + 1)) (bits ! (i + 2)))"
  by (simp add: gray_at_def fetch_def nth_drop add.commute)

lemma gray_at_Inr: "gray_at i bits = Inr g \<Longrightarrow> i + 3 \<le> length bits"
  by (auto simp: gray_at_def fetch_def bindr_def split: if_splits)

lemma pixel_room:
  assumes "x < w" "y < h" "3 \<le> (B::nat)"
  shows "(y * w + x) * B + 3 \<le> w * h * B" "y * w + x < w * h"
proof -
  have "y * w + w \<le> h * w" using assms(2) by (metis Suc_leI add.commute mult_Suc mult_le_mono1)
  then have "y * w + x + 1 \<le> w * h" using assms(1) by (simp add: mult.commute)
  then show "y * w + x < w * h" by simp
  from \<open>y * w + x + 1 \<le> w * h\<close> have "(y * w + x + 1) * B \<le> w * h * B" by (rule mult_le_mono1)
  with assms(3) show "(y * w + x) * B + 3 \<le> w * h * B" by (simp add: algebra_simps)
qed

text \<open>A loop over the pixels of lines of \<open>w\<close>, in order.\<close>

lemma pixels_inv:
  assumes "P 0 s" and "\<And>x y s. x < w \<Longrightarrow> y < h \<Longrightarrow> P (y * w + x) s \<Longrightarrow> \<exists>s'. body y x s = Inr s' \<and> P (y * w + x + 1) s'"
  shows "\<exists>s'. count_to h (\<lambda>y. count_to w (body y)) s = Inr s' \<and> P (h * w) s'"
proof (rule count_to_inv [where P = "\<lambda>y. P (y * w)"])
  fix y s assume y: "y < h" and P: "P (y * w) s"
  have "\<exists>s'. count_to w (body y) s = Inr s' \<and> P (y * w + w) s'"
    by (rule count_to_inv [where P = "\<lambda>x. P (y * w + x)"]) (use P assms(2) y in auto)
  then show "\<exists>s'. count_to w (body y) s = Inr s' \<and> P (Suc y * w) s'" by (simp add: add.commute)
qed (use assms(1) in simp)

definition gray_pixel :: "BITMAP \<Rightarrow> nat \<Rightarrow> 8 word" where
  "gray_pixel bm n = (let i = n * (bmBitsPixel bm div 8) in gray (dib bm ! i) (dib bm ! (i + 1)) (dib bm ! (i + 2)))"

lemma extract_pixels:
  assumes bpp: "bmBitsPixel bm \<in> {24, 32}" and exact: "(bmWidth bm * bmBitsPixel bm div 8) mod 4 = 0"
    and len: "length (dib bm) = line_bytes (bmWidth bm) (bmBitsPixel bm) * bmHeight bm" and alloc: "\<And>n. length (allocator n) = n"
  shows "\<exists>target. extract_bitmap_in_grayscale_8bpp bm allocator = Inr (bmWidth bm, bmHeight bm, target)
    \<and> length target = bmWidth bm * bmHeight bm
    \<and> (\<forall>n < bmWidth bm * bmHeight bm. target ! n = gray_pixel bm n)"
proof -
  let ?w = "bmWidth bm" and ?h = "bmHeight bm" and ?B = "bmBitsPixel bm div 8"
  have B: "3 \<le> ?B" using bpp by auto
  have L: "length (dib bm) = ?w * ?h * ?B" using len line_exact [OF bpp exact] by (simp add: ac_simps)
  have "\<exists>target. count_to ?h (\<lambda>y. count_to ?w (\<lambda>x target. let i = (x + y * ?w) * bmBitsPixel bm div 8
        in bindr (gray_at i (dib bm)) (\<lambda>g. store (y * ?w + x) [g] target))) (allocator (?w * ?h)) = Inr target
      \<and> (length target = ?w * ?h \<and> (\<forall>n < ?h * ?w. target ! n = gray_pixel bm n))"
  proof (rule pixels_inv [where P = "\<lambda>k target. length target = ?w * ?h \<and> (\<forall>n < k. target ! n = gray_pixel bm n)"])
    fix x y and target :: bytes
    assume x: "x < ?w" and y: "y < ?h" and P: "length target = ?w * ?h \<and> (\<forall>n < y * ?w + x. target ! n = gray_pixel bm n)"
    note room = pixel_room [OF x y B]
    have "gray_at ((y * ?w + x) * ?B) (dib bm) = Inr (gray_pixel bm (y * ?w + x))"
      using room(1) L by (simp add: gray_at_in gray_pixel_def Let_def)
    moreover obtain t where t: "store (y * ?w + x) [gray_pixel bm (y * ?w + x)] target = Inr t"
      using room(2) P by (simp add: store_def)
    moreover have "length t = ?w * ?h" using length_store [OF t] P by simp
    moreover have "\<forall>n < y * ?w + x + 1. t ! n = gray_pixel bm n"
      using nth_store [OF t] P room(2) by (auto simp: less_Suc_eq)
    ultimately show "\<exists>s'. (let i = (x + y * ?w) * bmBitsPixel bm div 8
        in bindr (gray_at i (dib bm)) (\<lambda>g. store (y * ?w + x) [g] target)) = Inr s'
      \<and> (length s' = ?w * ?h \<and> (\<forall>n < y * ?w + x + 1. s' ! n = gray_pixel bm n))"
      by (simp add: Let_def pixel_index [OF bpp] add.commute)
  qed (simp add: alloc)
  then obtain target where t: "count_to ?h (\<lambda>y. count_to ?w (\<lambda>x target. let i = (x + y * ?w) * bmBitsPixel bm div 8
        in bindr (gray_at i (dib bm)) (\<lambda>g. store (y * ?w + x) [g] target))) (allocator (?w * ?h)) = Inr target"
      "length target = ?w * ?h" "\<forall>n < ?h * ?w. target ! n = gray_pixel bm n" by blast
  have "\<not> bmBitsPixel bm < 24" using bpp by auto
  then have "extract_bitmap_in_grayscale_8bpp bm allocator = Inr (?w, ?h, target)"
    unfolding extract_bitmap_in_grayscale_8bpp_def stride_exact [OF exact] Let_def using t(1) by (simp add: Let_def)
  with t(2,3) show ?thesis by (simp add: mult.commute)
qed

text \<open>A nest of loops that ends well has gone through its last iteration.\<close>

lemma nest_reaches_last:
  assumes run: "count_to h (\<lambda>y. count_to n (body y)) s = Inr s'" and "I s" and "0 < h" "0 < n"
    and keep: "\<And>y x s s'. I s \<Longrightarrow> body y x s = Inr s' \<Longrightarrow> I s'"
  shows "\<exists>t t'. I t \<and> body (h - 1) (n - 1) t = Inr t'"
proof -
  have keeps: "I s'" if "I s" "count_to n (body y) s = Inr s'" for y s s'
    by (rule count_to_keeps [where I = I, OF that(2,1) keep])
  have "\<exists>t t'. I t \<and> count_to n (body (h - 1)) t = Inr t'"
    by (rule count_to_reaches [where body = "\<lambda>y. count_to n (body y)" and I = I, OF run \<open>I s\<close>]) (use keeps assms(3) in blast, use assms(3) in simp)
  then obtain t t' where t: "I t" "count_to n (body (h - 1)) t = Inr t'" by blast
  show ?thesis
    by (rule count_to_reaches [where I = I, OF t(2,1)]) (use keep in blast, use assms(4) in simp)
qed

text \<open>
  C35: The grey picture handed to the symbol reader is written inside its buffer exactly when the lines of
  the bitmap need no padding: then it has one byte per pixel, the grey value of that pixel. (The loops take
  the padding bytes for pixels, and their last one writes past the end.)
\<close>

theorem extract_in_bounds_iff:
  assumes bpp: "bmBitsPixel bm \<in> {24, 32}" and size: "0 < bmWidth bm" "0 < bmHeight bm"
    and len: "length (dib bm) = line_bytes (bmWidth bm) (bmBitsPixel bm) * bmHeight bm" and alloc: "\<And>n. length (allocator n) = n"
  shows "(\<exists>target. extract_bitmap_in_grayscale_8bpp bm allocator = Inr (bmWidth bm, bmHeight bm, target)
      \<and> length target = bmWidth bm * bmHeight bm \<and> (\<forall>n < bmWidth bm * bmHeight bm. target ! n = gray_pixel bm n))
    \<longleftrightarrow> (bmWidth bm * bmBitsPixel bm div 8) mod 4 = 0"
proof
  let ?w = "bmWidth bm" and ?h = "bmHeight bm" and ?s = "stride (bmWidth bm) (bmBitsPixel bm)"
  let ?body = "\<lambda>y x target. bindr (gray_at ((x + y * ?s) * bmBitsPixel bm div 8) (dib bm)) (\<lambda>g. store (y * ?w + x) [g] target)"
  assume "\<exists>target. extract_bitmap_in_grayscale_8bpp bm allocator = Inr (?w, ?h, target)
      \<and> length target = ?w * ?h \<and> (\<forall>n < ?w * ?h. target ! n = gray_pixel bm n)"
  then obtain target where run: "count_to ?h (\<lambda>y. count_to ?s (?body y)) (allocator (?w * ?h)) = Inr target"
    by (auto simp: extract_bitmap_in_grayscale_8bpp_def Let_def bindr_eq_Inr split: if_splits)
  have s: "0 < ?s" using size(1) by (simp add: stride_def)
  have keep: "length t' = ?w * ?h" if "length t = ?w * ?h" "?body y x t = Inr t'" for y x t t'
    using that length_store by (auto simp: bindr_eq_Inr)
  have "\<exists>t t'. length t = ?w * ?h \<and> ?body (?h - 1) (?s - 1) t = Inr t'"
    by (rule nest_reaches_last [where I = "\<lambda>t. length t = ?w * ?h", OF run alloc size(2) s keep])
  then obtain t t' where t: "length t = ?w * ?h" "?body (?h - 1) (?s - 1) t = Inr t'" by blast
  then have "(?h - 1) * ?w + ?s \<le> ?h * ?w"
    using s by (auto simp: bindr_eq_Inr store_def mult.commute split: if_splits)
  moreover have "?h * ?w = (?h - 1) * ?w + ?w" using size(2) by (cases ?h) simp_all
  ultimately have "?s \<le> ?w" by linarith
  then show "(?w * bmBitsPixel bm div 8) mod 4 = 0" by (simp add: stride_def)
qed (use extract_pixels [of bm allocator] bpp len alloc in simp)

lemma line_bytes_24: "line_bytes w 24 = w * 3 + w mod 4"
proof -
  define q r where "q = w div 4" and "r = w mod 4"
  have w: "w = 4 * q + r" by (simp add: q_def r_def)
  have r: "r = 0 \<or> r = 1 \<or> r = 2 \<or> r = 3" unfolding r_def by linarith
  have "w * 24 + 31 = (24 * r + 31) + 32 * (3 * q)" by (simp add: w)
  then have "(w * 24 + 31) div 32 = 3 * q + (24 * r + 31) div 32" by simp
  then have "line_bytes w 24 = 12 * q + (24 * r + 31) div 32 * 4" by (simp add: line_bytes_def)
  also have "\<dots> = w * 3 + r" using r w by auto
  finally show ?thesis by (simp add: r_def)
qed

lemma stride_24: "3 * stride w 24 \<le> line_bytes w 24 \<longleftrightarrow> w mod 4 \<in> {0, 3}"
proof -
  have "stride w 24 = w + (3 * w) mod 4" by (simp add: stride_def mult.commute)
  moreover have "w mod 4 = 0 \<or> w mod 4 = 1 \<or> w mod 4 = 2 \<or> w mod 4 = 3" by linarith
  moreover have "(3 * w) mod 4 = (3 * (w mod 4)) mod 4" by (simp add: mod_mult_right_eq)
  ultimately show ?thesis unfolding line_bytes_24 by auto
qed

text \<open>
  Turning a bitmap of 24 bits a pixel grey stays inside the buffer exactly for widths that are 0
  or 3 modulo 4.
\<close>

theorem grayscale_in_bounds_iff:
  assumes "bmBitsPixel bm = 24" and size: "0 < bmWidth bm" "0 < bmHeight bm"
    and len: "length (dib bm) = line_bytes (bmWidth bm) 24 * bmHeight bm"
  shows "(\<exists>bm'. bitmap_grayscale bm = Inr bm') \<longleftrightarrow> bmWidth bm mod 4 \<in> {0, 3}"
proof -
  let ?h = "bmHeight bm" and ?s = "stride (bmWidth bm) 24"
  let ?body = "\<lambda>y x bits. bindr (gray_at ((x + y * ?s) * 3) bits) (\<lambda>g. store ((x + y * ?s) * 3) [g, g, g] bits)"
  have i24: "n * 24 div 8 = n * (3::nat)" for n by simp
  have "bitmap_grayscale bm = bindr (count_to ?h (\<lambda>y. count_to ?s (?body y)) (dib bm)) (\<lambda>bits. Inr (bm\<lparr>dib := bits\<rparr>))"
    unfolding bitmap_grayscale_def assms(1) Let_def i24 by (simp only: less_irrefl if_False)
  then have run: "(\<exists>bm'. bitmap_grayscale bm = Inr bm') \<longleftrightarrow> (\<exists>bits. count_to ?h (\<lambda>y. count_to ?s (?body y)) (dib bm) = Inr bits)"
    by (cases "count_to ?h (\<lambda>y. count_to ?s (?body y)) (dib bm)") (simp_all only: bindr_simps, auto)
  have keep: "length s' = length (dib bm)" if "length s = length (dib bm)" "?body y x s = Inr s'" for y x s s'
    using that length_store by (auto simp: bindr_eq_Inr)
  have s: "0 < ?s" using size(1) by (simp add: stride_def)
  have "(\<exists>bits. count_to ?h (\<lambda>y. count_to ?s (?body y)) (dib bm) = Inr bits) \<longleftrightarrow> 3 * ?s \<le> line_bytes (bmWidth bm) 24"
  proof
    assume "\<exists>bits. count_to ?h (\<lambda>y. count_to ?s (?body y)) (dib bm) = Inr bits"
    then obtain bits where r: "count_to ?h (\<lambda>y. count_to ?s (?body y)) (dib bm) = Inr bits" by blast
    have "\<exists>t t'. length t = length (dib bm) \<and> ?body (?h - 1) (?s - 1) t = Inr t'"
      by (rule nest_reaches_last [where I = "\<lambda>t. length t = length (dib bm)", OF r refl size(2) s keep])
    then obtain t t' where "length t = length (dib bm)" "?body (?h - 1) (?s - 1) t = Inr t'" by blast
    then have "(?s - 1 + (?h - 1) * ?s) * 3 + 3 \<le> length (dib bm)" by (auto simp: bindr_eq_Inr dest: gray_at_Inr)
    moreover have "(?s - 1 + (?h - 1) * ?s) * 3 + 3 = 3 * ?s * ?h" using s size(2) by (cases ?h; cases ?s) (simp_all add: algebra_simps)
    ultimately show "3 * ?s \<le> line_bytes (bmWidth bm) 24" using len size(2) by simp
  next
    assume le: "3 * ?s \<le> line_bytes (bmWidth bm) 24"
    have "\<exists>bits. count_to ?h (\<lambda>y. count_to ?s (?body y)) (dib bm) = Inr bits \<and> length bits = length (dib bm)"
    proof (rule pixels_inv [where P = "\<lambda>k bits. length bits = length (dib bm)"])
      fix x y and bits :: bytes assume x: "x < ?s" and y: "y < ?h" and l: "length bits = length (dib bm)"
      have "(y * ?s + x) * 3 + 3 \<le> ?s * ?h * 3" by (rule pixel_room [OF x y]) simp
      also have "\<dots> \<le> length (dib bm)" using mult_le_mono1 [OF le, of ?h] len by (simp add: ac_simps)
      finally have "(x + y * ?s) * 3 + 3 \<le> length bits" using l by (simp add: add.commute)
      moreover from this obtain g where "gray_at ((x + y * ?s) * 3) bits = Inr g" using gray_at_in by blast
      ultimately show "\<exists>s'. ?body y x bits = Inr s' \<and> length s' = length (dib bm)" using l by (auto simp: store_def)
    qed simp
    then show "\<exists>bits. count_to ?h (\<lambda>y. count_to ?s (?body y)) (dib bm) = Inr bits" by blast
  qed
  with run stride_24 show ?thesis by simp
qed

section \<open>Witnesses\<close>

definition demo_bitmap :: "nat \<Rightarrow> BITMAP" where
  "demo_bitmap w = \<lparr>bmWidth = w, bmHeight = 2, bmBitsPixel = 24, dib = replicate (line_bytes w 24 * 2) 0x80\<rparr>"

lemma extract_in_bounds_iff_witness:
  "(\<exists>target. extract_bitmap_in_grayscale_8bpp (demo_bitmap 4) (\<lambda>n. replicate n 0) = Inr (4, 2, target) \<and> length target = 8
        \<and> (\<forall>n < 8. target ! n = gray_pixel (demo_bitmap 4) n))
   \<and> \<not> (\<exists>target. extract_bitmap_in_grayscale_8bpp (demo_bitmap 3) (\<lambda>n. replicate n 0) = Inr (3, 2, target) \<and> length target = 6
        \<and> (\<forall>n < 6. target ! n = gray_pixel (demo_bitmap 3) n))"
  using extract_in_bounds_iff [of "demo_bitmap 4" "\<lambda>n. replicate n 0"] extract_in_bounds_iff [of "demo_bitmap 3" "\<lambda>n. replicate n 0"]
  by (simp add: demo_bitmap_def)

lemma grayscale_in_bounds_iff_witness:
  "(\<exists>bm'. bitmap_grayscale (demo_bitmap 3) = Inr bm') \<and> (\<nexists>bm'. bitmap_grayscale (demo_bitmap 2) = Inr bm')"
  using grayscale_in_bounds_iff [of "demo_bitmap 3"] grayscale_in_bounds_iff [of "demo_bitmap 2"]
  by (simp add: demo_bitmap_def)

end
