(* ===== verification/QR_Dialog.thy ===== *)
theory QR_Dialog
  imports Window_Shell QR_Image Screen_Bitmap
begin

text \<open>
  Servers as QR codes in the main window (main.c): the dialog that shows the code of the focused row, copies its text or
  picture and saves it, the command that looks for a code on the screen, and the notifications of the list view.
  The encoder of links, qrencode, zbar and WIC are parameters.
\<close>

type_synonym picture = "nat \<times> nat \<times> bytes"

record qr_env =
  qr_code_encode :: "server_config \<Rightarrow> string option"
  qr_encodeString :: "string \<Rightarrow> QRcode option"
  qr_malloc_ok :: bool
  qr_wic :: "wic_call \<Rightarrow> int"

text \<open>The clipboard, the files saved, and how many bitmaps and heap blocks the process owns.\<close>

record desktop =
  clip_text :: "string option"
  clip_image :: "picture option"
  image_files :: "(wstr \<times> wic_state) list"
  gdi_bitmaps :: int
  heap_blocks :: int

text \<open>The statics of the dialog, and how it was closed.\<close>

record qr_dlg =
  qrcode_str :: string
  hBmp :: picture
  closed :: "bool option"

datatype qr_event = Qr_Context_Menu | Qr_Paint | Qr_Copy_Text bool | Qr_Copy_Image | Qr_Save "wstr option"
  | Qr_Close bool | Qr_Other

text \<open>The last dot of a file name and what follows; the save dialog adds \<open>.bmp\<close> to a name without one.\<close>

definition dot :: wchar where
  "dot = 0x2E"

definition extension :: "wstr \<Rightarrow> wstr option" where
  "extension name = (if dot \<in> set name then Some (dot # rev (takeWhile (\<lambda>c. c \<noteq> dot) (rev name))) else None)"

definition qr_save_image :: "qr_env \<Rightarrow> wstr \<Rightarrow> desktop \<Rightarrow> desktop res" where
  "qr_save_image env name k =
     (case extension name of
        None \<Rightarrow> Inl Null_Deref
      | Some ext \<Rightarrow>
          if ext = L ''.png'' then Inr (k\<lparr>image_files := image_files k @ [(name, save_bitmap_to_png_file (qr_wic env) True)]\<rparr>)
          else if ext = L ''.bmp'' then Inr (k\<lparr>image_files := image_files k @ [(name, save_bitmap_to_bmp_file (qr_wic env) True)]\<rparr>)
          else Inl Assert_Failed)"

text \<open>
  The dialog draws the code of the link when it opens; a link that cannot be encoded, or none at all,
  stops in an assertion. What is put on the clipboard belongs to it. \<open>EmptyClipboard\<close> drops both formats.
\<close>

definition qr_init :: "qr_env \<Rightarrow> server_config \<Rightarrow> desktop \<Rightarrow> (qr_dlg \<times> desktop) res" where
  "qr_init env config k =
     (case qr_code_encode env config of
        None \<Rightarrow> Inl Assert_Failed
      | Some link \<Rightarrow>
          bindr (generate_qr_code_image (qr_encodeString env) (qr_malloc_ok env) link) (\<lambda>pic.
          Inr (\<lparr>qrcode_str = link, hBmp = pic, closed = None\<rparr>,
               k\<lparr>gdi_bitmaps := gdi_bitmaps k + 1, heap_blocks := heap_blocks k + 1\<rparr>)))"

definition QrCodeDlgProc :: "qr_env \<Rightarrow> qr_event \<Rightarrow> qr_dlg \<times> desktop \<Rightarrow> (qr_dlg \<times> desktop) res" where
  "QrCodeDlgProc env e s =
     (case s of (d, k) \<Rightarrow>
        if closed d \<noteq> None then Inr s
        else (case e of
             Qr_Copy_Text alloc_ok \<Rightarrow>
               Inr (d, k\<lparr>clip_text := (if alloc_ok then Some (qrcode_str d) else None), clip_image := None\<rparr>)
           | Qr_Copy_Image \<Rightarrow> Inr (d, k\<lparr>clip_text := None, clip_image := Some (hBmp d)\<rparr>)
           | Qr_Save None \<Rightarrow> Inr s
           | Qr_Save (Some name) \<Rightarrow> bindr (qr_save_image env name k) (\<lambda>k1. Inr (d, k1))
           | Qr_Close ok \<Rightarrow> Inr (d\<lparr>closed := Some ok\<rparr>, k)
           | _ \<Rightarrow> Inr s))"

text \<open>\<open>WM_DESTROY\<close>\<close>

definition qr_destroy :: "qr_dlg \<times> desktop \<Rightarrow> desktop" where
  "qr_destroy s = (snd s)\<lparr>gdi_bitmaps := gdi_bitmaps (snd s) - 1, heap_blocks := heap_blocks (snd s) - 1\<rparr>"

definition qr_dialog :: "qr_env \<Rightarrow> qr_event list \<Rightarrow> server_config \<Rightarrow> desktop \<Rightarrow> desktop res" where
  "qr_dialog env es config k =
     bindr (qr_init env config k) (\<lambda>s.
     bindr (for_each (QrCodeDlgProc env) es s) (\<lambda>s1. Inr (qr_destroy s1)))"

definition on_cmd_qr_code :: "qr_env \<Rightarrow> qr_event list \<Rightarrow> int \<Rightarrow> main_wnd_data \<Rightarrow> desktop \<Rightarrow> (bool \<times> desktop) res" where
  "on_cmd_qr_code env es nIndex d k =
     (if nIndex < 0 then Inr (False, k)
      else (case retrieve_config_from_list_view d nIndex of
              None \<Rightarrow> Inr (False, k)
            | Some config \<Rightarrow> bindr (qr_dialog env es config k) (\<lambda>k1. Inr (True, k1))))"

section \<open>A code on the screen\<close>

definition get_img_data_agent :: "BITMAP \<Rightarrow> (nat \<Rightarrow> bytes) \<Rightarrow> (nat \<times> nat \<times> bytes) res" where
  "get_img_data_agent bmp allocator = extract_bitmap_in_grayscale_8bpp bmp allocator"

text \<open>The screen is captured, made grey and scanned; a link found there is added as a server.\<close>

definition on_cmd_scan_screen_qrcode ::
  "'j window_env \<Rightarrow> (nat \<Rightarrow> nat \<Rightarrow> bytes \<Rightarrow> string list) \<Rightarrow> (nat \<Rightarrow> bytes) \<Rightarrow> bool \<Rightarrow> BITMAP \<Rightarrow> main_wnd_data \<Rightarrow> main_wnd_data res" where
  "on_cmd_scan_screen_qrcode env scan allocator alloc_ok screen d =
     bindr (qr_code_decoder scan (get_img_data_agent
       (capture_screen (bmWidth screen) (bmHeight screen) (bmBitsPixel screen) (dib screen)) allocator) alloc_ok) (\<lambda>ssr_url.
     Inr (snd (add_ssr_url_to_sub_list_view env ssr_url d)))"

section \<open>Notifications of the list view\<close>

datatype notification = LVN_ITEMCHANGING int item_change | LVN_GETDISPINFO nat nat "server_config option" wstr
  | LVN_DELETEITEM "server_config option" | LVN_KEYDOWN_DELETE | LVN_KEYDOWN_ESCAPE | NM_DBLCLK | NM_RETURN | NM_OTHER

text \<open>
  Whether the message was handled, the result for the control, the window, and the text of a column;
  \<open>freed\<close> collects the configurations released.
\<close>

record notify_state =
  n_window :: main_wnd_data
  n_shown :: "show_state option"
  n_result :: int
  n_column :: wstr
  n_freed :: "server_config option list"

definition handle_wm_notify_from_list_view ::
  "'j window_env \<Rightarrow> user \<Rightarrow> bool \<Rightarrow> notification \<Rightarrow> notify_state \<Rightarrow> (bool \<times> notify_state) res" where
  "handle_wm_notify_from_list_view env u from_list n s =
     (if \<not> from_list then Inr (False, s)
      else (case n of
        LVN_ITEMCHANGING iItem state \<Rightarrow>
          (case on_list_view_notification_item_changing iItem state (n_window s) of
             (handled, r, d) \<Rightarrow> Inr (handled, s\<lparr>n_window := d, n_result := r\<rparr>))
      | LVN_GETDISPINFO col cch config column \<Rightarrow>
          bindr (on_list_view_notification_get_disp_info (w_dialog env) col cch config column) (\<lambda>t.
          Inr (True, s\<lparr>n_column := t\<rparr>))
      | LVN_DELETEITEM config \<Rightarrow> Inr (True, s\<lparr>n_freed := n_freed s @ [config]\<rparr>)
      | LVN_KEYDOWN_DELETE \<Rightarrow>
          Inr (False, s\<lparr>n_window := snd (on_delete_item (focused_row u) (delete_confirmed u) (n_window s))\<rparr>)
      | LVN_KEYDOWN_ESCAPE \<Rightarrow> Inr (False, s\<lparr>n_shown := ShowWindowSimple False (n_shown s)\<rparr>)
      | NM_DBLCLK \<Rightarrow> bindr (view_server_details env u (n_window s)) (\<lambda>d. Inr (True, s\<lparr>n_window := d\<rparr>))
      | NM_RETURN \<Rightarrow> bindr (view_server_details env u (n_window s)) (\<lambda>d. Inr (True, s\<lparr>n_window := d\<rparr>))
      | NM_OTHER \<Rightarrow> Inr (False, s)))"

section \<open>What the dialog leaves\<close>

lemma qr_proc_keeps:
  "QrCodeDlgProc env e (d, k) = Inr (d', k') \<Longrightarrow> gdi_bitmaps k' = gdi_bitmaps k \<and> heap_blocks k' = heap_blocks k
    \<and> qrcode_str d' = qrcode_str d \<and> hBmp d' = hBmp d \<and> clip_text k' \<in> {clip_text k, None, Some (qrcode_str d)}
    \<and> clip_image k' \<in> {clip_image k, None, Some (hBmp d)}"
  by (auto simp: QrCodeDlgProc_def qr_save_image_def bindr_eq_Inr split: if_splits qr_event.splits option.splits)

lemma qr_events_keep:
  "for_each (QrCodeDlgProc env) es (d, k) = Inr (d', k') \<Longrightarrow> gdi_bitmaps k' = gdi_bitmaps k \<and> heap_blocks k' = heap_blocks k
    \<and> clip_text k' \<in> {clip_text k, None, Some (qrcode_str d)} \<and> clip_image k' \<in> {clip_image k, None, Some (hBmp d)}"
proof (induction es arbitrary: d k)
  case (Cons e es)
  then obtain d1 k1 where s: "QrCodeDlgProc env e (d, k) = Inr (d1, k1)" "for_each (QrCodeDlgProc env) es (d1, k1) = Inr (d', k')"
    by (auto simp: bindr_eq_Inr)
  from qr_proc_keeps [OF s(1)] Cons.IH [OF s(2)] show ?case by auto
qed simp


section \<open>What a scan finds\<close>

definition screen_link :: "(nat \<Rightarrow> nat \<Rightarrow> bytes \<Rightarrow> string list) \<Rightarrow> bool \<Rightarrow> BITMAP \<Rightarrow> string option" where
  "screen_link scan alloc_ok screen =
     (case scan (bmWidth screen) (bmHeight screen) (map (gray_pixel screen) [0..<bmWidth screen * bmHeight screen]) of
        [] \<Rightarrow> None
      | link # _ \<Rightarrow> if alloc_ok then Some link else None)"

text \<open>
  C37: On a screen of 32 bits a pixel the scan never leaves a buffer, and the command does what the
  window's command does with the first link the scanner finds in the grey picture of the screen: it appends
  the server the link stands for as an unchecked row, and changes nothing else.
\<close>

theorem scan_refines_command:
  assumes bpp: "bmBitsPixel screen = 32" and len: "length (dib screen) = 4 * bmWidth screen * bmHeight screen"
    and alloc: "\<And>n. length (allocator n) = n" and insert_ok: "w_insert_ok env (length (hListView d))"
  shows "on_cmd_scan_screen_qrcode env scan allocator alloc_ok screen d
      = wm_command env (u\<lparr>screen_code := screen_link scan alloc_ok screen\<rparr>) ID_CMD_SCAN_QRCODE d
    \<and> on_cmd_scan_screen_qrcode env scan allocator alloc_ok screen d
      = Inr (case Option.bind (screen_link scan alloc_ok screen) (w_qr_decode env) of
               None \<Rightarrow> d
             | Some config \<Rightarrow> d\<lparr>hListView := hListView d @ [\<lparr>row_config = Some config, row_checked = False\<rparr>]\<rparr>)"
proof -
  let ?w = "bmWidth screen" and ?h = "bmHeight screen"
  have "(?w * bmBitsPixel screen div 8) mod 4 = 0" by (simp add: bpp)
  moreover have "length (dib screen) = line_bytes ?w (bmBitsPixel screen) * ?h" by (simp add: len bpp line_bytes_def)
  ultimately obtain target where target: "extract_bitmap_in_grayscale_8bpp screen allocator = Inr (?w, ?h, target)"
      "length target = ?w * ?h" "\<forall>n < ?w * ?h. target ! n = gray_pixel screen n"
    using extract_pixels [of screen allocator] bpp alloc by auto
  have "target = map (gray_pixel screen) [0..<?w * ?h]" by (rule nth_equalityI) (use target in auto)
  moreover have "capture_screen ?w ?h (bmBitsPixel screen) (dib screen) = screen" by (cases screen) (simp add: capture_screen_def)
  ultimately have run: "on_cmd_scan_screen_qrcode env scan allocator alloc_ok screen d
      = Inr (snd (add_ssr_url_to_sub_list_view env (screen_link scan alloc_ok screen) d))"
    using target(1) by (simp add: on_cmd_scan_screen_qrcode_def qr_code_decoder_def get_img_data_agent_def
        screen_link_def split: list.split)
  moreover have "snd (add_ssr_url_to_sub_list_view env (screen_link scan alloc_ok screen) d)
      = (case Option.bind (screen_link scan alloc_ok screen) (w_qr_decode env) of
           None \<Rightarrow> d | Some config \<Rightarrow> d\<lparr>hListView := hListView d @ [\<lparr>row_config = Some config, row_checked = False\<rparr>]\<rparr>)"
    using insert_ok by (auto simp: add_ssr_url_to_sub_list_view_def InsertListViewItem_def Let_def split: option.split)
  ultimately show ?thesis by (simp add: wm_command_def ID_CMD_SCAN_QRCODE_def ID_CMD_EXIT_def ID_CMD_MANAGE_CENTER_def
      IDCANCEL_def ID_CMD_SERVER_TO_JSON_def ID_CMD_QR_CODE_def ID_CMD_OPTIONS_def ID_CMD_IMPORT_URL_def)
qed

section \<open>Witnesses\<close>

definition demo_qr_env :: qr_env where
  "demo_qr_env = \<lparr>qr_code_encode = (\<lambda>c. Some ''ssr://demo''), qr_encodeString = (\<lambda>s. Some demo_symbol),
     qr_malloc_ok = True, qr_wic = (\<lambda>c. 0)\<rparr>"

definition demo_desktop :: desktop where
  "demo_desktop = \<lparr>clip_text = None, clip_image = None, image_files = [], gdi_bitmaps = 3, heap_blocks = 7\<rparr>"


definition demo_screen :: BITMAP where
  "demo_screen = \<lparr>bmWidth = 2, bmHeight = 1, bmBitsPixel = 32, dib = [255, 255, 255, 0, 0, 0, 0, 0]\<rparr>"

lemma scan_refines_command_witness:
  "on_cmd_scan_screen_qrcode (demo_window_env\<lparr>w_qr_decode := (\<lambda>s. Some demo_config)\<rparr>) (\<lambda>w h raw. [''ssr://demo''])
     (\<lambda>n. replicate n 0) True demo_screen demo_window
   = Inr (demo_window\<lparr>hListView := hListView demo_window @ [\<lparr>row_config = Some demo_config, row_checked = False\<rparr>]\<rparr>)"
  using scan_refines_command [of demo_screen "\<lambda>n. replicate n 0" "demo_window_env\<lparr>w_qr_decode := (\<lambda>s. Some demo_config)\<rparr>"
      demo_window "\<lambda>w h raw. [''ssr://demo'']" True]
  by (simp add: demo_screen_def demo_window_env_def screen_link_def)

end
