(* ===== verification/Easy_Split.thy ===== *)
theory Easy_Split
  imports Byte_Buffer "HOL-Library.Signed_Division"
begin

text \<open>
  The splitter between the server list and the log (easysplit.c) and the layout it drives (main.c). A splitter
  is its data block, its own device context, the mouse capture and the messages it has posted; a message
  that meets no data block follows a null or dangling pointer. Coordinates are those of the parent's client area, so
  sums of them stay far below 32 bits; what comes in as a parameter of 64 bits is cut to 32 as the code does.
\<close>

section \<open>State\<close>

record ESDATA =
  Position :: int
  Undo :: int
  Cursor :: nat
  FGColor :: "32 word"
  BGColor :: "32 word"
  TLBorder :: int
  BRBorder :: int
  MagBorder :: int
  Captured :: bool
  Focused :: bool
  Disabled :: bool
  Vertical :: bool
  FgLine :: bool
  Track :: bool
  Dock :: bool
  KBMove :: bool

type_synonym rect = "int \<times> int \<times> int \<times> int"

datatype drawing = Frame "32 word" "32 word option" rect | Fill "32 word option" rect
  | Line "32 word option" "int \<times> int" "int \<times> int"

text \<open>
  \<open>es_pen\<close> and \<open>es_brush\<close> are what is selected into the window's own device context, \<open>None\<close> the stock
  objects; \<open>es_gdi\<close> counts the pens and brushes created and not deleted.
\<close>

record splitter =
  es_data :: "ESDATA option"
  es_client :: "int \<times> int"
  es_capture :: bool
  es_cursor :: "nat option"
  es_posted :: "(16 word \<times> 16 word) list"
  es_painted :: "drawing list"
  es_pen :: "32 word option"
  es_brush :: "32 word option"
  es_gdi :: int

text \<open>The right and bottom of the parent's client area, where it is on the screen, and where the mouse is.\<close>

record es_env =
  parent_client :: "int \<times> int"
  parent_origin :: "int \<times> int"
  mouse_screen :: "int \<times> int"

text \<open>\<open>(INT)\<close> of a message parameter\<close>

definition to_INT :: "64 word \<Rightarrow> int" where
  "to_INT w = sint (ucast w :: 32 word)"

section \<open>Moving\<close>

definition es_NotifyParent :: "es_env \<Rightarrow> splitter \<Rightarrow> splitter" where
  "es_NotifyParent env s =
     (case parent_client env of (right, lower) \<Rightarrow>
        s\<lparr>es_posted := es_posted s @ [(word_of_int lower, word_of_int right)]\<rparr>)"

definition es_CheckBorders :: "es_env \<Rightarrow> ESDATA \<Rightarrow> int \<Rightarrow> int \<times> ESDATA" where
  "es_CheckBorders env d pos =
     (case parent_client env of (pright, pbottom) \<Rightarrow>
        let left = 0 + TLBorder d; upper = 0 + TLBorder d;
            right = pright - BRBorder d; lower = pbottom - BRBorder d;
            mb = (if Dock d then MagBorder d else 0);
            pos2 = (if Vertical d
                    then let pos1 = (if pos < left + mb then left else pos) in if pos1 > right - mb then right else pos1
                    else let pos1 = (if pos < upper + mb then upper else pos) in if pos1 > lower - mb then lower else pos1)
        in (pos2, d\<lparr>Position := pos2\<rparr>))"

definition es_SetUndo :: "ESDATA \<Rightarrow> ESDATA" where
  "es_SetUndo d = d\<lparr>Undo := Position d\<rparr>"

definition es_GetMousePos :: "es_env \<Rightarrow> int \<times> int" where
  "es_GetMousePos env = (fst (mouse_screen env) - fst (parent_origin env), snd (mouse_screen env) - snd (parent_origin env))"

text \<open>
  The handlers take the data block and the window and return the result with both. The data block
  goes back into the window in \<open>EasySplitLoop\<close>.
\<close>

type_synonym es_result = "int \<times> ESDATA \<times> splitter"

definition es_ReportPosition :: "es_env \<Rightarrow> ESDATA \<Rightarrow> splitter \<Rightarrow> es_result" where
  "es_ReportPosition env d s = (case es_CheckBorders env d (Position d) of (pos, d1) \<Rightarrow> (pos, d1, s))"

definition es_MoveSplitter :: "es_env \<Rightarrow> int \<Rightarrow> ESDATA \<Rightarrow> splitter \<Rightarrow> es_result" where
  "es_MoveSplitter env pos d s = (case es_CheckBorders env d pos of (_, d1) \<Rightarrow> (Position d1, d1, es_NotifyParent env s))"

definition es_HandleUndo :: "es_env \<Rightarrow> ESDATA \<Rightarrow> splitter \<Rightarrow> es_result" where
  "es_HandleUndo env d s = es_MoveSplitter env (Undo d) d s"

definition es_StopTracking :: "ESDATA \<Rightarrow> splitter \<Rightarrow> es_result" where
  "es_StopTracking d s =
     (if Captured d then (0, d\<lparr>Captured := False\<rparr>, s\<lparr>es_capture := False\<rparr>) else (0, d, s))"

definition es_SetCursor :: "nat \<Rightarrow> ESDATA \<Rightarrow> splitter \<Rightarrow> es_result" where
  "es_SetCursor lp d s =
     (let d1 = d\<lparr>Cursor := lp\<rparr> in (0, d1, if Captured d1 then s\<lparr>es_cursor := Some (Cursor d1)\<rparr> else s))"

section \<open>Drawing and colours\<close>

text \<open>\<open>sdiv\<close> is the division of C, which truncates toward zero.\<close>

definition es_DrawWindow :: "ESDATA \<Rightarrow> splitter \<Rightarrow> es_result" where
  "es_DrawWindow d s =
     (case es_client s of (right, lower) \<Rightarrow>
        let background = (if Focused d then Frame (FGColor d) (es_brush s) (0, 0, right, lower)
                          else Fill (es_brush s) (0, 0, right, lower));
            line = (if FgLine d \<and> \<not> Disabled d
                    then (if Vertical d
                          then let LinePos = (right - 0) sdiv 2 in [Line (es_pen s) (LinePos, 0 + 5) (LinePos, lower - 10)]
                          else let LinePos = (lower - 0) sdiv 2 in [Line (es_pen s) (0 + 5, LinePos) (right - 10, LinePos)])
                    else [])
        in (0, d, s\<lparr>es_painted := background # line\<rparr>))"

definition es_SetColors :: "64 word \<Rightarrow> 64 word \<Rightarrow> ESDATA \<Rightarrow> splitter \<Rightarrow> es_result" where
  "es_SetColors wp lp d s =
     (let d1 = d\<lparr>FGColor := ucast wp, BGColor := ucast lp\<rparr>;
          s1 = s\<lparr>es_pen := Some (FGColor d1), es_gdi := es_gdi s + 1 - (if es_pen s = None then 0 else 1)\<rparr>;
          s2 = s1\<lparr>es_brush := Some (BGColor d1), es_gdi := es_gdi s1 + 1 - (if es_brush s1 = None then 0 else 1)\<rparr>
      in es_DrawWindow d1 s2)"

section \<open>Settings\<close>

definition ESB_TOP :: "64 word" where "ESB_TOP = 0"
definition ESB_BOTTOM :: "64 word" where "ESB_BOTTOM = 1"
definition ESB_LEFT :: "64 word" where "ESB_LEFT = 2"
definition ESB_RIGHT :: "64 word" where "ESB_RIGHT = 3"
definition ESB_ALL :: "64 word" where "ESB_ALL = 4"

definition es_SetBorder :: "64 word \<Rightarrow> 64 word \<Rightarrow> ESDATA \<Rightarrow> splitter \<Rightarrow> es_result" where
  "es_SetBorder wp lp d s =
     (if lp = ESB_TOP then (0, if \<not> Vertical d then d\<lparr>TLBorder := to_INT wp\<rparr> else d, s)
      else if lp = ESB_BOTTOM then (0, if \<not> Vertical d then d\<lparr>BRBorder := to_INT wp\<rparr> else d, s)
      else if lp = ESB_LEFT then (0, if Vertical d then d\<lparr>TLBorder := to_INT wp\<rparr> else d, s)
      else if lp = ESB_RIGHT then (0, if Vertical d then d\<lparr>BRBorder := to_INT wp\<rparr> else d, s)
      else if lp = ESB_ALL then (0, d\<lparr>BRBorder := to_INT wp, TLBorder := to_INT wp\<rparr>, s)
      else (0, d, s))"

definition es_SetTracking :: "64 word \<Rightarrow> ESDATA \<Rightarrow> splitter \<Rightarrow> es_result" where
  "es_SetTracking lp d s = (0, d\<lparr>Track := (lp \<noteq> 0)\<rparr>, s)"

definition es_SetDocking :: "64 word \<Rightarrow> 64 word \<Rightarrow> ESDATA \<Rightarrow> splitter \<Rightarrow> es_result" where
  "es_SetDocking wp lp d s =
     (let d1 = d\<lparr>Dock := (lp \<noteq> 0)\<rparr> in (0, if Dock d1 then d1\<lparr>MagBorder := to_INT wp\<rparr> else d1\<lparr>MagBorder := 0\<rparr>, s))"

definition es_SetKBMove :: "64 word \<Rightarrow> ESDATA \<Rightarrow> splitter \<Rightarrow> es_result" where
  "es_SetKBMove lp d s = (0, d\<lparr>KBMove := (lp \<noteq> 0)\<rparr>, s)"

definition es_SetLine :: "64 word \<Rightarrow> ESDATA \<Rightarrow> splitter \<Rightarrow> es_result" where
  "es_SetLine lp d s = (0, d\<lparr>FgLine := (lp \<noteq> 0)\<rparr>, s)"

section \<open>Window messages\<close>

definition es_UpdatePosition :: "rect \<Rightarrow> ESDATA \<Rightarrow> splitter \<Rightarrow> es_result" where
  "es_UpdatePosition wp d s =
     (case wp of (x, y, cx, cy) \<Rightarrow>
        (0, if Vertical d then d\<lparr>Position := x + (cx sdiv 2)\<rparr> else d\<lparr>Position := y + (cy sdiv 2)\<rparr>, s))"

definition es_SetCapture :: "ESDATA \<Rightarrow> splitter \<Rightarrow> es_result" where
  "es_SetCapture d s = (0, (es_SetUndo d)\<lparr>Captured := True\<rparr>, s\<lparr>es_capture := True\<rparr>)"

definition es_to_mouse :: "es_env \<Rightarrow> ESDATA \<Rightarrow> splitter \<Rightarrow> es_result" where
  "es_to_mouse env d s =
     (let mc = es_GetMousePos env in if Vertical d then es_MoveSplitter env (fst mc) d s else es_MoveSplitter env (snd mc) d s)"

definition es_ReleaseCapture :: "es_env \<Rightarrow> ESDATA \<Rightarrow> splitter \<Rightarrow> es_result" where
  "es_ReleaseCapture env d s =
     (if \<not> Captured d then (1, d, s)
      else (case es_to_mouse env d s of (_, d1, s1) \<Rightarrow> (0, d1\<lparr>Captured := False\<rparr>, s1\<lparr>es_capture := False\<rparr>)))"

definition es_HandleMouseMoves :: "es_env \<Rightarrow> ESDATA \<Rightarrow> splitter \<Rightarrow> es_result" where
  "es_HandleMouseMoves env d s =
     (if \<not> Captured d then (0, d, s\<lparr>es_cursor := Some (Cursor d)\<rparr>)
      else if Track d then (case es_to_mouse env d s of (_, d1, s1) \<Rightarrow> (0, d1, s1))
      else (0, d, s))"

datatype vkey = VK_LEFT | VK_RIGHT | VK_HOME | VK_END | VK_UP | VK_DOWN | VK_PRIOR | VK_NEXT | VK_OTHER

definition es_HandleKeyboard :: "es_env \<Rightarrow> vkey \<Rightarrow> ESDATA \<Rightarrow> splitter \<Rightarrow> es_result" where
  "es_HandleKeyboard env wp d s =
     (if \<not> Focused d \<or> \<not> KBMove d then (0, d, s)
      else (case parent_client env of (wright, wbottom) \<Rightarrow>
        let mb = (if Dock d then MagBorder d + 1 else 1); x = Position d
        in if Vertical d
           then (case wp of
                   VK_LEFT \<Rightarrow> if x = wright - BRBorder d then es_MoveSplitter env (x - mb) d s
                              else es_MoveSplitter env (x - 1) d s
                 | VK_RIGHT \<Rightarrow> if x = 0 + TLBorder d then es_MoveSplitter env (x + mb) d s
                               else es_MoveSplitter env (x + 1) d s
                 | VK_HOME \<Rightarrow> es_MoveSplitter env 0 d s
                 | VK_END \<Rightarrow> es_MoveSplitter env wright d s
                 | _ \<Rightarrow> (0, d, s))
           else (case wp of
                   VK_UP \<Rightarrow> if x = wbottom - BRBorder d then es_MoveSplitter env (x - mb) d s
                            else es_MoveSplitter env (x - 1) d s
                 | VK_DOWN \<Rightarrow> if x = 0 + TLBorder d then es_MoveSplitter env (x + mb) d s
                              else es_MoveSplitter env (x + 1) d s
                 | VK_PRIOR \<Rightarrow> es_MoveSplitter env 0 d s
                 | VK_NEXT \<Rightarrow> es_MoveSplitter env wbottom d s
                 | _ \<Rightarrow> (0, d, s))))"

definition es_GainFocus :: "ESDATA \<Rightarrow> splitter \<Rightarrow> es_result" where
  "es_GainFocus d s = es_DrawWindow (d\<lparr>Focused := True\<rparr>) s"

definition es_LoseFocus :: "ESDATA \<Rightarrow> splitter \<Rightarrow> es_result" where
  "es_LoseFocus d s = es_DrawWindow (d\<lparr>Focused := False\<rparr>) s"

definition es_EnableSplitter :: "bool \<Rightarrow> ESDATA \<Rightarrow> splitter \<Rightarrow> es_result" where
  "es_EnableSplitter wp d s = es_DrawWindow (d\<lparr>Disabled := (wp = False)\<rparr>) s"

section \<open>Creation\<close>

definition ES_HORZ :: "32 word" where "ES_HORZ = 0"
definition ES_VERT :: "32 word" where "ES_VERT = 1"
definition ES_TRACK :: "32 word" where "ES_TRACK = 2"
definition ES_LINE :: "32 word" where "ES_LINE = 4"
definition ES_DOCK :: "32 word" where "ES_DOCK = 8"
definition WS_CHILD :: "32 word" where "WS_CHILD = 0x40000000"
definition WS_VISIBLE :: "32 word" where "WS_VISIBLE = 0x10000000"
definition WS_DISABLED :: "32 word" where "WS_DISABLED = 0x08000000"
definition WS_TABSTOP :: "32 word" where "WS_TABSTOP = 0x00010000"
definition IDC_SIZEWE :: nat where "IDC_SIZEWE = 32644"
definition IDC_SIZENS :: nat where "IDC_SIZENS = 32645"

unbundle bit_operations_syntax

text \<open>The window's rectangle on the screen, what the stack holds for an uninitialised rectangle, and the system colours.\<close>

record es_create =
  cs_style :: "32 word"
  cs_window :: rect
  cs_garbage :: rect
  cs_malloc_ok :: bool
  cs_shadow :: "64 word"
  cs_face :: "64 word"

text \<open>\<open>None\<close> leaves the caller's rectangle as it was.\<close>

definition GetChildRect :: "32 word \<Rightarrow> int \<times> int \<Rightarrow> rect \<Rightarrow> rect option" where
  "GetChildRect style origin window =
     (if style AND WS_CHILD = 0 then None
      else (case window of (left, upper, right, lower) \<Rightarrow>
              Some (left - fst origin, upper - snd origin, right - fst origin, lower - snd origin)))"

text \<open>
  The test for a child window applies \<open>!\<close> to the style before \<open>&\<close>, so it compares a truth value with
  a high bit. The result 0 of a failed allocation does not stop the creation of the window.
\<close>

definition es_NewWindow :: "es_env \<Rightarrow> es_create \<Rightarrow> splitter \<Rightarrow> int \<times> splitter" where
  "es_NewWindow env cs s =
     (if (if cs_style cs = 0 then 1 else 0) AND WS_CHILD \<noteq> 0 then (0, s)
      else if \<not> cs_malloc_ok cs then (0, s)
      else
        let style = cs_style cs;
            d = \<lparr>Position = 0, Undo = 0, Cursor = 0, FGColor = 0, BGColor = 0, TLBorder = 0, BRBorder = 0, MagBorder = 0,
                 Captured = False, Focused = False, Disabled = (style AND WS_DISABLED > 0),
                 Vertical = (style AND ES_VERT > 0), FgLine = (style AND ES_LINE > 0),
                 Track = (style AND ES_TRACK > 0), Dock = (style AND ES_DOCK > 0), KBMove = True\<rparr>;
            d1 = (if Dock d then d\<lparr>MagBorder := 10\<rparr> else d);
            d2 = d1\<lparr>Cursor := (if Vertical d1 then IDC_SIZEWE else IDC_SIZENS)\<rparr>
        in (case es_SetColors (cs_shadow cs) (cs_face cs) d2 s of (_, d3, s3) \<Rightarrow>
              (case GetChildRect style (parent_origin env) (cs_window cs) of
                 None \<Rightarrow> (case cs_garbage cs of (left, upper, right, lower) \<Rightarrow>
                   let d4 = d3\<lparr>Position := (if Vertical d3 then left + (right - left) sdiv 2 else upper + (lower - upper) sdiv 2)\<rparr>
                   in (1, s3\<lparr>es_data := Some (es_SetUndo d4)\<rparr>))
               | Some (left, upper, right, lower) \<Rightarrow>
                   let d4 = d3\<lparr>Position := (if Vertical d3 then left + (right - left) sdiv 2 else upper + (lower - upper) sdiv 2)\<rparr>
                   in (1, s3\<lparr>es_data := Some (es_SetUndo d4)\<rparr>))))"

section \<open>The message loop\<close>

datatype es_msg = ESM_GETPOS | ESM_SETPOS "64 word" | ESM_UNDO | ESM_STOP | ESM_SETCOLORS "64 word" "64 word"
  | ESM_SETCURSOR nat | ESM_SETBORDER "64 word" "64 word" | ESM_SETTRACKING "64 word" | ESM_SETDOCKING "64 word" "64 word"
  | ESM_SETKBMOVE "64 word" | ESM_SETLINE "64 word" | ES_PAINT | ES_WINDOWPOSCHANGED rect | ES_LBUTTONDOWN | ES_RBUTTONDOWN
  | ES_LBUTTONUP | ES_RBUTTONUP | ES_MOUSEMOVE | ES_SETFOCUS | ES_KILLFOCUS | ES_KEYDOWN vkey | ES_GETDLGCODE
  | ES_ENABLE bool | ES_CREATE es_create | ES_DESTROY | ES_ERASEBKGND | ES_CAPTURECHANGED

definition DLGC_WANTARROWS :: int where "DLGC_WANTARROWS = 1"

definition with_data :: "(ESDATA \<Rightarrow> splitter \<Rightarrow> es_result) \<Rightarrow> splitter \<Rightarrow> (int \<times> splitter) res" where
  "with_data h s =
     (case es_data s of
        None \<Rightarrow> Inl Null_Deref
      | Some d \<Rightarrow> (case h d s of (r, d1, s1) \<Rightarrow> Inr (r, s1\<lparr>es_data := Some d1\<rparr>)))"

text \<open>
  \<open>ES_CAPTURECHANGED\<close> is the system taking the capture away; the default procedure it goes to does nothing.
  \<open>free\<close> takes a null pointer; the freed block is gone.
\<close>

definition EasySplitLoop :: "es_env \<Rightarrow> es_msg \<Rightarrow> splitter \<Rightarrow> (int \<times> splitter) res" where
  "EasySplitLoop env msg s =
     (case msg of
        ESM_GETPOS \<Rightarrow> with_data (es_ReportPosition env) s
      | ESM_SETPOS lp \<Rightarrow> with_data (es_MoveSplitter env (to_INT lp)) s
      | ESM_UNDO \<Rightarrow> with_data (es_HandleUndo env) s
      | ESM_STOP \<Rightarrow> with_data es_StopTracking s
      | ESM_SETCOLORS wp lp \<Rightarrow> with_data (es_SetColors wp lp) s
      | ESM_SETCURSOR lp \<Rightarrow> with_data (es_SetCursor lp) s
      | ESM_SETBORDER wp lp \<Rightarrow> with_data (es_SetBorder wp lp) s
      | ESM_SETTRACKING lp \<Rightarrow> with_data (es_SetTracking lp) s
      | ESM_SETDOCKING wp lp \<Rightarrow> with_data (es_SetDocking wp lp) s
      | ESM_SETKBMOVE lp \<Rightarrow> with_data (es_SetKBMove lp) s
      | ESM_SETLINE lp \<Rightarrow> with_data (es_SetLine lp) s
      | ES_PAINT \<Rightarrow> with_data es_DrawWindow s
      | ES_WINDOWPOSCHANGED wp \<Rightarrow> with_data (es_UpdatePosition wp) (s\<lparr>es_client := (case wp of (x, y, cx, cy) \<Rightarrow> (cx, cy))\<rparr>)
      | ES_LBUTTONDOWN \<Rightarrow> with_data es_SetCapture s
      | ES_RBUTTONDOWN \<Rightarrow> with_data es_SetCapture s
      | ES_LBUTTONUP \<Rightarrow> with_data (es_ReleaseCapture env) s
      | ES_RBUTTONUP \<Rightarrow> with_data (es_ReleaseCapture env) s
      | ES_MOUSEMOVE \<Rightarrow> with_data (es_HandleMouseMoves env) s
      | ES_SETFOCUS \<Rightarrow> with_data es_GainFocus s
      | ES_KILLFOCUS \<Rightarrow> with_data es_LoseFocus s
      | ES_KEYDOWN wp \<Rightarrow> with_data (es_HandleKeyboard env wp) s
      | ES_GETDLGCODE \<Rightarrow> Inr (DLGC_WANTARROWS, s)
      | ES_ENABLE wp \<Rightarrow> with_data (es_EnableSplitter wp) s
      | ES_CREATE cs \<Rightarrow> Inr (es_NewWindow env cs s)
      | ES_DESTROY \<Rightarrow> Inr (0, s\<lparr>es_data := None\<rparr>)
      | ES_ERASEBKGND \<Rightarrow> Inr (1, s)
      | ES_CAPTURECHANGED \<Rightarrow> Inr (0, s\<lparr>es_capture := False\<rparr>))"

definition es_run :: "(es_env \<times> es_msg) list \<Rightarrow> splitter \<Rightarrow> splitter res" where
  "es_run = for_each (\<lambda>(env, msg) s. bindr (EasySplitLoop env msg s) (\<lambda>(r, s1). Inr s1))"

lemmas es_handlers =
  es_ReportPosition_def es_MoveSplitter_def es_HandleUndo_def es_StopTracking_def es_SetCursor_def es_DrawWindow_def
  es_SetColors_def es_SetBorder_def es_SetTracking_def es_SetDocking_def es_SetKBMove_def es_SetLine_def
  es_UpdatePosition_def es_SetCapture_def es_to_mouse_def es_ReleaseCapture_def es_HandleMouseMoves_def
  es_GainFocus_def es_LoseFocus_def es_EnableSplitter_def es_SetUndo_def es_NotifyParent_def

section \<open>Where the splitter may be\<close>

text \<open>The borders along the axis of the splitter, the width of the magnetic zone, and what \<open>es_CheckBorders\<close> makes of a position.\<close>

definition near_border :: "ESDATA \<Rightarrow> int" where
  "near_border d = TLBorder d"

definition far_border :: "es_env \<Rightarrow> ESDATA \<Rightarrow> int" where
  "far_border env d = (if Vertical d then fst (parent_client env) else snd (parent_client env)) - BRBorder d"

definition magnet :: "ESDATA \<Rightarrow> int" where
  "magnet d = (if Dock d then MagBorder d else 0)"

definition snap :: "int \<Rightarrow> int \<Rightarrow> int \<Rightarrow> int \<Rightarrow> int" where
  "snap lo hi m p = (let q = (if p < lo + m then lo else p) in if q > hi - m then hi else q)"

text \<open>On a border, or clear of both magnetic zones.\<close>

definition at_rest :: "es_env \<Rightarrow> ESDATA \<Rightarrow> bool" where
  "at_rest env d \<longleftrightarrow> Position d = near_border d \<or> Position d = far_border env d
     \<or> (near_border d + magnet d \<le> Position d \<and> Position d \<le> far_border env d - magnet d)"

definition roomy :: "es_env \<Rightarrow> ESDATA \<Rightarrow> bool" where
  "roomy env d \<longleftrightarrow> 0 \<le> magnet d \<and> near_border d + magnet d \<le> far_border env d"

lemma CheckBorders_snap:
  "es_CheckBorders env d pos =
     (snap (near_border d) (far_border env d) (magnet d) pos,
      d\<lparr>Position := snap (near_border d) (far_border env d) (magnet d) pos\<rparr>)"
  by (cases "parent_client env")
     (simp add: es_CheckBorders_def snap_def near_border_def far_border_def magnet_def Let_def)

lemma snap_at_rest:
  "0 \<le> m \<Longrightarrow> lo + m \<le> hi \<Longrightarrow> snap lo hi m p = lo \<or> snap lo hi m p = hi \<or> (lo + m \<le> snap lo hi m p \<and> snap lo hi m p \<le> hi - m)"
  by (auto simp: snap_def Let_def)

lemma snap_id:
  "0 \<le> m \<Longrightarrow> lo + m \<le> hi \<Longrightarrow> p = lo \<or> p = hi \<or> (lo + m \<le> p \<and> p \<le> hi - m) \<Longrightarrow> snap lo hi m p = p"
  by (auto simp: snap_def Let_def)

lemma snap_mono_step:
  "0 \<le> m \<Longrightarrow> lo + m \<le> hi \<Longrightarrow> p = lo \<or> p = hi \<or> (lo + m \<le> p \<and> p \<le> hi - m) \<Longrightarrow> p \<noteq> hi \<Longrightarrow>
   p < snap lo hi m (if p = lo then p + (m + 1) else p + 1) \<and> snap lo hi m (if p = lo then p + (m + 1) else p + 1) \<le> hi"
  by (auto simp: snap_def Let_def)

lemma snap_top: "0 \<le> m \<Longrightarrow> lo + m \<le> hi \<Longrightarrow> snap lo hi m (if hi = lo then hi + (m + 1) else hi + 1) = hi"
  by (auto simp: snap_def Let_def)

lemma position_update [simp]:
  "near_border (d\<lparr>Position := p\<rparr>) = near_border d"
  "far_border env (d\<lparr>Position := p\<rparr>) = far_border env d"
  "magnet (d\<lparr>Position := p\<rparr>) = magnet d"
  by (simp_all add: near_border_def far_border_def magnet_def)

lemma snapped_at_rest:
  "roomy env d \<Longrightarrow> at_rest env (d\<lparr>Position := snap (near_border d) (far_border env d) (magnet d) p\<rparr>)"
  using snap_at_rest [of "magnet d" "near_border d" "far_border env d" p] by (simp add: at_rest_def roomy_def)

definition geometry :: "ESDATA \<Rightarrow> int \<times> int \<times> int \<times> bool \<times> bool" where
  "geometry d = (TLBorder d, BRBorder d, MagBorder d, Dock d, Vertical d)"

lemma geometry_same:
  "geometry d' = geometry d \<Longrightarrow> near_border d' = near_border d \<and> far_border env d' = far_border env d \<and> magnet d' = magnet d"
  by (simp add: geometry_def near_border_def far_border_def magnet_def)

lemma far_border_same: "parent_client env' = parent_client env \<Longrightarrow> far_border env' d = far_border env d"
  by (simp add: far_border_def)

lemma MoveSplitter_eq:
  "es_MoveSplitter env pos d s =
     (let p = snap (near_border d) (far_border env d) (magnet d) pos in (p, d\<lparr>Position := p\<rparr>, es_NotifyParent env s))"
  by (simp add: es_MoveSplitter_def CheckBorders_snap Let_def)

section \<open>Undo\<close>

text \<open>The messages that neither mark an undo point nor change the borders.\<close>

fun keeps_undo :: "es_msg \<Rightarrow> bool" where
  "keeps_undo ES_LBUTTONDOWN = False"
| "keeps_undo ES_RBUTTONDOWN = False"
| "keeps_undo (ESM_SETBORDER wp lp) = False"
| "keeps_undo (ESM_SETDOCKING wp lp) = False"
| "keeps_undo (ES_CREATE cs) = False"
| "keeps_undo ES_DESTROY = False"
| "keeps_undo _ = True"

lemma MoveSplitter_keeps:
  "es_MoveSplitter env pos d s = (r, d1, s1) \<Longrightarrow> Undo d1 = Undo d \<and> geometry d1 = geometry d \<and> es_data s1 = es_data s"
  by (auto simp: MoveSplitter_eq Let_def geometry_def es_NotifyParent_def split: prod.splits)

lemma HandleKeyboard_keeps:
  "es_HandleKeyboard env k d s = (r, d1, s1) \<Longrightarrow> Undo d1 = Undo d \<and> geometry d1 = geometry d \<and> es_data s1 = es_data s"
  by (auto simp: es_HandleKeyboard_def Let_def dest!: MoveSplitter_keeps split: prod.splits if_splits vkey.splits)

lemma to_mouse_keeps:
  "es_to_mouse env d s = (r, d1, s1) \<Longrightarrow> Undo d1 = Undo d \<and> geometry d1 = geometry d \<and> es_data s1 = es_data s"
  by (auto simp: es_to_mouse_def Let_def dest!: MoveSplitter_keeps split: if_splits)

lemma with_data_Some: "es_data s = Some d \<Longrightarrow> with_data h s = (case h d s of (r, d1, s1) \<Rightarrow> Inr (r, s1\<lparr>es_data := Some d1\<rparr>))"
  by (simp add: with_data_def)

lemma loop_keeps:
  assumes "es_data s = Some d" "keeps_undo msg"
  shows "\<exists>r s1 d1. EasySplitLoop env msg s = Inr (r, s1) \<and> es_data s1 = Some d1 \<and> Undo d1 = Undo d \<and> geometry d1 = geometry d"
  using assms
  by (cases msg)
     (auto simp: EasySplitLoop_def with_data_def es_ReportPosition_def es_HandleUndo_def CheckBorders_snap es_StopTracking_def
        es_SetCursor_def es_DrawWindow_def es_SetColors_def es_SetTracking_def es_SetKBMove_def es_SetLine_def es_UpdatePosition_def
        es_ReleaseCapture_def es_HandleMouseMoves_def es_GainFocus_def es_LoseFocus_def es_EnableSplitter_def geometry_def Let_def
        dest!: MoveSplitter_keeps to_mouse_keeps HandleKeyboard_keeps split: prod.splits if_splits)

lemma run_keeps:
  assumes "es_data s = Some d" "\<forall>(env, msg) \<in> set es. keeps_undo msg"
  shows "\<exists>s1 d1. es_run es s = Inr s1 \<and> es_data s1 = Some d1 \<and> Undo d1 = Undo d \<and> geometry d1 = geometry d"
  using assms
proof (induction es arbitrary: s d)
  case (Cons e es)
  obtain env msg where e: "e = (env, msg)" by (cases e)
  with Cons.prems loop_keeps [of s d msg env] obtain r s1 d1 where
    "EasySplitLoop env msg s = Inr (r, s1)" "es_data s1 = Some d1" "Undo d1 = Undo d" "geometry d1 = geometry d" by auto
  with Cons.IH [of s1 d1] Cons.prems(2) e show ?case by (auto simp: es_run_def)
qed (simp add: es_run_def)

lemma run_append: "es_run (es @ fs) s = bindr (es_run es s) (es_run fs)"
  by (simp add: es_run_def for_each_append)

lemma run_one: "es_run [(env, msg)] s = bindr (EasySplitLoop env msg s) (\<lambda>(r, s1). Inr s1)"
  by (cases "EasySplitLoop env msg s") (auto simp: es_run_def)

section \<open>A splitter of the main window\<close>

definition demo_splitter_data :: ESDATA where
  "demo_splitter_data = \<lparr>Position = 306, Undo = 306, Cursor = 32645, FGColor = 1, BGColor = 2, TLBorder = 30, BRBorder = 30,
     MagBorder = 15, Captured = False, Focused = True, Disabled = False, Vertical = False, FgLine = True, Track = True,
     Dock = True, KBMove = True\<rparr>"

definition demo_splitter :: splitter where
  "demo_splitter = \<lparr>es_data = Some demo_splitter_data, es_client = (110, 12), es_capture = False, es_cursor = None, es_posted = [],
     es_painted = [], es_pen = Some 1, es_brush = Some 2, es_gdi = 2\<rparr>"

definition demo_mouse :: "int \<Rightarrow> es_env" where
  "demo_mouse y = \<lparr>parent_client = (800, 600), parent_origin = (100, 100), mouse_screen = (200, 100 + y)\<rparr>"

section \<open>Taking a drag back\<close>



section \<open>Keys\<close>

definition forward_key :: "ESDATA \<Rightarrow> vkey" where
  "forward_key d = (if Vertical d then VK_RIGHT else VK_DOWN)"

lemma forward_step:
  assumes "es_data s = Some d" "Focused d" "KBMove d" "roomy env d" "at_rest env d"
  shows "\<exists>r s1 d1. EasySplitLoop env (ES_KEYDOWN (forward_key d)) s = Inr (r, s1) \<and> es_data s1 = Some d1
    \<and> d1 = d\<lparr>Position := Position d1\<rparr> \<and> at_rest env d1
    \<and> (if Position d = far_border env d then Position d1 = Position d else Position d < Position d1 \<and> Position d1 \<le> far_border env d)"
proof -
  let ?x = "Position d" and ?lo = "near_border d" and ?hi = "far_border env d" and ?m = "magnet d"
  let ?p = "snap ?lo ?hi ?m (if ?x = ?lo then ?x + (?m + 1) else ?x + 1)"
  have "EasySplitLoop env (ES_KEYDOWN (forward_key d)) s = Inr (?p, (es_NotifyParent env s)\<lparr>es_data := Some (d\<lparr>Position := ?p\<rparr>)\<rparr>)"
    using assms(1-3) by (cases "parent_client env")
      (simp add: EasySplitLoop_def with_data_def es_HandleKeyboard_def forward_key_def MoveSplitter_eq Let_def
        near_border_def magnet_def add.commute)
  moreover have "at_rest env (d\<lparr>Position := ?p\<rparr>)"
    using assms(4) by (rule snapped_at_rest)
  moreover have "if ?x = ?hi then ?p = ?x else ?x < ?p \<and> ?p \<le> ?hi"
    using assms(4,5) snap_mono_step [of ?m ?lo ?hi ?x] snap_top [of ?m ?lo ?hi] by (auto simp: roomy_def at_rest_def)
  ultimately show ?thesis by auto
qed

text \<open>
  The keyboard reaches the border: however wide the magnetic zones, holding the arrow key down in a
  focused splitter brings it to the far border after at most as many strokes as it is pixels away, and more strokes leave it there.
\<close>

theorem keys_reach_border:
  assumes "es_data s = Some d" "Focused d" "KBMove d" "roomy env d" "at_rest env d"
    and "far_border env d - Position d \<le> int n"
  shows "\<exists>s1 d1. es_run (replicate n (env, ES_KEYDOWN (forward_key d))) s = Inr s1 \<and> es_data s1 = Some d1
    \<and> Position d1 = far_border env d"
  using assms
proof (induction n arbitrary: s d)
  case 0
  then have "Position d = far_border env d" by (auto simp: at_rest_def roomy_def)
  with 0 show ?case by (simp add: es_run_def)
next
  case (Suc n)
  from forward_step [OF Suc.prems(1-5)] obtain r s1 d1 where
    step: "EasySplitLoop env (ES_KEYDOWN (forward_key d)) s = Inr (r, s1)" "es_data s1 = Some d1"
    and d1: "d1 = d\<lparr>Position := Position d1\<rparr>" "at_rest env d1"
    and pos: "if Position d = far_border env d then Position d1 = Position d else Position d < Position d1 \<and> Position d1 \<le> far_border env d"
    by auto
  from d1(1) have same: "Focused d1 = Focused d" "KBMove d1 = KBMove d" "forward_key d1 = forward_key d"
    "far_border env d1 = far_border env d" "roomy env d1 = roomy env d"
    by (cases d, cases d1, simp add: forward_key_def far_border_def roomy_def near_border_def magnet_def)+
  from pos Suc.prems(6) have "far_border env d1 - Position d1 \<le> int n" by (auto simp: same split: if_splits)
  with Suc.IH [OF step(2)] Suc.prems(2-4) d1(2) same step(1) show ?case by (auto simp: es_run_def)
qed

theorem keys_reach_border_witness:
  "\<exists>s1 d1. es_run (replicate 264 (demo_mouse 0, ES_KEYDOWN VK_DOWN)) demo_splitter = Inr s1 \<and> es_data s1 = Some d1 \<and> Position d1 = 570"
  using keys_reach_border [of demo_splitter demo_splitter_data "demo_mouse 0" 264]
  by (simp add: demo_splitter_def demo_splitter_data_def demo_mouse_def roomy_def at_rest_def near_border_def far_border_def magnet_def
      forward_key_def)

section \<open>Objects and the mouse\<close>

text \<open>Each change of the colours deletes the pen and the brush it replaces; the last two are never deleted.\<close>

definition objects :: "splitter \<Rightarrow> bool" where
  "objects s \<longleftrightarrow> es_gdi s = 2 \<and> es_pen s \<noteq> None \<and> es_brush s \<noteq> None"

lemma objects_update [simp]:
  "objects (s\<lparr>es_data := x\<rparr>) = objects s" "objects (s\<lparr>es_client := c\<rparr>) = objects s" "objects (s\<lparr>es_capture := b\<rparr>) = objects s"
  "objects (s\<lparr>es_cursor := u\<rparr>) = objects s" "objects (s\<lparr>es_painted := p\<rparr>) = objects s" "objects (s\<lparr>es_posted := q\<rparr>) = objects s"
  by (simp_all add: objects_def)

lemma drawn_objects [simp]: "objects (snd (snd (es_DrawWindow d s))) = objects s"
  by (simp add: es_DrawWindow_def Let_def split: prod.split)

lemma colored_objects: "objects s \<Longrightarrow> objects (snd (snd (es_SetColors wp lp d s)))"
  by (simp add: es_SetColors_def Let_def) (simp add: objects_def)

lemma moved_objects [simp]: "objects (snd (snd (es_MoveSplitter env pos d s))) = objects s"
  by (simp add: MoveSplitter_eq Let_def es_NotifyParent_def split: prod.split)

lemma moused_objects [simp]: "objects (snd (snd (es_to_mouse env d s))) = objects s"
  by (simp add: es_to_mouse_def Let_def)

lemma released_objects [simp]: "objects (snd (snd (es_ReleaseCapture env d s))) = objects s"
  using moused_objects [of env d s] by (cases "es_to_mouse env d s") (simp add: es_ReleaseCapture_def del: moused_objects)

lemma tracked_objects [simp]: "objects (snd (snd (es_HandleMouseMoves env d s))) = objects s"
  using moused_objects [of env d s] by (cases "es_to_mouse env d s") (simp add: es_HandleMouseMoves_def del: moused_objects)

lemma keyed_objects [simp]: "objects (snd (snd (es_HandleKeyboard env k d s))) = objects s"
  by (simp add: es_HandleKeyboard_def Let_def split: prod.split vkey.split)

lemma with_data_objects:
  assumes "with_data h s = Inr (r, s1)" "\<And>d. objects s \<Longrightarrow> objects (snd (snd (h d s)))" "objects s"
  shows "objects s1"
proof -
  from assms(1) obtain d where "es_data s = Some d" by (auto simp: with_data_def split: option.splits)
  with assms(1) assms(2) [of d] assms(3) show ?thesis by (cases "h d s") (auto simp: with_data_def)
qed

lemma loop_objects:
  assumes "EasySplitLoop env msg s = Inr (r, s1)" "\<And>cs. msg \<noteq> ES_CREATE cs" "objects s"
  shows "objects s1"
  using assms
  by (cases msg)
     (auto simp: EasySplitLoop_def es_ReportPosition_def CheckBorders_snap es_HandleUndo_def es_StopTracking_def es_SetCursor_def
        es_SetBorder_def es_SetTracking_def es_SetDocking_def es_SetKBMove_def es_SetLine_def es_UpdatePosition_def es_SetCapture_def
        es_GainFocus_def es_LoseFocus_def es_EnableSplitter_def Let_def colored_objects split: prod.splits elim!: with_data_objects)

lemma destroyed_splitter_keeps_objects:
  assumes "es_run es s = Inr s1" "\<forall>(env, msg) \<in> set es. \<forall>cs. msg \<noteq> ES_CREATE cs" "objects s"
  shows "objects s1"
  using assms
proof (induction es arbitrary: s)
  case (Cons e es)
  obtain env msg where e: "e = (env, msg)" by (cases e)
  with Cons.prems(1) obtain r s2 where step: "EasySplitLoop env msg s = Inr (r, s2)" "es_run es s2 = Inr s1"
    by (auto simp: es_run_def bindr_eq_Inr)
  from loop_objects [OF step(1) _ Cons.prems(3)] Cons.prems(2) e Cons.IH [OF step(2)] show ?case by auto
qed (simp add: es_run_def)

text \<open>When the system takes the capture away, a mouse move without a button still moves the splitter.\<close>

lemma lost_capture_keeps_dragging:
  assumes "es_data s = Some d" "Captured d" "Track d" "\<not> Vertical d"
  shows "\<exists>s1 d1. es_run [(env, ES_CAPTURECHANGED), (env, ES_MOUSEMOVE)] s = Inr s1 \<and> es_data s1 = Some d1
    \<and> Position d1 = snap (near_border d) (far_border env d) (magnet d) (snd (es_GetMousePos env))"
  using assms
  by (simp add: es_run_def EasySplitLoop_def with_data_def es_HandleMouseMoves_def es_to_mouse_def MoveSplitter_eq Let_def)

end
