(* ===== verification/Window_Layout.thy ===== *)
theory Window_Layout
  imports Easy_Split
begin

unbundle bit_operations_syntax

text \<open>
  The panes of the main window (main.c): the server list above the splitter, the log below it. The window's
  size message asks the splitter for its position and places the three; the splitter posts such a message whenever it moves.
\<close>

text \<open>The list is absent until it is created. Rectangles are position and extent, as \<open>MoveWindow\<close> takes them.\<close>

record panes =
  hHorzSplitter :: splitter
  p_list :: "rect option"
  p_bar :: rect
  p_log :: rect

definition splitter_style :: "32 word" where
  "splitter_style = WS_CHILD OR WS_VISIBLE OR WS_TABSTOP OR ES_HORZ OR ES_LINE OR ES_TRACK OR ES_DOCK"

definition create_list_view :: "es_env \<Rightarrow> rect" where
  "create_list_view env = (case parent_client env of (right, lower) \<Rightarrow> (0, 0, right - 0, lower - 0))"

text \<open>The window on the screen of a child at a place in the client area, as its corners.\<close>

definition on_screen :: "es_env \<Rightarrow> rect \<Rightarrow> rect" where
  "on_screen env r = (case r of (x, y, cx, cy) \<Rightarrow>
     (x + fst (parent_origin env), y + snd (parent_origin env), x + cx + fst (parent_origin env), y + cy + snd (parent_origin env)))"

definition new_splitter :: splitter where
  "new_splitter = \<lparr>es_data = None, es_client = (110, 12), es_capture = False, es_cursor = None, es_posted = [], es_painted = [],
     es_pen = None, es_brush = None, es_gdi = 0\<rparr>"

definition splitter_setup :: "es_env \<Rightarrow> bool \<Rightarrow> rect \<Rightarrow> 64 word \<Rightarrow> 64 word \<Rightarrow> es_msg list" where
  "splitter_setup env malloc_ok garbage shadow face =
     [ES_CREATE \<lparr>cs_style = splitter_style, cs_window = on_screen env (0, 300, 110, 12), cs_garbage = garbage,
        cs_malloc_ok = malloc_ok, cs_shadow = shadow, cs_face = face\<rparr>,
      ESM_SETCOLORS shadow face, ESM_SETCURSOR IDC_SIZENS, ESM_SETBORDER 30 ESB_TOP, ESM_SETBORDER 30 ESB_BOTTOM,
      ESM_SETDOCKING 15 1]"

definition create_panes :: "es_env \<Rightarrow> bool \<Rightarrow> rect \<Rightarrow> 64 word \<Rightarrow> 64 word \<Rightarrow> panes res" where
  "create_panes env malloc_ok garbage shadow face =
     bindr (es_run (map (Pair env) (splitter_setup env malloc_ok garbage shadow face)) new_splitter) (\<lambda>s.
     Inr \<lparr>hHorzSplitter = s, p_list = Some (create_list_view env), p_bar = (0, 300, 110, 12), p_log = (0, 0, 100, 100)\<rparr>)"

text \<open>\<open>WM_SIZE\<close> of the main window\<close>

definition on_wm_size :: "es_env \<Rightarrow> panes \<Rightarrow> panes res" where
  "on_wm_size env w =
     (case p_list w of
        None \<Rightarrow> Inr w
      | Some _ \<Rightarrow>
          (case parent_client env of (right, lower) \<Rightarrow>
             bindr (EasySplitLoop env ESM_GETPOS (hHorzSplitter w)) (\<lambda>(pos, s1).
             let bar = (0, pos - 4, right - 0, 8)
             in bindr (EasySplitLoop env (ES_WINDOWPOSCHANGED bar) s1) (\<lambda>(_, s2).
                (case GetChildRect splitter_style (parent_origin env) (on_screen env bar) of
                   None \<Rightarrow> Inr (w\<lparr>hHorzSplitter := s2, p_bar := bar, p_list := Some (0, 0, right - 0, 0 - 0), p_log := (0, 0, right - 0, lower - 0)\<rparr>)
                 | Some (_, upperH, _, lowerH) \<Rightarrow>
                     Inr (w\<lparr>hHorzSplitter := s2, p_bar := bar, p_list := Some (0, 0, right - 0, upperH - 0),
                            p_log := (0, lowerH, right - 0, lower - lowerH)\<rparr>))))))"

text \<open>
  What happens to the panes: the window is resized, the user and the system act on the splitter, a posted
  size message is delivered.
\<close>

datatype panes_event = Resized es_env | Splitter_Input es_env es_msg | Deliver_Size es_env

fun from_user :: "es_msg \<Rightarrow> bool" where
  "from_user ES_PAINT = True"
| "from_user ES_LBUTTONDOWN = True"
| "from_user ES_RBUTTONDOWN = True"
| "from_user ES_LBUTTONUP = True"
| "from_user ES_RBUTTONUP = True"
| "from_user ES_MOUSEMOVE = True"
| "from_user ES_SETFOCUS = True"
| "from_user ES_KILLFOCUS = True"
| "from_user (ES_KEYDOWN k) = True"
| "from_user ES_GETDLGCODE = True"
| "from_user (ES_ENABLE b) = True"
| "from_user ES_ERASEBKGND = True"
| "from_user ES_CAPTURECHANGED = True"
| "from_user _ = False"

definition panes_event_step :: "panes_event \<Rightarrow> panes \<Rightarrow> panes res" where
  "panes_event_step e w =
     (case e of
        Resized env \<Rightarrow> on_wm_size env w
      | Splitter_Input env msg \<Rightarrow>
          if from_user msg
          then bindr (EasySplitLoop env msg (hHorzSplitter w)) (\<lambda>(_, s1). Inr (w\<lparr>hHorzSplitter := s1\<rparr>))
          else Inr w
      | Deliver_Size env \<Rightarrow>
          (case es_posted (hHorzSplitter w) of
             [] \<Rightarrow> Inr w
           | _ # rest \<Rightarrow> on_wm_size env (w\<lparr>hHorzSplitter := (hHorzSplitter w)\<lparr>es_posted := rest\<rparr>\<rparr>)))"

definition panes_step :: "panes res \<Rightarrow> panes_event \<Rightarrow> panes res" where
  "panes_step r e = bindr r (panes_event_step e)"

section \<open>What the window relies on\<close>

text \<open>
  A divider answers its position, within the borders when the window is high enough, and the same one again
  after it was moved to where it said.
\<close>

locale divider =
  fixes get_pos :: "es_env \<Rightarrow> 's \<Rightarrow> (int \<times> 's) res" and moved :: "es_env \<Rightarrow> rect \<Rightarrow> 's \<Rightarrow> (int \<times> 's) res" and sound :: "'s \<Rightarrow> bool"
  assumes answers: "sound s \<Longrightarrow> \<exists>p s1. get_pos env s = Inr (p, s1) \<and> sound s1
      \<and> (60 \<le> snd (parent_client env) \<longrightarrow> 30 \<le> p \<and> p \<le> snd (parent_client env) - 30)"
    and follows: "sound s \<Longrightarrow> \<exists>r s1. moved env (x, y, cx, cy) s = Inr (r, s1) \<and> sound s1"
    and stays: "sound s \<Longrightarrow> get_pos env s = Inr (p, s1) \<Longrightarrow> moved env (x, p - 4, cx, 8) s1 = Inr (r, s2)
      \<Longrightarrow> 75 \<le> snd (parent_client env) \<Longrightarrow> get_pos env s2 = Inr (p, s2) \<and> moved env (x, p - 4, cx, 8) s2 = Inr (r, s2)"
begin

lemma placed:
  assumes "sound s"
  shows "\<exists>p s1 r s2. get_pos env s = Inr (p, s1) \<and> moved env (x, p - 4, cx, 8) s1 = Inr (r, s2) \<and> sound s2
    \<and> (60 \<le> snd (parent_client env) \<longrightarrow> 30 \<le> p \<and> p \<le> snd (parent_client env) - 30)
    \<and> (75 \<le> snd (parent_client env) \<longrightarrow> get_pos env s2 = Inr (p, s2) \<and> moved env (x, p - 4, cx, 8) s2 = Inr (r, s2))"
proof -
  from answers [OF assms, of env] obtain p s1 where p: "get_pos env s = Inr (p, s1)" "sound s1"
    "60 \<le> snd (parent_client env) \<longrightarrow> 30 \<le> p \<and> p \<le> snd (parent_client env) - 30" by blast
  from follows [OF p(2), of env x "p - 4" cx 8] obtain r s2 where m: "moved env (x, p - 4, cx, 8) s1 = Inr (r, s2)" "sound s2" by blast
  from p m stays [OF assms p(1) m(1)] show ?thesis by blast
qed

end

text \<open>The splitter as the main window has set it up.\<close>

definition set_up :: "splitter \<Rightarrow> bool" where
  "set_up s \<longleftrightarrow> (\<exists>d. es_data s = Some d \<and> geometry d = (30, 30, 15, True, False))"

lemma set_up_borders:
  "geometry d = (30, 30, 15, True, False) \<Longrightarrow> near_border d = 30 \<and> far_border env d = snd (parent_client env) - 30 \<and> magnet d = 15"
  by (simp add: geometry_def near_border_def far_border_def magnet_def)

lemma get_pos_set_up:
  assumes "es_data s = Some d" "geometry d = (30, 30, 15, True, False)"
  shows "EasySplitLoop env ESM_GETPOS s = (let p = snap 30 (snd (parent_client env) - 30) 15 (Position d) in Inr (p, s\<lparr>es_data := Some (d\<lparr>Position := p\<rparr>)\<rparr>))"
  using assms set_up_borders [OF assms(2), of env]
  by (simp add: EasySplitLoop_def with_data_def es_ReportPosition_def CheckBorders_snap Let_def)

lemma moved_set_up:
  assumes "es_data s = Some d" "geometry d = (30, 30, 15, True, False)"
  shows "EasySplitLoop env (ES_WINDOWPOSCHANGED (x, y, cx, cy)) s = Inr (0, s\<lparr>es_client := (cx, cy), es_data := Some (d\<lparr>Position := y + cy sdiv 2\<rparr>)\<rparr>)"
  using assms by (simp add: EasySplitLoop_def with_data_def es_UpdatePosition_def geometry_def)

lemma geometry_position [simp]: "geometry (d\<lparr>Position := p\<rparr>) = geometry d"
  by (simp add: geometry_def)

interpretation bar: divider "\<lambda>env. EasySplitLoop env ESM_GETPOS" "\<lambda>env r. EasySplitLoop env (ES_WINDOWPOSCHANGED r)" set_up
proof
  fix s env
  assume "set_up s"
  then obtain d where d: "es_data s = Some d" "geometry d = (30, 30, 15, True, False)" by (auto simp: set_up_def)
  then show "\<exists>p s1. EasySplitLoop env ESM_GETPOS s = Inr (p, s1) \<and> set_up s1
      \<and> (60 \<le> snd (parent_client env) \<longrightarrow> 30 \<le> p \<and> p \<le> snd (parent_client env) - 30)"
    by (auto simp: get_pos_set_up set_up_def snap_def Let_def)
next
  fix s env x y cx cy
  assume "set_up s"
  then obtain d where d: "es_data s = Some d" "geometry d = (30, 30, 15, True, False)" by (auto simp: set_up_def)
  then show "\<exists>r s1. EasySplitLoop env (ES_WINDOWPOSCHANGED (x, y, cx, cy)) s = Inr (r, s1) \<and> set_up s1"
    by (auto simp: moved_set_up set_up_def)
next
  fix s env p s1 x cx r s2
  assume "set_up s" and get: "EasySplitLoop env ESM_GETPOS s = Inr (p, s1)"
    and mv: "EasySplitLoop env (ES_WINDOWPOSCHANGED (x, p - 4, cx, 8)) s1 = Inr (r, s2)" and room: "75 \<le> snd (parent_client env)"
  from \<open>set_up s\<close> obtain d where d: "es_data s = Some d" "geometry d = (30, 30, 15, True, False)" by (auto simp: set_up_def)
  let ?d1 = "d\<lparr>Position := p\<rparr>"
  from get d have p: "p = snap 30 (snd (parent_client env) - 30) 15 (Position d)" and s1: "es_data s1 = Some ?d1"
    by (auto simp: get_pos_set_up Let_def)
  with mv d have r: "r = 0" and s2: "s2 = s1\<lparr>es_client := (cx, 8), es_data := Some ?d1\<rparr>"
    by (auto simp: moved_set_up)
  have "snap 30 (snd (parent_client env) - 30) 15 p = p"
    using p room by (auto simp: snap_def Let_def)
  with d s2 r show "EasySplitLoop env ESM_GETPOS s2 = Inr (p, s2) \<and> EasySplitLoop env (ES_WINDOWPOSCHANGED (x, p - 4, cx, 8)) s2 = Inr (r, s2)"
    by (simp add: get_pos_set_up moved_set_up Let_def)
qed

section \<open>The panes tile the window\<close>

definition panes_ok :: "panes \<Rightarrow> bool" where
  "panes_ok w \<longleftrightarrow> set_up (hHorzSplitter w) \<and> p_list w \<noteq> None"

lemma child_of_panes: "GetChildRect splitter_style (parent_origin env) (on_screen env (x, y, cx, cy)) = Some (x, y, x + cx, y + cy)"
proof -
  have "splitter_style AND WS_CHILD \<noteq> 0"
    by (simp add: splitter_style_def WS_CHILD_def WS_VISIBLE_def WS_TABSTOP_def ES_HORZ_def ES_LINE_def ES_TRACK_def ES_DOCK_def)
  then show ?thesis by (simp add: GetChildRect_def on_screen_def)
qed

text \<open>The layout the size message makes for a position of the splitter.\<close>

definition laid_out :: "es_env \<Rightarrow> int \<Rightarrow> panes \<Rightarrow> bool" where
  "laid_out env p w \<longleftrightarrow> p_list w = Some (0, 0, fst (parent_client env), p - 4)
     \<and> p_bar w = (0, p - 4, fst (parent_client env), 8)
     \<and> p_log w = (0, p + 4, fst (parent_client env), snd (parent_client env) - (p + 4))"

lemma size_message:
  assumes "panes_ok w"
  shows "\<exists>w1 p. on_wm_size env w = Inr w1 \<and> panes_ok w1 \<and> laid_out env p w1
    \<and> (60 \<le> snd (parent_client env) \<longrightarrow> 30 \<le> p \<and> p \<le> snd (parent_client env) - 30)
    \<and> (75 \<le> snd (parent_client env) \<longrightarrow> on_wm_size env w1 = Inr w1)"
proof -
  obtain right lower where c: "parent_client env = (right, lower)" by (cases "parent_client env")
  from assms have "set_up (hHorzSplitter w)" "p_list w \<noteq> None" by (simp_all add: panes_ok_def)
  with bar.placed [of "hHorzSplitter w" env 0 right] obtain p s1 r s2 where
    get: "EasySplitLoop env ESM_GETPOS (hHorzSplitter w) = Inr (p, s1)"
    and mv: "EasySplitLoop env (ES_WINDOWPOSCHANGED (0, p - 4, right, 8)) s1 = Inr (r, s2)" "set_up s2"
    and p: "60 \<le> lower \<longrightarrow> 30 \<le> p \<and> p \<le> lower - 30"
    and again: "75 \<le> lower \<longrightarrow> EasySplitLoop env ESM_GETPOS s2 = Inr (p, s2)
      \<and> EasySplitLoop env (ES_WINDOWPOSCHANGED (0, p - 4, right, 8)) s2 = Inr (r, s2)"
    by (auto simp: c)
  let ?w1 = "w\<lparr>hHorzSplitter := s2, p_bar := (0, p - 4, right, 8), p_list := Some (0, 0, right, p - 4), p_log := (0, p + 4, right, lower - (p + 4))\<rparr>"
  from get mv \<open>p_list w \<noteq> None\<close> have step: "on_wm_size env w = Inr ?w1"
    by (auto simp: on_wm_size_def c child_of_panes Let_def)
  moreover from again have "75 \<le> lower \<longrightarrow> on_wm_size env ?w1 = Inr ?w1"
    by (auto simp: on_wm_size_def c child_of_panes Let_def)
  moreover from mv(2) have "panes_ok ?w1" by (simp add: panes_ok_def)
  moreover have "laid_out env p ?w1" by (simp add: laid_out_def c)
  ultimately show ?thesis using p c by (intro exI [of _ ?w1] exI [of _ p]) simp
qed

lemma user_input_sound:
  assumes "set_up s" "from_user msg"
  shows "\<exists>r s1. EasySplitLoop env msg s = Inr (r, s1) \<and> set_up s1"
proof -
  from assms(1) obtain d where d: "es_data s = Some d" "geometry d = (30, 30, 15, True, False)" by (auto simp: set_up_def)
  show ?thesis
  proof (cases "keeps_undo msg")
    case True
    from loop_keeps [OF d(1) this, of env] d(2) show ?thesis by (auto simp: set_up_def)
  next
    case False
    with assms(2) have "msg \<in> {ES_LBUTTONDOWN, ES_RBUTTONDOWN}" by (cases msg) simp_all
    with d show ?thesis by (auto simp: EasySplitLoop_def with_data_def es_SetCapture_def es_SetUndo_def set_up_def geometry_def)
  qed
qed

lemma event_sound:
  assumes "panes_ok w"
  shows "\<exists>w1. panes_event_step e w = Inr w1 \<and> panes_ok w1"
proof (cases e)
  case (Resized env)
  with size_message [OF assms, of env] show ?thesis by (auto simp: panes_event_step_def)
next
  case (Splitter_Input env msg)
  show ?thesis
  proof (cases "from_user msg")
    case True
    from assms have "set_up (hHorzSplitter w)" by (simp add: panes_ok_def)
    from user_input_sound [OF this True, of env] assms Splitter_Input True show ?thesis
      by (auto simp: panes_event_step_def panes_ok_def)
  qed (use Splitter_Input assms in \<open>simp add: panes_event_step_def\<close>)
next
  case (Deliver_Size env)
  show ?thesis
  proof (cases "es_posted (hHorzSplitter w)")
    case (Cons m rest)
    from assms have "panes_ok (w\<lparr>hHorzSplitter := (hHorzSplitter w)\<lparr>es_posted := rest\<rparr>\<rparr>)" by (simp add: panes_ok_def set_up_def)
    from size_message [OF this, of env] Cons Deliver_Size show ?thesis by (auto simp: panes_event_step_def)
  qed (use Deliver_Size assms in \<open>simp add: panes_event_step_def\<close>)
qed

interpretation panes_run: event_machine panes_step "\<lambda>r. \<exists>w. r = Inr w \<and> panes_ok w"
proof
  fix r :: "panes res" and e
  assume "\<exists>w. r = Inr w \<and> panes_ok w"
  then show "\<exists>w. panes_step r e = Inr w \<and> panes_ok w" using event_sound by (auto simp: panes_step_def)
qed

lemma created_panes_ok: "\<exists>w. create_panes env True garbage shadow face = Inr w \<and> panes_ok w"
proof -
  let ?es = "splitter_setup env True garbage shadow face"
  have "splitter_style AND WS_CHILD \<noteq> 0" "\<not> (splitter_style AND ES_VERT > 0)" "splitter_style AND ES_DOCK > 0" "splitter_style \<noteq> 0"
    by (simp_all add: splitter_style_def WS_CHILD_def WS_VISIBLE_def WS_TABSTOP_def ES_HORZ_def ES_LINE_def ES_TRACK_def ES_DOCK_def ES_VERT_def)
  note style = this
  have "\<exists>s. es_run (map (Pair env) ?es) new_splitter = Inr s \<and> set_up s"
    using style
    by (simp add: es_run_def splitter_setup_def EasySplitLoop_def es_NewWindow_def child_of_panes with_data_def es_handlers Let_def
        ESB_TOP_def ESB_BOTTOM_def to_INT_def set_up_def geometry_def new_splitter_def)
  then show ?thesis by (auto simp: create_panes_def panes_ok_def create_list_view_def split: prod.splits)
qed

text \<open>
  C38: The panes tile the window. Whatever the user has done to a window that was created with its splitter,
  after a resize to at least 60 pixels of height the list, the splitter of 8 pixels and the log cover the
  client area from top to bottom without a gap, the list and the log at least 26 pixels high, and from a height of 75 on
  the layout is stable: a further size message, like the ones the splitter posts, changes nothing.
\<close>

theorem panes_tile_window:
  assumes "60 \<le> snd (parent_client env)"
  shows "\<exists>w p. foldl panes_step (create_panes env0 True garbage shadow face) (es @ [Resized env]) = Inr w
    \<and> 30 \<le> p \<and> p \<le> snd (parent_client env) - 30
    \<and> p_list w = Some (0, 0, fst (parent_client env), p - 4)
    \<and> p_bar w = (0, p - 4, fst (parent_client env), 8)
    \<and> p_log w = (0, p + 4, fst (parent_client env), snd (parent_client env) - (p + 4))
    \<and> (75 \<le> snd (parent_client env) \<longrightarrow> panes_step (Inr w) (Resized env) = Inr w)"
proof -
  from created_panes_ok have "\<exists>w. create_panes env0 True garbage shadow face = Inr w \<and> panes_ok w" .
  from panes_run.run_inv [OF this, of es] obtain w0 where
    w0: "foldl panes_step (create_panes env0 True garbage shadow face) es = Inr w0" "panes_ok w0" by blast
  from size_message [OF w0(2), of env] obtain w p where "on_wm_size env w0 = Inr w" "laid_out env p w"
    "30 \<le> p \<and> p \<le> snd (parent_client env) - 30" "75 \<le> snd (parent_client env) \<longrightarrow> on_wm_size env w = Inr w"
    using assms by blast
  then show ?thesis using w0(1)
    by (intro exI [of _ w] exI [of _ p]) (simp add: panes_step_def panes_event_step_def laid_out_def)
qed

theorem panes_tile_window_witness:
  "\<exists>w p. foldl panes_step (create_panes (demo_mouse 0) True (0, 0, 0, 0) 1 2)
      ([Splitter_Input (demo_mouse 306) ES_LBUTTONDOWN, Splitter_Input (demo_mouse 550) ES_MOUSEMOVE] @ [Resized (demo_mouse 550)]) = Inr w
    \<and> 30 \<le> p \<and> p \<le> 570 \<and> p_list w = Some (0, 0, 800, p - 4) \<and> p_log w = (0, p + 4, 800, 600 - (p + 4))"
  using panes_tile_window [of "demo_mouse 550" "demo_mouse 0" "(0, 0, 0, 0)" 1 2
      "[Splitter_Input (demo_mouse 306) ES_LBUTTONDOWN, Splitter_Input (demo_mouse 550) ES_MOUSEMOVE]"]
  by (auto simp: demo_mouse_def)

text \<open>A window made too low for both panes collapses the list: it stays so when the window is high again.\<close>

lemma low_window_collapses_list:
  assumes "panes_ok w" "60 \<le> snd (parent_client env)" "snd (parent_client env) < 75" "75 \<le> snd (parent_client env2)"
  shows "\<exists>w1 w2. on_wm_size env w = Inr w1 \<and> on_wm_size env2 w1 = Inr w2 \<and> p_list w2 = Some (0, 0, fst (parent_client env2), 26)"
proof -
  obtain right lower where c: "parent_client env = (right, lower)" by (cases "parent_client env")
  obtain right2 lower2 where c2: "parent_client env2 = (right2, lower2)" by (cases "parent_client env2")
  from assms(1) obtain d l where d: "es_data (hHorzSplitter w) = Some d" "geometry d = (30, 30, 15, True, False)" "p_list w = Some l"
    by (auto simp: panes_ok_def set_up_def)
  have p: "snap 30 (lower - 30) 15 (Position d) = lower - 30" "snap 30 (lower2 - 30) 15 (lower - 30) = 30"
    using assms(2-4) by (auto simp: snap_def Let_def c c2)
  show ?thesis
    using d by (simp add: on_wm_size_def c c2 get_pos_set_up moved_set_up child_of_panes p Let_def)
qed

text \<open>Without memory for its data the splitter is created all the same, and its first message follows a null pointer.\<close>

lemma no_memory_faults: "create_panes env False garbage shadow face = Inl Null_Deref"
  by (simp add: create_panes_def es_run_def splitter_setup_def EasySplitLoop_def es_NewWindow_def with_data_def new_splitter_def WS_CHILD_def)

end
