(* ===== verification/Main_Proc.thy ===== *)
theory Main_Proc
  imports QR_Dialog Window_Layout
begin

text \<open>
  The procedure of the main window as a whole (main.c): it dispatches every message to the handlers of
  the other theories, the commands by their number, and says whether the default procedure gets the message too. The state puts
  the parts together: the servers and settings, the panes, the queue of log lines, the desktop, the files and the registry.
\<close>

section \<open>State\<close>

text \<open>Without \<open>a_data\<close> the window has not been created yet or is gone; \<open>a_freed\<close> collects the configurations released.\<close>

record 'j app =
  a_data :: "main_wnd_data option"
  a_panes :: panes
  a_shown :: "show_state option"
  a_queue :: "(verbosity \<times> string) list"
  a_desktop :: desktop
  a_column :: wstr
  a_freed :: "server_config option list"
  a_disk :: "(string \<Rightarrow> 'j option) \<times> registry"
  a_globals :: client_state

text \<open>What the handlers ask of the libraries and the system, and what the user does in dialogs.\<close>

record 'j app_env =
  e_window :: "'j window_env"
  e_exe :: "string option"
  e_qr :: qr_env
  e_scan :: "nat \<Rightarrow> nat \<Rightarrow> bytes \<Rightarrow> string list"
  e_allocator :: "nat \<Rightarrow> bytes"
  e_malloc_ok :: bool
  e_to_file :: "string \<Rightarrow> 'j \<Rightarrow> bool"
  e_colors :: "64 word \<times> 64 word"

record app_user =
  u_user :: user
  u_qr :: "qr_event list"
  u_file :: "string option"
  u_screen :: BITMAP

datatype app_message = A_CREATE es_env | A_SIZE es_env | A_CLOSE int | A_DESTROY | A_QUERYENDSESSION | A_ENDSESSION
  | A_DUMP_INFO | A_COMMAND int | A_SETFOCUS | A_CONTEXTMENU | A_SYSCOMMAND_CLOSE | A_SYSCOMMAND_MINIMIZE | A_SYSCOMMAND_OTHER
  | A_NOTIFY bool notification | A_INITMENU bool "menu_item list" | A_OTHER

section \<open>Creation and end\<close>

definition with_window :: "'j app \<Rightarrow> (main_wnd_data \<Rightarrow> 'a res) \<Rightarrow> 'a res" where
  "with_window a k = (case a_data a of None \<Rightarrow> Inl Null_Deref | Some d \<Rightarrow> k d)"

definition create_window :: "'j app_env \<Rightarrow> es_env \<Rightarrow> 'j app \<Rightarrow> 'j app res" where
  "create_window env place a =
     bindr (c_assert (a_data a = None)) (\<lambda>_.
     bindr (create_panes place (e_malloc_ok env) (0, 0, 0, 0) (fst (e_colors env)) (snd (e_colors env))) (\<lambda>p.
     bindr (on_wm_create (e_window env) (fst (a_disk a)) (e_exe env) (snd (a_disk a)) (a_globals a)) (\<lambda>d.
     Inr (a\<lparr>a_data := Some d, a_panes := p, a_shown := Some Hidden\<rparr>))))"

text \<open>
  \<open>WM_DESTROY\<close>: the list view is destroyed after the rows were saved and sends a notification for each of its
  rows; the window's data is freed at the end.
\<close>

definition destroy_window :: "'j app_env \<Rightarrow> 'j app \<Rightarrow> 'j app res" where
  "destroy_window env a =
     with_window a (\<lambda>d.
     bindr (settings_file_path (e_exe env)) (\<lambda>path.
     bindr (on_wm_destroy (e_window env) path d (a_disk a)) (\<lambda>(disk, g).
     Inr (a\<lparr>a_data := None, a_shown := None, a_disk := disk, a_globals := g,
            a_freed := a_freed a @ map row_config (hListView d)\<rparr>))))"

section \<open>Commands and messages\<close>

text \<open>A command that concerns the servers, the settings or the client. A deleted row releases its configuration.\<close>

definition deleted_configs :: "user \<Rightarrow> main_wnd_data \<Rightarrow> server_config option list" where
  "deleted_configs u d =
     (if delete_confirmed u \<and> has_row d (focused_row u) then [row_config (hListView d ! nat (focused_row u))] else [])"

definition data_command :: "'j app_env \<Rightarrow> app_user \<Rightarrow> int \<Rightarrow> 'j app \<Rightarrow> 'j app res" where
  "data_command env u cmd_id a =
     with_window a (\<lambda>d. bindr (wm_command (e_window env) (u_user u) cmd_id d) (\<lambda>d1.
       Inr (a\<lparr>a_data := Some d1, a_freed := a_freed a @ (if cmd_id = ID_CMD_DELETE then deleted_configs (u_user u) d else [])\<rparr>)))"

definition close_window :: "'j app_env \<Rightarrow> int \<Rightarrow> 'j app \<Rightarrow> 'j app res" where
  "close_window env wParam a =
     (if wParam = ID_CMD_EXIT then destroy_window env a else Inr (a\<lparr>a_shown := ShowWindowSimple False (a_shown a)\<rparr>))"

definition app_command :: "'j app_env \<Rightarrow> app_user \<Rightarrow> int \<Rightarrow> 'j app \<Rightarrow> 'j app res" where
  "app_command env u cmd_id a =
     (if cmd_id = ID_CMD_SCAN_QRCODE
      then with_window a (\<lambda>d.
             bindr (on_cmd_scan_screen_qrcode (e_window env) (e_scan env) (e_allocator env) (e_malloc_ok env) (u_screen u) d) (\<lambda>d1.
             Inr (a\<lparr>a_data := Some d1\<rparr>)))
      else if cmd_id = ID_CMD_EXIT then close_window env ID_CMD_EXIT a
      else if cmd_id = ID_CMD_MANAGE_CENTER then Inr (a\<lparr>a_shown := ShowWindowSimple True (a_shown a)\<rparr>)
      else if cmd_id = IDCANCEL then close_window env 0 a
      else if cmd_id = ID_CMD_SERVER_TO_JSON
      then with_window a (\<lambda>d.
             bindr (on_cmd_server_export_to_json (e_window env) (e_to_file env) (focused_row (u_user u)) (u_file u) d) (\<lambda>_. Inr a))
      else if cmd_id = ID_CMD_QR_CODE
      then with_window a (\<lambda>d.
             bindr (on_cmd_qr_code (e_qr env) (u_qr u) (focused_row (u_user u)) d (a_desktop a)) (\<lambda>(_, k).
             Inr (a\<lparr>a_desktop := k\<rparr>)))
      else data_command env u cmd_id a)"

text \<open>The control announces a row that the key deletes by a notification of its own.\<close>

definition notified :: "'j app_env \<Rightarrow> app_user \<Rightarrow> bool \<Rightarrow> notification \<Rightarrow> 'j app \<Rightarrow> (bool \<times> int \<times> 'j app) res" where
  "notified env u from_list n a =
     with_window a (\<lambda>d.
     bindr (handle_wm_notify_from_list_view (e_window env) (u_user u) from_list n
       \<lparr>n_window = d, n_shown = a_shown a, n_result = 0, n_column = a_column a, n_freed = a_freed a\<rparr>) (\<lambda>(handled, s).
     Inr (\<not> handled, n_result s,
          a\<lparr>a_data := Some (n_window s), a_shown := n_shown s, a_column := n_column s, a_freed := n_freed s @ (if from_list \<and> n = LVN_KEYDOWN_DELETE then deleted_configs (u_user u) d else [])\<rparr>)))"

text \<open>Whether the default procedure gets the message, the result otherwise, and the state after it.\<close>

definition MainWndProc :: "'j app_env \<Rightarrow> app_user \<Rightarrow> app_message \<Rightarrow> 'j app \<Rightarrow> (bool \<times> int \<times> 'j app) res" where
  "MainWndProc env u msg a =
     (case msg of
        A_CREATE place \<Rightarrow> bindr (create_window env place a) (\<lambda>a1. Inr (True, 0, a1))
      | A_SIZE place \<Rightarrow> with_window a (\<lambda>_. bindr (on_wm_size place (a_panes a)) (\<lambda>p. Inr (False, 0, a\<lparr>a_panes := p\<rparr>)))
      | A_CLOSE wParam \<Rightarrow> bindr (close_window env wParam a) (\<lambda>a1. Inr (False, 0, a1))
      | A_DESTROY \<Rightarrow> bindr (destroy_window env a) (\<lambda>a1. Inr (False, 0, a1))
      | A_QUERYENDSESSION \<Rightarrow> bindr (destroy_window env a) (\<lambda>a1. Inr (True, 0, a1))
      | A_ENDSESSION \<Rightarrow> Inr (True, 0, a)
      | A_DUMP_INFO \<Rightarrow>
          with_window a (\<lambda>d. case on_wm_dump_info (a_queue a, d) of (queue, d1) \<Rightarrow>
            Inr (False, 0, a\<lparr>a_queue := queue, a_data := Some d1\<rparr>))
      | A_COMMAND cmd_id \<Rightarrow> bindr (app_command env u cmd_id a) (\<lambda>a1. Inr (False, 0, a1))
      | A_SETFOCUS \<Rightarrow> with_window a (\<lambda>_. Inr (False, 0, a))
      | A_CONTEXTMENU \<Rightarrow> Inr (True, 0, a)
      | A_SYSCOMMAND_CLOSE \<Rightarrow> Inr (False, 0, a\<lparr>a_shown := ShowWindowSimple False (a_shown a)\<rparr>)
      | A_SYSCOMMAND_MINIMIZE \<Rightarrow> Inr (False, 0, a\<lparr>a_shown := ShowWindowSimple False (a_shown a)\<rparr>)
      | A_SYSCOMMAND_OTHER \<Rightarrow> Inr (True, 0, a)
      | A_NOTIFY from_list n \<Rightarrow> notified env u from_list n a
      | A_INITMENU own menu \<Rightarrow>
          if own
          then with_window a (\<lambda>d. bindr (modify_popup_menu_items (to_wide (w_dialog (e_window env))) d menu) (\<lambda>(d1, m1).
                 Inr (True, 0, a\<lparr>a_data := Some d1\<rparr>)))
          else Inr (True, 0, a)
      | A_OTHER \<Rightarrow> Inr (True, 0, a))"

text \<open>\<open>InitInstance\<close> shows the created window unless a client already runs; \<open>nCmdShow\<close> is how.\<close>

definition InitInstance :: "'j app_env \<Rightarrow> app_user \<Rightarrow> es_env \<Rightarrow> show_state \<Rightarrow> 'j app \<Rightarrow> 'j app res" where
  "InitInstance env u place nCmdShow a =
     bindr (MainWndProc env u (A_CREATE place) a) (\<lambda>(_, _, a1).
     with_window a1 (\<lambda>d. Inr (a1\<lparr>a_shown := Some (if client_ctx d \<noteq> None then Hidden else nCmdShow)\<rparr>)))"

section \<open>A session\<close>

text \<open>
  Messages, clicks on the check boxes of the list, what happens to the panes, and lines logged by other threads.
  The control asks the window only from within a click, and some messages delete a row.
\<close>

datatype app_event = Sent app_user app_message | Clicked int bool | Panes_Moved panes_event | Logged verbosity string

definition app_step :: "'j app_env \<Rightarrow> app_event \<Rightarrow> 'j app \<Rightarrow> 'j app res" where
  "app_step env e a =
     (case e of
        Sent u msg \<Rightarrow> bindr (MainWndProc env u msg a) (\<lambda>(_, _, a1). Inr a1)
      | Clicked i b \<Rightarrow>
          with_window a (\<lambda>d. Inr (if has_row d i then a\<lparr>a_data := Some (ListView_SetCheckState i b d)\<rparr> else a))
      | Panes_Moved pe \<Rightarrow> with_window a (\<lambda>_. bindr (panes_event_step pe (a_panes a)) (\<lambda>p. Inr (a\<lparr>a_panes := p\<rparr>)))
      | Logged v info \<Rightarrow> with_window a (\<lambda>_. bindr (dump_info_callback v info (a_queue a)) (\<lambda>q. Inr (a\<lparr>a_queue := q\<rparr>))))"

fun deletes :: "app_event \<Rightarrow> bool" where
  "deletes (Sent u (A_COMMAND cmd_id)) = (cmd_id = ID_CMD_DELETE)"
| "deletes (Sent u (A_NOTIFY from_list LVN_KEYDOWN_DELETE)) = True"
| "deletes (Sent u (A_NOTIFY from_list (LVN_ITEMCHANGING i st))) = True"
| "deletes _ = False"

definition app_run :: "'j app_env \<Rightarrow> app_event list \<Rightarrow> 'j app \<Rightarrow> 'j app res" where
  "app_run env = for_each (app_step env)"

definition app_ok :: "'j app \<Rightarrow> bool" where
  "app_ok a \<longleftrightarrow> (case a_data a of None \<Rightarrow> a_shown a = None
     | Some d \<Rightarrow> a_shown a \<noteq> None \<and> selection_ok d \<and> panes_ok (a_panes a))"

lemma with_window_Inr: "with_window a k = Inr r \<longleftrightarrow> (\<exists>d. a_data a = Some d \<and> k d = Inr r)"
  by (simp add: with_window_def split: option.splits)

definition unchecked_rows :: "main_wnd_data \<Rightarrow> bool" where
  "unchecked_rows d \<longleftrightarrow> cur_selected d = - 1 \<and> (\<forall>r \<in> set (hListView d). \<not> row_checked r)"

lemma unchecked_rows_ok: "unchecked_rows d \<Longrightarrow> selection_ok d"
  by (auto simp: unchecked_rows_def selection_ok_def checked_rows_def)

lemma json_config_iter_unchecked: "unchecked_rows (fst p) \<Longrightarrow> unchecked_rows (fst (json_config_iter ok c p))"
  by (cases p) (auto simp: unchecked_rows_def json_config_iter_def InsertListViewItem_def dest: in_set_takeD in_set_dropD)

lemma fold_unchecked: "unchecked_rows (fst p) \<Longrightarrow> unchecked_rows (fst (fold (\<lambda>obj. json_config_iter ok (f obj)) xs p))"
  by (induction xs arbitrary: p) (simp_all add: json_config_iter_unchecked)

lemma loaded_rows_unchecked: "unchecked_rows d \<Longrightarrow> unchecked_rows (load_rows env j d)"
  using fold_unchecked [of "(d, 0)"] by (auto simp: load_rows_def parse_settings_file_def split: option.splits)

lemma created_selection:
  assumes "on_wm_create env files exe reg g = Inr d"
  shows "selection_ok d"
proof -
  from assms obtain path where path: "settings_file_path exe = Inr path" by (auto simp: on_wm_create_def bindr_eq_Inr)
  let ?d0 = "load_rows env (files path) (default_settings (empty_window g))"
  obtain index d1 where d1: "load_settings (w_registry env) reg ?d0 = (index, d1)" by (cases "load_settings (w_registry env) reg ?d0")
  let ?d2 = "load_auto_run (w_registry env) reg d1"
  have "selection_ok ?d0"
    by (intro unchecked_rows_ok loaded_rows_unchecked) (simp add: unchecked_rows_def default_fields empty_fields)
  with load_settings_list(1) [of ?d0 "w_registry env" reg] load_settings_list(2) [of d1 "w_registry env" reg] d1
  have ok2: "selection_ok ?d2" using same_list_selection by fastforce
  show ?thesis
  proof (cases "index < 0 \<or> ListView_GetItemCount ?d2 \<le> index")
    case True
    with assms path d1 ok2 show ?thesis by (simp add: on_wm_create_def Let_def)
  next
    case False
    then have "selection_ok (set_current_selected_item index True ?d2)" by (intro set_current_row ok2) (simp add: has_row_def)
    with False assms path d1 start_client_list [THEN same_list_selection] show ?thesis
      by (fastforce simp: on_wm_create_def Let_def split: if_splits)
  qed
qed

section \<open>What every message keeps\<close>

lemma handled_notification:
  assumes "handle_wm_notify_from_list_view env u from_list n s = Inr (h, s1)" "selection_ok (n_window s)" "n_shown s \<noteq> None"
    "n \<noteq> LVN_KEYDOWN_DELETE" "\<And>i st. n \<noteq> LVN_ITEMCHANGING i st"
  shows "selection_ok (n_window s1) \<and> n_shown s1 \<noteq> None"
  using assms view_server_details_selection [of env u "n_window s"]
  by (cases n) (auto simp: handle_wm_notify_from_list_view_def bindr_eq_Inr ShowWindowSimple_def split: if_splits option.splits)

lemma close_window_ok:
  assumes "close_window env w a = Inr a1" "app_ok a" shows "app_ok a1"
  using assms
  by (auto simp: close_window_def destroy_window_def with_window_Inr bindr_eq_Inr app_ok_def ShowWindowSimple_def split: if_splits option.splits)

lemma scan_selection:
  "on_cmd_scan_screen_qrcode env scan allocator ok screen d = Inr d1 \<Longrightarrow> selection_ok d \<Longrightarrow> selection_ok d1"
proof -
  assume run: "on_cmd_scan_screen_qrcode env scan allocator ok screen d = Inr d1" and sel: "selection_ok d"
  have "selection_ok (snd (add_ssr_url_to_sub_list_view env url d))" for url
    using sel insert_selection_ok by (auto simp: add_ssr_url_to_sub_list_view_def Let_def split: option.splits)
  with run show ?thesis by (auto simp: on_cmd_scan_screen_qrcode_def bindr_eq_Inr)
qed

lemma app_command_ok:
  assumes "app_command env u cmd_id a = Inr a1" "cmd_id \<noteq> ID_CMD_DELETE" "app_ok a"
  shows "app_ok a1"
proof -
  have data: "data_command env u cmd_id a = Inr a1 \<Longrightarrow> app_ok a1"
    using assms(2,3) wm_command_selection
    by (auto simp: data_command_def with_window_Inr bindr_eq_Inr app_ok_def split: option.splits)
  have shown: "app_ok (a\<lparr>a_shown := ShowWindowSimple True (a_shown a)\<rparr>)"
    using assms(3) by (auto simp: app_ok_def ShowWindowSimple_def split: option.splits)
  show ?thesis
    using assms data shown close_window_ok [of env _ a a1] scan_selection
    unfolding app_command_def
    by (auto simp: with_window_Inr bindr_eq_Inr app_ok_def split: if_splits option.splits)
qed

lemma create_window_ok:
  assumes "create_window env place a = Inr a1" shows "app_ok a1"
proof -
  from assms obtain p d where p: "create_panes place (e_malloc_ok env) (0, 0, 0, 0) (fst (e_colors env)) (snd (e_colors env)) = Inr p"
    and d: "on_wm_create (e_window env) (fst (a_disk a)) (e_exe env) (snd (a_disk a)) (a_globals a) = Inr d"
    and a1: "a1 = a\<lparr>a_data := Some d, a_panes := p, a_shown := Some Hidden\<rparr>"
    by (auto simp: create_window_def bindr_eq_Inr)
  from p have "panes_ok p"
    using created_panes_ok [of place "(0, 0, 0, 0)" "fst (e_colors env)" "snd (e_colors env)"] no_memory_faults
    by (cases "e_malloc_ok env") auto
  with created_selection [OF d] show ?thesis by (simp add: app_ok_def a1)
qed

lemma MainWndProc_ok:
  assumes run: "MainWndProc env u msg a = Inr (pass, r, a1)" and ok: "app_ok a" and msg: "\<not> deletes (Sent u msg)"
  shows "app_ok a1"
proof (cases msg)
  case (A_CREATE place)
  with run show ?thesis by (auto simp: MainWndProc_def bindr_eq_Inr create_window_ok)
next
  case (A_SIZE place)
  with run ok show ?thesis
    using size_message [of "a_panes a" place] by (auto simp: MainWndProc_def with_window_Inr bindr_eq_Inr app_ok_def)
next
  case (A_CLOSE w)
  with run ok show ?thesis by (auto simp: MainWndProc_def bindr_eq_Inr dest: close_window_ok)
next
  case A_DESTROY
  with run show ?thesis by (auto simp: MainWndProc_def bindr_eq_Inr destroy_window_def with_window_Inr app_ok_def)
next
  case A_QUERYENDSESSION
  with run show ?thesis by (auto simp: MainWndProc_def bindr_eq_Inr destroy_window_def with_window_Inr app_ok_def)
next
  case A_DUMP_INFO
  with run obtain d where data: "a_data a = Some d" by (auto simp: MainWndProc_def with_window_Inr)
  obtain queue d1 where "on_wm_dump_info (a_queue a, d) = (queue, d1)" by (cases "on_wm_dump_info (a_queue a, d)")
  with A_DUMP_INFO run data have d: "a_data a = Some d" "on_wm_dump_info (a_queue a, d) = (queue, d1)"
    "a1 = a\<lparr>a_queue := queue, a_data := Some d1\<rparr>"
    by (auto simp: MainWndProc_def with_window_Inr)
  then have "same_list d d1" by (auto simp: on_wm_dump_info_def same_list_def split: list.splits prod.splits)
  with d ok same_list_selection show ?thesis by (simp add: app_ok_def)
next
  case (A_COMMAND cmd_id)
  with run ok msg show ?thesis by (auto simp: MainWndProc_def bindr_eq_Inr dest: app_command_ok)
next
  case (A_NOTIFY from_list n)
  with run obtain d where d: "a_data a = Some d" by (auto simp: MainWndProc_def notified_def with_window_Inr)
  let ?s0 = "\<lparr>n_window = d, n_shown = a_shown a, n_result = 0, n_column = a_column a, n_freed = a_freed a\<rparr>"
  from run A_NOTIFY d obtain q where "handle_wm_notify_from_list_view (e_window env) (u_user u) from_list n ?s0 = Inr q"
    by (auto simp: MainWndProc_def notified_def with_window_Inr bindr_eq_Inr)
  moreover obtain handled s where "q = (handled, s)" by (cases q)
  ultimately have s: "handle_wm_notify_from_list_view (e_window env) (u_user u) from_list n ?s0 = Inr (handled, s)" by simp
  with run A_NOTIFY d have a1: "a_data a1 = Some (n_window s)" "a_shown a1 = n_shown s" "a_panes a1 = a_panes a"
    by (auto simp: MainWndProc_def notified_def with_window_Inr bindr_eq_Inr)
  from msg A_NOTIFY have n: "n \<noteq> LVN_KEYDOWN_DELETE" "\<And>i st. n \<noteq> LVN_ITEMCHANGING i st" by auto
  from handled_notification [OF s _ _ n] d a1 ok show ?thesis by (simp add: app_ok_def)
next
  case (A_INITMENU own menu)
  with run ok show ?thesis
    by (auto simp: MainWndProc_def with_window_Inr bindr_eq_Inr app_ok_def select_adjusted_ok(1) dest!: modify_popup_selection split: if_splits option.splits)
qed (use run ok in \<open>auto simp: MainWndProc_def with_window_Inr app_ok_def ShowWindowSimple_def split: option.splits\<close>)

lemma app_step_ok:
  assumes "app_step env e a = Inr a1" "app_ok a" "\<not> deletes e"
  shows "app_ok a1"
proof (cases e)
  case (Sent u msg)
  with assms show ?thesis using MainWndProc_ok [of env u msg a] by (auto simp: app_step_def bindr_eq_Inr)
next
  case (Clicked i b)
  with assms(1) obtain d where d: "a_data a = Some d" "a1 = (if has_row d i then a\<lparr>a_data := Some (ListView_SetCheckState i b d)\<rparr> else a)"
    by (auto simp: app_step_def with_window_Inr)
  from assms(2) d(1) have "selection_ok d" by (simp add: app_ok_def)
  then have "has_row d i \<Longrightarrow> selection_ok (ListView_SetCheckState i b d)"
    by (rule window_move_selection [OF window_move.click, rotated])
  with assms(2) d show ?thesis by (auto simp: app_ok_def)
next
  case (Panes_Moved pe)
  with assms show ?thesis using event_sound [of "a_panes a" pe] by (auto simp: app_step_def with_window_Inr bindr_eq_Inr app_ok_def)
next
  case (Logged v info)
  with assms show ?thesis by (auto simp: app_step_def with_window_Inr bindr_eq_Inr app_ok_def)
qed

lemma app_run_ok:
  assumes "app_run env es a = Inr a1" "app_ok a" "\<forall>e \<in> set es. \<not> deletes e"
  shows "app_ok a1"
  using assms
proof (induction es arbitrary: a)
  case (Cons e es)
  from Cons.prems(1) obtain a2 where "app_step env e a = Inr a2" "app_run env es a2 = Inr a1"
    by (auto simp: app_run_def bindr_eq_Inr)
  with Cons.IH [of a2] app_step_ok [of env e a a2] Cons.prems(2,3) show ?case by auto
qed (simp add: app_run_def)

definition demo_panes :: panes where
  "demo_panes = \<lparr>hHorzSplitter = demo_splitter, p_list = Some (0, 0, 800, 600), p_bar = (0, 300, 110, 12), p_log = (0, 0, 100, 100)\<rparr>"

definition demo_app :: "demo_json app" where
  "demo_app = \<lparr>a_data = Some demo_window, a_panes = demo_panes, a_shown = Some Shown, a_queue = [], a_desktop = demo_desktop,
     a_column = [], a_freed = [], a_disk = ((\<lambda>p. None), \<lparr>app_key = Some Map.empty, run_key = None\<rparr>), a_globals = globals demo_window\<rparr>"

definition demo_app_env :: "demo_json app_env" where
  "demo_app_env = \<lparr>e_window = demo_window_env, e_exe = Some (''C:'' @ [CHR 0x5C] @ ''ssrWin.exe''), e_qr = demo_qr_env,
     e_scan = (\<lambda>w h raw. []), e_allocator = (\<lambda>n. replicate n 0), e_malloc_ok = True, e_to_file = (\<lambda>p j. True), e_colors = (1, 2)\<rparr>"

definition demo_app_user :: app_user where
  "demo_app_user = \<lparr>u_user = \<lparr>focused_row = 0, delete_confirmed = False, in_options = [], in_details = [],
       user_clipboard = \<lparr>clip_open = False, CF_TEXT = None, CF_UNICODETEXT = None\<rparr>, screen_code = None\<rparr>,
     u_qr = [], u_file = None, u_screen = demo_screen\<rparr>"

section \<open>Properties of the window as a whole\<close>

text \<open>
  C4: The parts of the window keep each other's promises. Through any sequence of messages, commands,
  dialogs, clicks, notifications, splitter moves, log lines, creations and destructions that deletes no row and fails
  in none, a window that exists has a selection that is exactly its check mark and can be laid out at any size,
  both panes at least 26 pixels high from 60 pixels on; a window that is gone is not shown.
\<close>

theorem window_session:
  assumes "app_run env es a = Inr a1" "app_ok a" "\<forall>e \<in> set es. \<not> deletes e"
  shows "(a_data a1 = None \<longrightarrow> a_shown a1 = None)
    \<and> (\<forall>d. a_data a1 = Some d \<longrightarrow>
         (cur_selected d = - 1 \<and> checked_rows d = {} \<or> has_row d (cur_selected d) \<and> checked_rows d = {nat (cur_selected d)})
       \<and> (\<forall>u place. 60 \<le> snd (parent_client place) \<longrightarrow>
            (\<exists>w p. MainWndProc env u (A_SIZE place) a1 = Inr (False, 0, a1\<lparr>a_panes := w\<rparr>)
               \<and> laid_out place p w \<and> 30 \<le> p \<and> p \<le> snd (parent_client place) - 30)))"
proof -
  from app_run_ok [OF assms] have ok: "app_ok a1" .
  show ?thesis
  proof (cases "a_data a1")
    case (Some d)
    with ok have d: "selection_ok d" "panes_ok (a_panes a1)" by (simp_all add: app_ok_def)
    have "\<exists>w p. MainWndProc env u (A_SIZE place) a1 = Inr (False, 0, a1\<lparr>a_panes := w\<rparr>) \<and> laid_out place p w
        \<and> 30 \<le> p \<and> p \<le> snd (parent_client place) - 30" if "60 \<le> snd (parent_client place)" for u place
      using size_message [OF d(2), of place] that Some by (auto simp: MainWndProc_def with_window_def)
    with Some d(1) show ?thesis by (auto simp: selection_ok_def)
  qed (use ok in \<open>simp add: app_ok_def\<close>)
qed

lemma demo_app_ok: "app_ok demo_app"
  using demo_window_selection(1)
  by (simp add: app_ok_def demo_app_def panes_ok_def demo_panes_def set_up_def demo_splitter_def demo_splitter_data_def geometry_def)

lemma window_session_witness:
  "\<exists>a1 d. app_run demo_app_env [Clicked 2 True, Panes_Moved (Splitter_Input (demo_mouse 306) ES_LBUTTONDOWN),
       Sent demo_app_user (A_COMMAND IDCANCEL)] demo_app = Inr a1
     \<and> a_data a1 = Some d \<and> cur_selected d = 2 \<and> checked_rows d = {2}"
proof -
  have row: "has_row demo_window 2" by (simp add: has_row_def ListView_GetItemCount_def demo_window_rows)
  obtain a1 where run: "app_run demo_app_env [Clicked 2 True, Panes_Moved (Splitter_Input (demo_mouse 306) ES_LBUTTONDOWN),
       Sent demo_app_user (A_COMMAND IDCANCEL)] demo_app = Inr a1"
    and d: "a_data a1 = Some (ListView_SetCheckState 2 True demo_window)"
    using row
    by (simp add: app_run_def app_step_def with_window_def demo_app_def panes_event_step_def EasySplitLoop_def with_data_def
        es_SetCapture_def demo_panes_def demo_splitter_def MainWndProc_def app_command_def close_window_def
        IDCANCEL_def ID_CMD_SCAN_QRCODE_def ID_CMD_EXIT_def ID_CMD_MANAGE_CENTER_def)
  from window_session [OF run demo_app_ok] d check_row_selected(2) [OF demo_window_selection(1) row] have
    "checked_rows (ListView_SetCheckState 2 True demo_window) = {2}" by (auto simp: IDCANCEL_def ID_CMD_DELETE_def)
  with run d check_row_selected(2) [OF demo_window_selection(1) row] show ?thesis by auto
qed

text \<open>
  Every way out keeps everything. The exit command, a close that means it, the end of the Windows session and the
  destruction of the window all save the servers and the settings, release each row's configuration once and leave no window;
  a window created afterwards has the same servers in the same order (each as it reads back), the same settings, the same
  server selected and checked, and its panes can be laid out.
\<close>

theorem exit_and_restart:
  assumes libs: "json_c_laws (w_json (e_window env))" "config_laws (w_config (e_window env))" "w_calloc_ok (e_window env)"
      "\<forall>n. w_insert_ok (e_window env) n"
    and d: "a_data a = Some d" "settings_ok d" "selection_ok d" "auto_connect d = 0" "client_ctx d = None"
    and rows: "\<forall>r \<in> set (hListView d). \<exists>c. row_config r = Some c \<and> storable (w_config (e_window env)) c"
    and reg: "app_key (snd (a_disk a)) = Some values" "open_write (w_registry (e_window env))"
    and path: "settings_file_path (e_exe env) = Inr path" and memory: "e_malloc_ok env"
    and msg: "msg \<in> {A_DESTROY, A_QUERYENDSESSION, A_CLOSE ID_CMD_EXIT, A_COMMAND ID_CMD_EXIT}"
  shows "\<exists>pass a1 a2 d'. MainWndProc env u msg a = Inr (pass, 0, a1) \<and> a_data a1 = None \<and> a_shown a1 = None
    \<and> a_freed a1 = a_freed a @ map row_config (hListView d)
    \<and> MainWndProc env u (A_CREATE place) a1 = Inr (True, 0, a2) \<and> a_data a2 = Some d' \<and> panes_ok (a_panes a2)
    \<and> map row_config (hListView d') = map (\<lambda>r. map_option (read_back (w_config (e_window env))) (row_config r)) (hListView d)
    \<and> cur_selected d' = cur_selected d \<and> selection_ok d' \<and> same_settings d d'"
proof -
  obtain files reg0 where disk: "a_disk a = (files, reg0)" by (cases "a_disk a")
  with reg(1) have reg0: "app_key reg0 = Some values" by simp
  from restart_restores_window [OF libs rows d(2-5) reg0 reg(2) path, of files] obtain files' reg' g d' where
    destroyed: "on_wm_destroy (e_window env) path d (files, reg0) = Inr ((files', reg'), g)"
    and created: "on_wm_create (e_window env) files' (e_exe env) reg' g = Inr d'"
    and same: "map row_config (hListView d') = map (\<lambda>r. map_option (read_back (w_config (e_window env))) (row_config r)) (hListView d)"
      "cur_selected d' = cur_selected d" "selection_ok d'" "same_settings d d'" by blast
  let ?a1 = "a\<lparr>a_data := None, a_shown := None, a_disk := (files', reg'), a_globals := g,
    a_freed := a_freed a @ map row_config (hListView d)\<rparr>"
  have gone: "destroy_window env a = Inr ?a1"
    by (simp add: destroy_window_def with_window_def d(1) path disk destroyed)
  from msg gone have exit: "\<exists>pass. MainWndProc env u msg a = Inr (pass, 0, ?a1)"
    by (auto simp: MainWndProc_def close_window_def app_command_def ID_CMD_EXIT_def ID_CMD_SCAN_QRCODE_def)
  from created_panes_ok [of place "(0, 0, 0, 0)" "fst (e_colors env)" "snd (e_colors env)"] obtain p where
    p: "create_panes place True (0, 0, 0, 0) (fst (e_colors env)) (snd (e_colors env)) = Inr p" "panes_ok p" by blast
  let ?a2 = "?a1\<lparr>a_data := Some d', a_panes := p, a_shown := Some Hidden\<rparr>"
  have "MainWndProc env u (A_CREATE place) ?a1 = Inr (True, 0, ?a2)"
    using memory p created by (simp add: MainWndProc_def create_window_def)
  with exit same p(2) show ?thesis by (elim exE) (intro exI [of _ ?a1] exI [of _ ?a2] exI [of _ d'] exI, auto)
qed

lemma exit_and_restart_witness:
  "\<exists>a1 a2 d'. MainWndProc demo_app_env demo_app_user A_QUERYENDSESSION demo_app = Inr (True, 0, a1) \<and> length (a_freed a1) = 3
    \<and> MainWndProc demo_app_env demo_app_user (A_CREATE (demo_mouse 0)) a1 = Inr (True, 0, a2)
    \<and> a_data a2 = Some d' \<and> cur_selected d' = 1 \<and> length (hListView d') = 3"
proof -
  have libs: "json_c_laws (w_json (e_window demo_app_env))" "config_laws (w_config (e_window demo_app_env))"
    "w_calloc_ok (e_window demo_app_env)" "\<forall>n. w_insert_ok (e_window demo_app_env) n"
    by (simp_all add: demo_app_env_def demo_window_env_def demo_json_laws demo_config_laws)
  have d: "a_data demo_app = Some demo_window" "auto_connect demo_window = 0" "client_ctx demo_window = None"
    by (simp_all add: demo_app_def demo_window_def)
  have rows: "\<forall>r \<in> set (hListView demo_window). \<exists>c. row_config r = Some c \<and> storable (w_config (e_window demo_app_env)) c"
    by (simp add: demo_window_def storable_def demo_config_def)
  have reg: "app_key (snd (a_disk demo_app)) = Some Map.empty" "open_write (w_registry (e_window demo_app_env))"
    by (simp_all add: demo_app_def demo_app_env_def demo_window_env_def demo_registry_api_def)
  have path: "settings_file_path (e_exe demo_app_env) = Inr ''C:/settings.json''" "e_malloc_ok demo_app_env"
    by (simp_all add: settings_file_path_def demo_app_env_def)
  from exit_and_restart [OF libs d(1) demo_window_settings demo_window_selection(1) d(2,3) rows reg path,
      of A_QUERYENDSESSION demo_app_user "demo_mouse 0"]
  obtain pass a1 a2 d' where run: "MainWndProc demo_app_env demo_app_user A_QUERYENDSESSION demo_app = Inr (pass, 0, a1)"
    "a_freed a1 = a_freed demo_app @ map row_config (hListView demo_window)"
    "MainWndProc demo_app_env demo_app_user (A_CREATE (demo_mouse 0)) a1 = Inr (True, 0, a2)" "a_data a2 = Some d'"
    "cur_selected d' = cur_selected demo_window"
    and rows': "map row_config (hListView d') = map (\<lambda>r. map_option (read_back (w_config (e_window demo_app_env))) (row_config r)) (hListView demo_window)"
    by auto
  from run(1) have "pass" by (auto simp: MainWndProc_def bindr_eq_Inr)
  moreover have "length (hListView d') = 3" using arg_cong [OF rows', of length] demo_window_rows(1) by simp
  moreover have "length (a_freed a1) = 3" using run(2) demo_window_rows(1) by (simp add: demo_app_def)
  ultimately show ?thesis using run demo_window_selection(2) by auto
qed

end
