(* ===== verification/Win_Main.thy ===== *)
theory Win_Main
  imports Main_Proc
begin

text \<open>
  The program from its start to its end (wWinMain of main.c): the single instance, the main window and the icon in the
  notification area, the loop that takes the thread's messages to both, and what a run leaves to the next one: the mutexes
  of the session, the notification area, the settings file and the registry. Class registration, the loading of resources
  and the initialisation of COM are calls without state of the program.
\<close>

section \<open>The process\<close>

text \<open>The windows of an instance that already runs: the main one, and its last active popup with whether it is enabled.\<close>

record first_window =
  f_main :: show_state
  f_popup :: "(show_state \<times> bool) option"

text \<open>The window and the tray share one thread; \<open>p_quit\<close> is whether \<open>PostQuitMessage\<close> was called.\<close>

record 'j process =
  p_app :: "'j app"
  p_tray :: "'j app tray"
  p_quit :: bool

record 'j session =
  s_mutexes :: "wstr set"
  s_area :: area
  s_disk :: "(string \<Rightarrow> 'j option) \<times> registry"
  s_first :: "first_window option"

text \<open>What the program is started with: its path, its resources, how its window is shown.\<close>

record 'j boot =
  b_env :: "'j app_env"
  b_user :: app_user
  b_place :: es_env
  nCmdShow :: show_state
  AppNameExe :: string
  b_menu :: "menu_item list"
  hIconApp :: HICON
  AppName :: wstr

definition TRAY_ICON_ID :: nat where "TRAY_ICON_ID = 1"

section \<open>The start\<close>

text \<open>The callbacks of the tray reach the window.\<close>

definition before_menu :: "'j app_env \<Rightarrow> menu_item list \<Rightarrow> 'j app \<Rightarrow> ('j app \<times> menu_item list) res" where
  "before_menu env hMenu a =
     bindr (before_tray_menu_popup (w_dialog (e_window env)) hMenu (a_data a)) (\<lambda>(d, m). Inr (a\<lparr>a_data := d\<rparr>, m))"

definition on_tray_click :: "'j app \<Rightarrow> 'j app" where
  "on_tray_click a = a\<lparr>a_shown := TrayClickCb (a_shown a)\<rparr>"

definition start_program :: "'j boot \<Rightarrow> 'j app \<Rightarrow> area \<Rightarrow> 'j process res" where
  "start_program b a0 ar =
     bindr (InitInstance (b_env b) (b_user b) (b_place b) (nCmdShow b) a0) (\<lambda>a.
     bindr (TrayAddIcon TRAY_ICON_ID (hIconApp b) (Some (AppName b)) (CreateTrayWindow (b_menu b) ar)) (\<lambda>(ok, t).
     Inr \<lparr>p_app = a,
          p_tray = TraySetClickCallback on_tray_click (TraySetBeforePopupMenuCallback (before_menu (b_env b)) t),
          p_quit = False\<rparr>))"

section \<open>The message loop\<close>

text \<open>
  A message of the queue is for the window, for the tray, or a key of the accelerator table, which becomes a command while the
  window exists. A window that ends takes its icon away and posts the quit message, and so does the tray when it is closed.
\<close>

datatype thread_message = To_Window app_event | To_Tray tray_message | Accelerator app_user int

definition deliver :: "'j app_env \<Rightarrow> app_event \<Rightarrow> 'j process \<Rightarrow> 'j process res" where
  "deliver env e p =
     bindr (app_step env e (p_app p)) (\<lambda>a.
     Inr (if a_data (p_app p) \<noteq> None \<and> a_data a = None
          then p\<lparr>p_app := a, p_tray := snd (TrayDeleteIcon TRAY_ICON_ID (p_tray p)), p_quit := True\<rparr>
          else p\<lparr>p_app := a\<rparr>))"

definition dispatch :: "'j app_env \<Rightarrow> thread_message \<Rightarrow> 'j process \<Rightarrow> 'j process res" where
  "dispatch env msg p =
     (case msg of
        To_Window e \<Rightarrow> deliver env e p
      | To_Tray m \<Rightarrow>
          bindr (TrayProc m (p_tray p) (p_app p)) (\<lambda>(effects, t, a).
          Inr (p\<lparr>p_app := a, p_tray := t, p_quit := p_quit p \<or> PostQuitMessage \<in> set effects\<rparr>))
      | Accelerator u cmd \<Rightarrow> if a_data (p_app p) = None then Inr p else deliver env (Sent u (A_COMMAND cmd)) p)"

text \<open>
  What \<open>GetMessageW\<close> answers: a message, or \<open>- 1\<close>, which ends the loop with the last message's parameter. The quit message
  comes when it was posted and nothing else is left; without it the call waits.
\<close>

datatype got = Got thread_message | Get_Failed int

fun message_loop :: "'j app_env \<Rightarrow> got list \<Rightarrow> 'j process \<Rightarrow> (int \<times> 'j process) res" where
  "message_loop env [] p = (if p_quit p then Inr (0, p) else Inl Waits_Forever)"
| "message_loop env (Get_Failed wParam # gs) p = Inr (wParam, p)"
| "message_loop env (Got msg # gs) p = bindr (dispatch env msg p) (message_loop env gs)"

text \<open>The popup comes forward if it is enabled, else the window; what is hidden or minimized is shown.\<close>

definition SetFocusToPreviousInstance :: "first_window option \<Rightarrow> first_window option" where
  "SetFocusToPreviousInstance found =
     (case found of
        None \<Rightarrow> None
      | Some f \<Rightarrow>
          (case f_popup f of
             Some (st, True) \<Rightarrow> Some (f\<lparr>f_popup := Some (if st = Shown then st else Shown, True)\<rparr>)
           | _ \<Rightarrow> Some (f\<lparr>f_main := (if f_main f = Shown then f_main f else Shown)\<rparr>)))"

definition wWinMain :: "'j boot \<Rightarrow> got list \<Rightarrow> 'j app \<Rightarrow> 'j session \<Rightarrow> (int \<times> 'j session) res" where
  "wWinMain b gs a0 s =
     bindr (start_names (w_dialog (e_window (b_env b))) (AppNameExe b)) (\<lambda>names.
     (case single_instance names (s_mutexes s) of
        Already_Running ms \<Rightarrow> Inr (0, s\<lparr>s_mutexes := ms, s_first := SetFocusToPreviousInstance (s_first s)\<rparr>)
      | Runs ms \<Rightarrow>
          bindr (start_program b (a0\<lparr>a_disk := s_disk s\<rparr>) (s_area s)) (\<lambda>p0.
          bindr (message_loop (b_env b) gs p0) (\<lambda>(code, p).
          Inr (code, \<lparr>s_mutexes = ms - {MutexName names}, s_area = notify_area (p_tray p), s_disk = a_disk (p_app p), s_first = None\<rparr>)))))"

section \<open>What a run keeps\<close>

lemma message_loop_append:
  "message_loop env (map Got ms @ gs) p = bindr (for_each (dispatch env) ms p) (message_loop env gs)"
proof (induction ms arbitrary: p)
  case (Cons m ms)
  then show ?case by (cases "dispatch env m p") simp_all
qed simp

definition process_ok :: "'j boot \<Rightarrow> 'j process \<Rightarrow> bool" where
  "process_ok b p \<longleftrightarrow> app_ok (p_app p) \<and> remembers (hIconApp b) (AppName b) (p_tray p, p_app p)
     \<and> g_clk_cb (p_tray p) = Some on_tray_click \<and> g_dbclk_cb (p_tray p) = None
     \<and> g_before_popup_menu_cb (p_tray p) = Some (before_menu (b_env b))"

fun thread_deletes :: "thread_message \<Rightarrow> bool" where
  "thread_deletes (To_Window e) = deletes e"
| "thread_deletes (Accelerator u cmd) = (cmd = ID_CMD_DELETE)"
| "thread_deletes (To_Tray m) = False"

lemma callbacks_kept:
  assumes "TrayProc m t a = Inr (out, t', a')"
  shows "g_clk_cb t' = g_clk_cb t \<and> g_dbclk_cb t' = g_dbclk_cb t \<and> g_before_popup_menu_cb t' = g_before_popup_menu_cb t"
  using assms
  by (auto simp: TrayProc_def TrayAddIcon_def bindr_eq_Inr Let_def split: tray_message.splits mouse_message.splits option.splits if_splits)

lemma before_menu_ok: "before_menu env m a = Inr (a', m') \<Longrightarrow> app_ok a \<Longrightarrow> app_ok a'"
  by (auto simp: before_menu_def before_tray_menu_popup_def bindr_eq_Inr app_ok_def select_adjusted_ok(1)
      dest!: modify_popup_selection split: option.splits)

lemma click_ok: "app_ok a \<Longrightarrow> app_ok (on_tray_click a)"
  by (auto simp: on_tray_click_def app_ok_def TrayClickCb_def ShowWindowSimple_def split: option.splits)

lemma deliver_ok:
  assumes "deliver env e p = Inr p'" "process_ok b p" "\<not> deletes e"
  shows "process_ok b p'"
  using assms app_step_ok [of env e "p_app p"]
  by (auto simp: deliver_def bindr_eq_Inr process_ok_def remembers_def TrayDeleteIcon_def split: if_splits)

lemma dispatch_ok:
  assumes run: "dispatch (b_env b) msg p = Inr p'" and ok: "process_ok b p" and keep: "\<not> thread_deletes msg"
  shows "process_ok b p'"
proof (cases msg)
  case (To_Window e)
  with assms deliver_ok show ?thesis by (auto simp: dispatch_def)
next
  case (Accelerator u cmd)
  with assms deliver_ok [of _ "Sent u (A_COMMAND cmd)"] show ?thesis by (auto simp: dispatch_def split: if_splits)
next
  case (To_Tray m)
  with run obtain out t a where t: "TrayProc m (p_tray p) (p_app p) = Inr (out, t, a)"
    "p' = p\<lparr>p_app := a, p_tray := t, p_quit := p_quit p \<or> PostQuitMessage \<in> set out\<rparr>"
    by (auto simp: dispatch_def bindr_eq_Inr)
  have "app_ok a"
    using t(1) ok before_menu_ok click_ok
    by (auto simp: TrayProc_def process_ok_def bindr_eq_Inr split: tray_message.splits mouse_message.splits if_splits)
  with t ok callbacks_kept [OF t(1)] TrayProc_remembers [OF _ t(1)] show ?thesis by (simp add: process_ok_def remembers_def)
qed

lemma run_ok:
  assumes "for_each (dispatch (b_env b)) ms p = Inr p'" "process_ok b p" "\<forall>m \<in> set ms. \<not> thread_deletes m"
  shows "process_ok b p'"
  using assms
proof (induction ms arbitrary: p)
  case (Cons m ms)
  from Cons.prems(1) obtain p1 where "dispatch (b_env b) m p = Inr p1" "for_each (dispatch (b_env b)) ms p1 = Inr p'"
    by (auto simp: bindr_eq_Inr)
  with Cons dispatch_ok [of b m p p1] show ?case by auto
qed simp

lemma program_start_ok:
  assumes start: "start_program b a0 ar = Inr p" and names: "hIconApp b \<noteq> 0" "AppName b \<noteq> []" "length (AppName b) < 128"
  shows "process_ok b p" "notify_area (p_tray p) TRAY_ICON_ID \<noteq> None" "\<not> p_quit p"
proof -
  from start obtain a ok t where a: "InitInstance (b_env b) (b_user b) (b_place b) (nCmdShow b) a0 = Inr a"
    and t: "TrayAddIcon TRAY_ICON_ID (hIconApp b) (Some (AppName b)) (CreateTrayWindow (b_menu b) ar) = Inr (ok, t)"
    and p: "p = \<lparr>p_app = a, p_tray = TraySetClickCallback on_tray_click (TraySetBeforePopupMenuCallback (before_menu (b_env b)) t), p_quit = False\<rparr>"
    by (auto simp: start_program_def bindr_eq_Inr)
  from a obtain pass r a1 d where a1: "MainWndProc (b_env b) (b_user b) (A_CREATE (b_place b)) a0 = Inr (pass, r, a1)" "a_data a1 = Some d"
    "a = a1\<lparr>a_shown := Some (if client_ctx d \<noteq> None then Hidden else nCmdShow b)\<rparr>"
    by (auto simp: InitInstance_def bindr_eq_Inr with_window_Inr)
  then have "app_ok a1" by (auto simp: MainWndProc_def bindr_eq_Inr create_window_ok)
  with a1 have "app_ok a" by (simp add: app_ok_def)
  moreover have "remembers (hIconApp b) (AppName b) (t, a)" "g_dbclk_cb t = None" "notify_area t TRAY_ICON_ID \<noteq> None"
    using t names by (auto simp: TrayAddIcon_def CreateTrayWindow_def remembers_def Let_def bindr_eq_Inr split: if_splits)
  ultimately show "process_ok b p" "notify_area (p_tray p) TRAY_ICON_ID \<noteq> None" "\<not> p_quit p"
    by (simp_all add: p process_ok_def remembers_def TraySetClickCallback_def TraySetBeforePopupMenuCallback_def)
qed

section \<open>From one run to the next\<close>

text \<open>A second instance leaves all as it is, but that the first one's window, or its dialog, can be seen.\<close>

lemma second_instance:
  assumes "start_names (w_dialog (e_window (b_env b))) (AppNameExe b) = Inr names" "MutexName names \<in> s_mutexes s"
  shows "\<exists>f. wWinMain b gs a0 s = Inr (0, s\<lparr>s_first := f\<rparr>)
    \<and> (\<forall>w. s_first s = Some w \<longrightarrow> (\<exists>w'. f = Some w' \<and> (f_main w' = Shown \<or> f_popup w' = Some (Shown, True))))"
  using assms
  by (auto simp: wWinMain_def single_instance_def SetFocusToPreviousInstance_def split: option.splits bool.splits intro!: exI)

text \<open>Every way out destroys the window; a process started with its icon not there shows it.\<close>

lemma exit_message:
  assumes "msg \<in> {A_DESTROY, A_QUERYENDSESSION, A_CLOSE ID_CMD_EXIT, A_COMMAND ID_CMD_EXIT}" "a_data (p_app p) = Some d"
    and "destroy_window env (p_app p) = Inr a1"
  shows "dispatch env (To_Window (Sent u msg)) p
    = Inr (if a_data a1 = None then p\<lparr>p_app := a1, p_tray := snd (TrayDeleteIcon TRAY_ICON_ID (p_tray p)), p_quit := True\<rparr> else p\<lparr>p_app := a1\<rparr>)"
proof -
  have "app_step env (Sent u msg) (p_app p) = Inr a1"
    using assms by (auto simp: app_step_def MainWndProc_def close_window_def app_command_def ID_CMD_EXIT_def ID_CMD_SCAN_QRCODE_def)
  then show ?thesis by (simp add: dispatch_def deliver_def assms(2))
qed

lemma program_starts:
  fixes b :: "'j boot"
  assumes icon: "AppName b \<noteq> []" "length (AppName b) < 128" "ar TRAY_ICON_ID = None"
    and "e_malloc_ok (b_env b)" "a_data a0 = None" "on_wm_create (e_window (b_env b)) files (e_exe (b_env b)) reg (a_globals a0) = Inr d"
  shows "\<exists>p. start_program b (a0\<lparr>a_disk := (files, reg)\<rparr>) ar = Inr p
    \<and> notify_area (p_tray p) TRAY_ICON_ID = Some (hIconApp b, AppName b) \<and> a_data (p_app p) = Some d"
proof -
  let ?env = "b_env b"
  from created_panes_ok [of "b_place b" "(0, 0, 0, 0)" "fst (e_colors ?env)" "snd (e_colors ?env)"] obtain w where
    panes: "create_panes (b_place b) True (0, 0, 0, 0) (fst (e_colors ?env)) (snd (e_colors ?env)) = Inr w" by blast
  let ?a = "a0\<lparr>a_disk := (files, reg), a_data := Some d, a_panes := w, a_shown := Some (if client_ctx d \<noteq> None then Hidden else nCmdShow b)\<rparr>"
  have "InitInstance ?env (b_user b) (b_place b) (nCmdShow b) (a0\<lparr>a_disk := (files, reg)\<rparr>) = Inr ?a"
    using assms panes by (simp add: InitInstance_def MainWndProc_def create_window_def with_window_def)
  moreover have "\<exists>t. TrayAddIcon TRAY_ICON_ID (hIconApp b) (Some (AppName b)) (CreateTrayWindow (b_menu b) ar) = Inr (True, t :: 'j app tray)
      \<and> notify_area t TRAY_ICON_ID = Some (hIconApp b, AppName b)"
    using icon by (simp add: TrayAddIcon_def CreateTrayWindow_def Let_def)
  ultimately show ?thesis
    by (auto simp: start_program_def TraySetClickCallback_def TraySetBeforePopupMenuCallback_def)
qed


text \<open>A first run: a server is imported from the clipboard with its key and ticked, a click on the icon hides the window.\<close>

definition demo_boot :: "demo_json boot" where
  "demo_boot = \<lparr>b_env = demo_app_env\<lparr>e_window := demo_window_env\<lparr>w_qr_decode := (\<lambda>url. Some demo_config)\<rparr>\<rparr>, b_user = demo_app_user,
     b_place = demo_mouse 0, nCmdShow = Shown, AppNameExe = ''C:'' @ [CHR 0x5C] @ ''ssrWin.exe'', b_menu = [], hIconApp = 7,
     AppName = L ''ssr''\<rparr>"

definition demo_session :: "demo_json session" where
  "demo_session = \<lparr>s_mutexes = {}, s_area = Map.empty, s_disk = ((\<lambda>p. None), \<lparr>app_key = Some Map.empty, run_key = None\<rparr>), s_first = None\<rparr>"

definition demo_before :: "demo_json app" where
  "demo_before = demo_app\<lparr>a_data := None, a_shown := None\<rparr>"

definition demo_importer :: app_user where
  "demo_importer = demo_app_user\<lparr>u_user := (u_user demo_app_user)\<lparr>user_clipboard := \<lparr>clip_open = True, CF_TEXT = Some ''ssr'', CF_UNICODETEXT = None\<rparr>\<rparr>\<rparr>"

definition demo_messages :: "thread_message list" where
  "demo_messages = [Accelerator demo_importer ID_CMD_IMPORT_URL, To_Window (Clicked 0 True), To_Tray (WM_TRAYMSG WM_LBUTTONDOWN)]"

definition demo_imported :: main_wnd_data where
  "demo_imported = (default_settings (empty_window demo_client))\<lparr>hListView := [\<lparr>row_config = Some demo_config, row_checked = True\<rparr>], cur_selected := 0\<rparr>"

lemma demo_names:
  "start_names (w_dialog (e_window (b_env demo_boot))) (AppNameExe demo_boot)
     = Inr \<lparr>APP_NAME = ''ssrWin'', APP_REG_KEY = L ''Software'' @ [0x5C] @ L ''ssrWin'', MutexName = L ''ssrWin_single_instance''\<rparr>"
proof -
  have "start_names demo_dlg_env (''C:'' @ [CHR 0x5C] @ ''ssrWin'' @ ''.exe'') =
    (if length ''ssrWin'' \<le> 243 then Inr \<lparr>APP_NAME = ''ssrWin'', APP_REG_KEY = L ''Software'' @ [0x5C] @ L ''ssrWin'',
       MutexName = L (''ssrWin'' @ ''_single_instance'')\<rparr> else Inl Buffer_Overflow)"
    by (rule mutex_name_bound) (simp_all add: ascii_law_def demo_dlg_env_def)
  then show ?thesis by (simp add: demo_boot_def demo_app_env_def demo_window_env_def)
qed

lemma demo_run:
  "\<exists>p0 p. start_program demo_boot (demo_before\<lparr>a_disk := s_disk demo_session\<rparr>) (s_area demo_session) = Inr p0
    \<and> for_each (dispatch (b_env demo_boot)) demo_messages p0 = Inr p \<and> a_data (p_app p) = Some demo_imported
    \<and> a_disk (p_app p) = s_disk demo_session"
proof -
  from created_panes_ok [of "demo_mouse 0" "(0, 0, 0, 0)" 1 2] obtain w where
    panes: "create_panes (demo_mouse 0) True (0, 0, 0, 0) 1 2 = Inr w" by blast
  let ?d0 = "default_settings (empty_window demo_client)"
  let ?env = "b_env demo_boot"
  let ?a0 = "demo_before\<lparr>a_disk := s_disk demo_session\<rparr>"
  have created: "on_wm_create (e_window ?env) (fst (a_disk ?a0)) (e_exe ?env) (snd (a_disk ?a0)) (a_globals ?a0) = Inr ?d0"
    by (simp add: on_wm_create_def demo_boot_def demo_app_env_def demo_window_env_def demo_session_def demo_before_def demo_app_def
        settings_file_path_def load_rows_def parse_settings_file_def load_settings_def load_auto_run_def demo_registry_api_def
        reg_query_int_def reg_query_def default_settings_def empty_window_def c_int_def SSR_DELAY_QUIT_MIN_def HTTP_PROXY_LISTEN_PORT_def
        demo_window_def)
  let ?a1 = "?a0\<lparr>a_data := Some ?d0, a_panes := w, a_shown := Some Shown\<rparr>"
  let ?t = "\<lparr>g_hmenuTray = [], g_hiconApp = 7, g_szToolTip = L ''ssr'', g_before_popup_menu_cb = Some (before_menu ?env), g_dbclk_cb = None,
    g_clk_cb = Some on_tray_click, notify_area = [1 \<mapsto> (7, L ''ssr'')]\<rparr>"
  let ?p0 = "\<lparr>p_app = ?a1, p_tray = ?t, p_quit = False\<rparr>"
  have "MainWndProc ?env demo_app_user (A_CREATE (demo_mouse 0)) ?a0 = Inr (True, 0, ?a0\<lparr>a_data := Some ?d0, a_panes := w, a_shown := Some Hidden\<rparr>)"
    using panes created by (simp add: MainWndProc_def create_window_def demo_before_def demo_boot_def demo_app_env_def)
  then have "InitInstance ?env demo_app_user (demo_mouse 0) Shown ?a0 = Inr ?a1"
    by (simp add: InitInstance_def with_window_def default_settings_def empty_window_def)
  then have start: "start_program demo_boot ?a0 (s_area demo_session) = Inr ?p0"
    by (simp add: start_program_def demo_boot_def demo_session_def TrayAddIcon_def CreateTrayWindow_def TraySetClickCallback_def
        TraySetBeforePopupMenuCallback_def TRAY_ICON_ID_def)
  let ?d1 = "?d0\<lparr>hListView := [\<lparr>row_config = Some demo_config, row_checked = False\<rparr>]\<rparr>"
  have "wm_command (e_window ?env) (u_user demo_importer) ID_CMD_IMPORT_URL ?d0 = Inr ?d1"
    by (simp add: wm_command_def ID_CMD_IMPORT_URL_def ID_CMD_EXIT_def ID_CMD_MANAGE_CENTER_def IDCANCEL_def ID_CMD_SERVER_TO_JSON_def
        ID_CMD_QR_CODE_def ID_CMD_OPTIONS_def add_ssr_url_to_sub_list_view_def retrieve_string_from_clipboard_def demo_importer_def
        demo_boot_def demo_app_env_def demo_window_env_def demo_dlg_env_def InsertListViewItem_def default_fields empty_fields)
  then have "dispatch ?env (Accelerator demo_importer ID_CMD_IMPORT_URL) ?p0 = Inr (?p0\<lparr>p_app := ?a1\<lparr>a_data := Some ?d1\<rparr>\<rparr>)"
    by (simp add: dispatch_def deliver_def app_step_def MainWndProc_def app_command_def data_command_def with_window_def
        ID_CMD_IMPORT_URL_def ID_CMD_EXIT_def ID_CMD_MANAGE_CENTER_def IDCANCEL_def ID_CMD_SERVER_TO_JSON_def ID_CMD_QR_CODE_def
        ID_CMD_SCAN_QRCODE_def ID_CMD_DELETE_def)
  moreover have "ListView_SetCheckState 0 True ?d1 = demo_imported"
    by (simp add: ListView_SetCheckState_def set_check_state_def has_row_def ListView_GetItemCount_def change_row_def
        on_list_view_notification_item_changing_def item_checking_def default_fields empty_fields set_row_check_def demo_imported_def)
  ultimately show ?thesis
    using start
    by (simp add: demo_messages_def dispatch_def deliver_def app_step_def with_window_def has_row_def ListView_GetItemCount_def
        TrayProc_def on_tray_click_def)
qed


end
