(* ===== verification/Json_Parser.thy ===== *)
theory Json_Parser
  imports Route_Service
begin

unbundle bit_operations_syntax

text \<open>
  The parser of the service's requests (json.c): one loop over the text, run twice. The first pass
  creates the values and measures them, the second allocates what was measured and fills it in; its
  writes are checked against what was allocated. A value is named by its position in the order of
  creation, which is the order of the \<open>next_alloc\<close> chain. The settings are those of \<open>json_parse\<close>:
  no comments, no limit of memory. What only the text of an error message (lines and columns) or the value
  of a double depends on is left out.
\<close>

section \<open>Values and state\<close>

datatype jtype = t_null | t_object | t_array | t_integer | t_double | t_string | t_boolean

text \<open>
  \<open>u_length\<close> is the length of a string, an object or an array, \<open>u_names\<close> the bytes of an object's names:
  counted in the first pass, and how far the second pass has filled what it allocated, which has room
  for \<open>cap_length\<close> entries or bytes and \<open>cap_names\<close> bytes.
\<close>

record jnode =
  n_type :: jtype
  n_parent :: "nat option"
  u_boolean :: int
  u_integer :: "64 word"
  u_length :: nat
  u_names :: nat
  cap_length :: nat
  cap_names :: nat
  n_text :: string
  n_names :: "string list"
  n_items :: "nat list"

definition new_node :: "jtype \<Rightarrow> nat option \<Rightarrow> jnode" where
  "new_node type par =
     \<lparr>n_type = type, n_parent = par, u_boolean = 0, u_integer = 0, u_length = 0, u_names = 0,
      cap_length = 0, cap_names = 0, n_text = [], n_names = [], n_items = []\<rparr>"

text \<open>The flags, the position and the value under construction; and what the pointers lead to.\<close>

record cursor =
  ptr :: nat
  flag_need_comma :: bool
  flag_seek_value :: bool
  flag_escaped :: bool
  flag_string :: bool
  flag_need_colon :: bool
  flag_done :: bool
  flag_num_negative :: bool
  flag_num_zero :: bool
  flag_num_e :: bool
  flag_num_e_got_sign :: bool
  num_digits :: "32 word"
  string_length :: nat
  top_value :: "nat option"

record heap =
  nodes :: "jnode list"
  next_value :: nat
  string_buf :: string
  string_cap :: nat

type_synonym jstate = "cursor \<times> heap"

text \<open>
  How an iteration of the loop leaves its body: on to the next character, with a value completed
  (\<open>flag_next\<close>), out of the loop, to one of the labels, or with a fault. The position is the one of
  the next iteration.
\<close>

datatype flow = Continue jstate | Value_Done jstate | Pass_End jstate
  | e_failed | e_unknown_value | e_alloc_failure | e_overflow | Fault fault

definition uint_max :: nat where
  "uint_max = 2 ^ 32 - 1 - 8"

definition set_node :: "nat \<Rightarrow> (jnode \<Rightarrow> jnode) \<Rightarrow> heap \<Rightarrow> heap" where
  "set_node i f h = h\<lparr>nodes := (nodes h)[i := f (nodes h ! i)]\<rparr>"

definition advance :: "nat \<Rightarrow> cursor \<Rightarrow> cursor" where
  "advance n c = c\<lparr>ptr := ptr c + n\<rparr>"

section \<open>Characters\<close>

definition hex_value :: "char \<Rightarrow> 32 word" where
  "hex_value c =
     (if is_digit c then of_nat (digit_val c)
      else if c = CHR ''a'' \<or> c = CHR ''A'' then 0x0A
      else if c = CHR ''b'' \<or> c = CHR ''B'' then 0x0B
      else if c = CHR ''c'' \<or> c = CHR ''C'' then 0x0C
      else if c = CHR ''d'' \<or> c = CHR ''D'' then 0x0D
      else if c = CHR ''e'' \<or> c = CHR ''E'' then 0x0E
      else if c = CHR ''f'' \<or> c = CHR ''F'' then 0x0F
      else 0xFF)"

text \<open>Four hexadecimal digits after position \<open>p\<close>.\<close>

definition hex4 :: "string \<Rightarrow> nat \<Rightarrow> (32 word) option" where
  "hex4 json p =
     (let uc_b1 = hex_value (json ! (p + 1)); uc_b2 = hex_value (json ! (p + 2));
          uc_b3 = hex_value (json ! (p + 3)); uc_b4 = hex_value (json ! (p + 4))
      in if uc_b1 = 0xFF \<or> uc_b2 = 0xFF \<or> uc_b3 = 0xFF \<or> uc_b4 = 0xFF then None
         else Some (push_bit 8 (push_bit 4 uc_b1 OR uc_b2) OR (push_bit 4 uc_b3 OR uc_b4)))"

text \<open>
  The escape at the position of its \<open>u\<close>: the code point and the position of its last digit. The
  second half of a pair is not tested to be one.
\<close>

definition unicode_escape :: "string \<Rightarrow> nat \<Rightarrow> (32 word \<times> nat) option" where
  "unicode_escape json p =
     (if length json - p \<le> 4 then None
      else (case hex4 json p of
              None \<Rightarrow> None
            | Some uchar \<Rightarrow>
                if uchar AND 0xF800 = 0xD800
                then if length json - (p + 4) \<le> 6 \<or> json ! (p + 5) \<noteq> CHR 0x5C \<or> json ! (p + 6) \<noteq> CHR ''u'' then None
                     else (case hex4 json (p + 6) of
                             None \<Rightarrow> None
                           | Some uchar2 \<Rightarrow>
                               Some (0x010000 OR push_bit 10 (uchar AND 0x3FF) OR (uchar2 AND 0x3FF), p + 10))
                else Some (uchar, p + 4)))"

definition byte_of :: "32 word \<Rightarrow> char" where
  "byte_of w = char_of (unat w)"

definition utf8_length :: "32 word \<Rightarrow> nat" where
  "utf8_length uchar = (if uchar \<le> 0x7F then 1 else if uchar \<le> 0x7FF then 2 else if uchar \<le> 0xFFFF then 3 else 4)"

definition utf8_bytes :: "32 word \<Rightarrow> string" where
  "utf8_bytes uchar =
     (if uchar \<le> 0x7F then [byte_of uchar]
      else if uchar \<le> 0x7FF
      then [byte_of (0xC0 OR drop_bit 6 uchar), byte_of (0x80 OR (uchar AND 0x3F))]
      else if uchar \<le> 0xFFFF
      then [byte_of (0xE0 OR drop_bit 12 uchar), byte_of (0x80 OR (drop_bit 6 uchar AND 0x3F)),
            byte_of (0x80 OR (uchar AND 0x3F))]
      else [byte_of (0xF0 OR drop_bit 18 uchar), byte_of (0x80 OR (drop_bit 12 uchar AND 0x3F)),
            byte_of (0x80 OR (drop_bit 6 uchar AND 0x3F)), byte_of (0x80 OR (uchar AND 0x3F))])"

definition escaped_char :: "char \<Rightarrow> char" where
  "escaped_char b =
     (if b = CHR ''b'' then CHR 0x08 else if b = CHR ''f'' then CHR 0x0C else if b = CHR ''n'' then CHR 0x0A
      else if b = CHR ''r'' then CHR 0x0D else if b = CHR ''t'' then CHR 0x09 else b)"

definition is_blank :: "char \<Rightarrow> bool" where
  "is_blank b \<longleftrightarrow> b = CHR 0x0A \<or> b = CHR '' '' \<or> b = CHR 0x09 \<or> b = CHR 0x0D"

definition number_char :: "char \<Rightarrow> bool" where
  "number_char b \<longleftrightarrow> is_digit b \<or> b = CHR ''+'' \<or> b = CHR ''-'' \<or> b = CHR ''e'' \<or> b = CHR ''E'' \<or> b = CHR ''.''"

section \<open>Creating values\<close>

text \<open>
  The sizes of the structures; \<open>grants\<close> is whether an allocation of so many bytes succeeds. \<open>None\<close> is
  a failed allocation.
\<close>

definition SIZEOF_JSON_OBJECT :: nat where "SIZEOF_JSON_OBJECT = 48"
definition SIZEOF_POINTER :: nat where "SIZEOF_POINTER = 8"
definition SIZEOF_ENTRY :: nat where "SIZEOF_ENTRY = 16"

definition allocate_parts :: "(nat \<Rightarrow> bool) \<Rightarrow> jnode \<Rightarrow> jnode option" where
  "allocate_parts grants value =
     (case n_type value of
        t_array \<Rightarrow>
          if u_length value = 0 then Some (value\<lparr>cap_length := 0\<rparr>)
          else if \<not> grants (u_length value * SIZEOF_POINTER) then None
          else Some (value\<lparr>cap_length := u_length value, u_length := 0\<rparr>)
      | t_object \<Rightarrow>
          if u_length value = 0 then Some (value\<lparr>cap_length := 0, cap_names := 0\<rparr>)
          else if \<not> grants (SIZEOF_ENTRY * u_length value + u_names value) then None
          else Some (value\<lparr>cap_length := u_length value, cap_names := u_names value, u_length := 0, u_names := 0\<rparr>)
      | t_string \<Rightarrow>
          if \<not> grants (u_length value + 1) then None
          else Some (value\<lparr>cap_length := u_length value + 1, u_length := 0\<rparr>)
      | _ \<Rightarrow> Some value)"

definition new_value :: "bool \<Rightarrow> (nat \<Rightarrow> bool) \<Rightarrow> jtype \<Rightarrow> jstate \<Rightarrow> jstate option res" where
  "new_value first_pass grants type s =
     (case s of (c, h) \<Rightarrow>
        if \<not> first_pass
        then if length (nodes h) \<le> next_value h then Inl Null_Deref
             else (case allocate_parts grants (nodes h ! next_value h) of
                     None \<Rightarrow> Inr None
                   | Some value \<Rightarrow>
                       Inr (Some (c\<lparr>top_value := Some (next_value h)\<rparr>,
                                  h\<lparr>nodes := (nodes h)[next_value h := value], next_value := next_value h + 1\<rparr>)))
        else if \<not> grants SIZEOF_JSON_OBJECT then Inr None
        else Inr (Some (c\<lparr>top_value := Some (length (nodes h))\<rparr>,
                        h\<lparr>nodes := nodes h @ [new_node type (top_value c)], next_value := length (nodes h) + 1\<rparr>)))"

text \<open>A value is created, and the rest of the case is done with it and its number.\<close>

definition with_new ::
  "bool \<Rightarrow> (nat \<Rightarrow> bool) \<Rightarrow> jtype \<Rightarrow> jstate \<Rightarrow> (nat \<Rightarrow> jstate \<Rightarrow> flow) \<Rightarrow> flow" where
  "with_new first_pass grants type s k =
     (case new_value first_pass grants type s of
        Inl e \<Rightarrow> Fault e
      | Inr None \<Rightarrow> e_alloc_failure
      | Inr (Some (c, h)) \<Rightarrow> (case top_value c of None \<Rightarrow> Fault Null_Deref | Some t \<Rightarrow> k t (c, h)))"

section \<open>Strings\<close>

text \<open>\<open>string_add\<close>: the first pass counts \<open>n\<close> bytes, the second writes \<open>bs\<close> behind what it has.\<close>

definition string_add :: "bool \<Rightarrow> nat \<Rightarrow> string \<Rightarrow> jstate \<Rightarrow> flow" where
  "string_add first_pass n bs s =
     (case s of (c, h) \<Rightarrow>
        if first_pass then Continue (c\<lparr>string_length := string_length c + n\<rparr>, h)
        else if string_length c + length bs \<le> string_cap h
        then Continue (c\<lparr>string_length := string_length c + length bs\<rparr>, h\<lparr>string_buf := string_buf h @ bs\<rparr>)
        else Fault Buffer_Overflow)"

text \<open>
  The closing quote of the value or name in \<open>top\<close>; \<open>None\<close> when it is neither, and the character is
  looked at again.
\<close>

definition end_string :: "bool \<Rightarrow> jstate \<Rightarrow> flow option" where
  "end_string first_pass s =
     (case s of (c, h) \<Rightarrow>
        if \<not> first_pass \<and> string_cap h \<le> string_length c then Some (Fault Buffer_Overflow)
        else (case top_value c of
                None \<Rightarrow> Some (Fault Null_Deref)
              | Some t \<Rightarrow>
                  (case n_type (nodes h ! t) of
                     t_string \<Rightarrow>
                       Some (Value_Done (advance 1 (c\<lparr>flag_string := False\<rparr>),
                         set_node t (\<lambda>v. v\<lparr>u_length := string_length c, n_text := string_buf h\<rparr>) h))
                   | t_object \<Rightarrow>
                       Some (if first_pass
                             then Continue (advance 1 (c\<lparr>flag_string := False, flag_seek_value := True, flag_need_colon := True\<rparr>),
                                    set_node t (\<lambda>v. v\<lparr>u_names := u_names v + (string_length c + 1)\<rparr>) h)
                             else if cap_length (nodes h ! t) \<le> u_length (nodes h ! t) then Fault Buffer_Overflow
                             else Continue (advance 1 (c\<lparr>flag_string := False, flag_seek_value := True, flag_need_colon := True\<rparr>),
                                    set_node t (\<lambda>v. v\<lparr>u_names := u_names v + (string_length c + 1),
                                                      n_names := n_names v @ [string_buf h]\<rparr>) h))
                   | _ \<Rightarrow> None)))"

definition string_step :: "bool \<Rightarrow> string \<Rightarrow> char \<Rightarrow> jstate \<Rightarrow> flow option" where
  "string_step first_pass json b s =
     (case s of (c, h) \<Rightarrow>
        if b = CHR 0x00 then Some e_failed
        else if uint_max < string_length c then Some e_overflow
        else if flag_escaped c
        then let c1 = c\<lparr>flag_escaped := False\<rparr>
             in if b = CHR ''u''
                then Some (case unicode_escape json (ptr c) of
                             None \<Rightarrow> e_failed
                           | Some (uchar, p) \<Rightarrow>
                               string_add first_pass (utf8_length uchar) (utf8_bytes uchar) (c1\<lparr>ptr := p + 1\<rparr>, h))
                else Some (string_add first_pass 1 [escaped_char b] (advance 1 c1, h))
        else if b = CHR 0x5C then Some (Continue (advance 1 (c\<lparr>flag_escaped := True\<rparr>), h))
        else if b = CHR 0x22 then end_string first_pass (c, h)
        else Some (string_add first_pass 1 [b] (advance 1 c, h)))"

section \<open>Numbers\<close>

text \<open>The first pass reads a number character by character.\<close>

definition end_number :: "nat \<Rightarrow> jstate \<Rightarrow> flow" where
  "end_number t s =
     (case s of (c, h) \<Rightarrow>
        Value_Done (c, if flag_num_negative c \<and> n_type (nodes h ! t) = t_integer
                       then set_node t (\<lambda>v. v\<lparr>u_integer := - u_integer v\<rparr>) h else h))"

definition number_step :: "char \<Rightarrow> nat \<Rightarrow> jstate \<Rightarrow> flow" where
  "number_step b t s =
     (case s of (c, h) \<Rightarrow>
        let type = n_type (nodes h ! t)
        in if is_digit b
           then let c1 = c\<lparr>num_digits := num_digits c + 1\<rparr>
                in if type = t_integer \<or> flag_num_e c
                   then if \<not> flag_num_e c
                        then if flag_num_zero c then e_failed
                             else Continue (advance 1 (c1\<lparr>flag_num_zero := (num_digits c1 = 1 \<and> b = CHR ''0'')\<rparr>),
                                    set_node t (\<lambda>v. v\<lparr>u_integer := u_integer v * 10 + of_nat (digit_val b)\<rparr>) h)
                        else Continue (advance 1 (c1\<lparr>flag_num_e_got_sign := True\<rparr>), h)
                   else Continue (advance 1 c1, h)
           else if (b = CHR ''+'' \<or> b = CHR ''-'') \<and> flag_num_e c \<and> \<not> flag_num_e_got_sign c
           then Continue (advance 1 (c\<lparr>flag_num_e_got_sign := True\<rparr>), h)
           else if b = CHR ''.'' \<and> type = t_integer
           then if num_digits c = 0 then e_failed
                else Continue (advance 1 (c\<lparr>num_digits := 0\<rparr>), set_node t (\<lambda>v. v\<lparr>n_type := t_double\<rparr>) h)
           else if \<not> flag_num_e c
           then if type = t_double \<and> num_digits c = 0 then e_failed
                else if b = CHR ''e'' \<or> b = CHR ''E''
                then Continue (advance 1 (c\<lparr>flag_num_e := True, num_digits := 0, flag_num_zero := False\<rparr>),
                       set_node t (\<lambda>v. v\<lparr>n_type := t_double\<rparr>) h)
                else end_number t (c, h)
           else if num_digits c = 0 then e_failed
           else end_number t (c, h))"

text \<open>The start of a number; the second pass skips it.\<close>

definition number_start :: "bool \<Rightarrow> string \<Rightarrow> char \<Rightarrow> jstate \<Rightarrow> flow" where
  "number_start first_pass json b s =
     (case s of (c, h) \<Rightarrow>
        if \<not> first_pass
        then Value_Done (advance (length (takeWhile number_char (drop (ptr c) json))) c, h)
        else let c1 = c\<lparr>flag_num_negative := False, flag_num_e := False, flag_num_e_got_sign := False,
                       flag_num_zero := False, num_digits := 0\<rparr>
             in if b \<noteq> CHR ''-'' then Continue (c1, h)
                else Continue (advance 1 (c1\<lparr>flag_num_negative := True\<rparr>), h))"

section \<open>The loop\<close>

text \<open>A literal whose first character is at the position.\<close>

definition literal_at :: "string \<Rightarrow> nat \<Rightarrow> string \<Rightarrow> bool" where
  "literal_at json p lit \<longleftrightarrow> length lit \<le> length json - p \<and> take (length lit) (drop p json) = lit"

definition seek_step :: "bool \<Rightarrow> (nat \<Rightarrow> bool) \<Rightarrow> string \<Rightarrow> char \<Rightarrow> jstate \<Rightarrow> flow" where
  "seek_step first_pass grants json b s =
     (case s of (c, h) \<Rightarrow>
        let new = with_new first_pass grants; c0 = c\<lparr>flag_seek_value := False\<rparr>
        in if is_blank b then Continue (advance 1 c, h)
           else if b = CHR '']''
           then (case top_value c of
                   None \<Rightarrow> e_failed
                 | Some t \<Rightarrow>
                     if n_type (nodes h ! t) = t_array
                     then Value_Done (advance 1 (c\<lparr>flag_need_comma := False, flag_seek_value := False\<rparr>), h)
                     else e_failed)
           else if flag_need_comma c
           then if b = CHR '','' then Continue (advance 1 (c\<lparr>flag_need_comma := False\<rparr>), h) else e_failed
           else if flag_need_colon c
           then if b = CHR '':'' then Continue (advance 1 (c\<lparr>flag_need_colon := False\<rparr>), h) else e_failed
           else if b = CHR ''{'' then new t_object (c0, h) (\<lambda>t (c1, h1). Continue (advance 1 c1, h1))
           else if b = CHR ''['' then new t_array (c0, h) (\<lambda>t (c1, h1). Continue (advance 1 (c1\<lparr>flag_seek_value := True\<rparr>), h1))
           else if b = CHR 0x22
           then new t_string (c0, h) (\<lambda>t (c1, h1).
                  Continue (advance 1 (c1\<lparr>flag_string := True, string_length := 0\<rparr>),
                            h1\<lparr>string_buf := [], string_cap := cap_length (nodes h1 ! t)\<rparr>))
           else if b = CHR ''t''
           then if \<not> literal_at json (ptr c) ''true'' then e_unknown_value
                else new t_boolean (c0, h) (\<lambda>t (c1, h1). Value_Done (advance 4 c1, set_node t (\<lambda>v. v\<lparr>u_boolean := 1\<rparr>) h1))
           else if b = CHR ''f''
           then if \<not> literal_at json (ptr c) ''false'' then e_unknown_value
                else new t_boolean (c0, h) (\<lambda>t (c1, h1). Value_Done (advance 5 c1, h1))
           else if b = CHR ''n''
           then if \<not> literal_at json (ptr c) ''null'' then e_unknown_value
                else new t_null (c0, h) (\<lambda>t (c1, h1). Value_Done (advance 4 c1, h1))
           else if is_digit b \<or> b = CHR ''-''
           then new t_integer (c0, h) (\<lambda>t. number_start first_pass json b)
           else e_failed)"

definition object_step :: "char \<Rightarrow> nat \<Rightarrow> jstate \<Rightarrow> flow" where
  "object_step b t s =
     (case s of (c, h) \<Rightarrow>
        if is_blank b then Continue (advance 1 c, h)
        else if b = CHR 0x22
        then if flag_need_comma c then e_failed
             else Continue (advance 1 (c\<lparr>flag_string := True, string_length := 0\<rparr>),
                    h\<lparr>string_buf := [], string_cap := cap_names (nodes h ! t) - u_names (nodes h ! t)\<rparr>)
        else if b = CHR ''}'' then Value_Done (advance 1 (c\<lparr>flag_need_comma := False\<rparr>), h)
        else if b = CHR '','' \<and> flag_need_comma c then Continue (advance 1 (c\<lparr>flag_need_comma := False\<rparr>), h)
        else e_failed)"

definition value_step :: "bool \<Rightarrow> (nat \<Rightarrow> bool) \<Rightarrow> string \<Rightarrow> char \<Rightarrow> jstate \<Rightarrow> flow" where
  "value_step first_pass grants json b s =
     (case s of (c, h) \<Rightarrow>
        if flag_done c
        then if b = CHR 0x00 then Pass_End (c, h) else if is_blank b then Continue (advance 1 c, h) else e_failed
        else if flag_seek_value c then seek_step first_pass grants json b (c, h)
        else (case top_value c of
                None \<Rightarrow> Fault Null_Deref
              | Some t \<Rightarrow>
                  (case n_type (nodes h ! t) of
                     t_object \<Rightarrow> object_step b t (c, h)
                   | t_integer \<Rightarrow> number_step b t (c, h)
                   | t_double \<Rightarrow> number_step b t (c, h)
                   | _ \<Rightarrow> Continue (advance 1 c, h))))"

text \<open>\<open>flag_next\<close>: the value is linked to its parent, which becomes the one under construction.\<close>

definition value_done :: "bool \<Rightarrow> jstate \<Rightarrow> flow" where
  "value_done first_pass s =
     (case s of (c, h) \<Rightarrow>
        (case top_value c of
           None \<Rightarrow> Fault Null_Deref
         | Some t \<Rightarrow>
             let c1 = c\<lparr>flag_need_comma := True\<rparr>
             in (case n_parent (nodes h ! t) of
                   None \<Rightarrow> Continue (c1\<lparr>flag_done := True\<rparr>, h)
                 | Some p \<Rightarrow>
                     let parent = nodes h ! p;
                         c2 = (if n_type parent = t_array then c1\<lparr>flag_seek_value := True\<rparr> else c1)
                     in if \<not> first_pass \<and> cap_length parent \<le> u_length parent then Fault Buffer_Overflow
                        else if uint_max < u_length parent + 1 then e_overflow
                        else Continue (c2\<lparr>top_value := Some p\<rparr>,
                               set_node p (\<lambda>v. v\<lparr>u_length := u_length v + 1,
                                                 n_items := (if first_pass then n_items v else n_items v @ [t])\<rparr>) h))))"

definition json_step :: "bool \<Rightarrow> (nat \<Rightarrow> bool) \<Rightarrow> string \<Rightarrow> jstate \<Rightarrow> flow" where
  "json_step first_pass grants json s =
     (let p = ptr (fst s)
      in if length json < p then Fault Out_Of_Bounds
         else let b = (if p = length json then CHR 0x00 else json ! p);
                  general = value_step first_pass grants json b;
                  r = (if flag_string (fst s)
                       then (case string_step first_pass json b s of
                               Some r \<Rightarrow> r
                             | None \<Rightarrow> general ((fst s)\<lparr>flag_string := False\<rparr>, snd s))
                       else general s)
              in (case r of Value_Done s' \<Rightarrow> value_done first_pass s' | _ \<Rightarrow> r))"

text \<open>The loop with fuel; \<open>None\<close> when it runs out.\<close>

fun json_pass :: "nat \<Rightarrow> bool \<Rightarrow> (nat \<Rightarrow> bool) \<Rightarrow> string \<Rightarrow> jstate \<Rightarrow> flow option" where
  "json_pass 0 first_pass grants json s = None"
| "json_pass (Suc fuel) first_pass grants json s =
     (case json_step first_pass grants json s of
        Continue s' \<Rightarrow> json_pass fuel first_pass grants json s'
      | r \<Rightarrow> Some r)"

definition start_state :: "jnode list \<Rightarrow> jstate" where
  "start_state ns =
     (\<lparr>ptr = 0, flag_need_comma = False, flag_seek_value = True, flag_escaped = False, flag_string = False,
       flag_need_colon = False, flag_done = False, flag_num_negative = False, flag_num_zero = False,
       flag_num_e = False, flag_num_e_got_sign = False, num_digits = 0, string_length = 0, top_value = None\<rparr>,
      \<lparr>nodes = ns, next_value = 0, string_buf = [], string_cap = 0\<rparr>)"

text \<open>The value a node stands for; \<open>ns\<close> are the nodes and \<open>n\<close> bounds the depth.\<close>

fun node_value :: "nat \<Rightarrow> jnode list \<Rightarrow> nat \<Rightarrow> json_value" where
  "node_value 0 ns i = JNull"
| "node_value (Suc n) ns i =
     (let v = ns ! i
      in case n_type v of
           t_null \<Rightarrow> JNull
         | t_object \<Rightarrow> JObject (zip (n_names v) (map (node_value n ns) (n_items v)))
         | t_array \<Rightarrow> JArray (map (node_value n ns) (n_items v))
         | t_integer \<Rightarrow> JInteger (sint (u_integer v))
         | t_double \<Rightarrow> JDouble
         | t_string \<Rightarrow> JString (n_text v)
         | t_boolean \<Rightarrow> JBoolean (u_boolean v))"

definition skip_bom :: "string \<Rightarrow> string" where
  "skip_bom json = (if take 3 json = [CHR 0xEF, CHR 0xBB, CHR 0xBF] then drop 3 json else json)"

definition loop_fuel :: "string \<Rightarrow> nat" where
  "loop_fuel json = 3 * length json + 4"

section \<open>Releasing values\<close>

text \<open>
  A value owns its own block and that of its items, entries or bytes, if it has any. The ledger holds what was given
  back, in order. An object without entries has a null pointer for them only when no names were counted: the first pass
  counts their bytes in the pointer itself.
\<close>

datatype block = Value nat | Parts nat

definition mem_free :: "block \<Rightarrow> block list \<Rightarrow> block list res" where
  "mem_free b freed = (if b \<in> set freed then Inl Use_After_Free else Inr (freed @ [b]))"

definition free_parts :: "nat \<Rightarrow> jnode \<Rightarrow> block list \<Rightarrow> block list res" where
  "free_parts i v freed =
     (if 0 < cap_length v then mem_free (Parts i) freed
      else if n_type v = t_object \<and> u_names v \<noteq> 0 then Inl Bad_Free
      else Inr freed)"

text \<open>An iteration at value \<open>i\<close>: down to its last item, which it forgets, or, when it has none left, up to its parent.\<close>

definition free_step :: "nat \<Rightarrow> jnode list \<times> block list \<Rightarrow> (nat option \<times> jnode list \<times> block list) res" where
  "free_step i m =
     (case m of (ns, freed) \<Rightarrow>
        if length ns \<le> i \<or> Value i \<in> set freed then Inl Use_After_Free
        else let v = ns ! i;
                 up = (\<lambda>freed1. bindr (mem_free (Value i) freed1) (\<lambda>freed2. Inr (n_parent v, ns, freed2)))
             in (if n_type v \<in> {t_array, t_object}
                 then if u_length v = 0 then bindr (free_parts i v freed) up
                      else if cap_length v = 0 then Inl Null_Deref
                      else if Parts i \<in> set freed then Inl Use_After_Free
                      else if length (n_items v) < u_length v then Inl Out_Of_Bounds
                      else Inr (Some (n_items v ! (u_length v - 1)), ns[i := v\<lparr>u_length := u_length v - 1\<rparr>], freed)
                 else if n_type v = t_string then bindr (free_parts i v freed) up
                 else up freed))"

fun free_loop :: "nat \<Rightarrow> nat option \<Rightarrow> jnode list \<times> block list \<Rightarrow> block list res option" where
  "free_loop fuel None m = Some (Inr (snd m))"
| "free_loop 0 (Some i) m = None"
| "free_loop (Suc fuel) (Some i) m =
     (case free_step i m of Inl e \<Rightarrow> Some (Inl e) | Inr (value, m') \<Rightarrow> free_loop fuel value m')"

definition json_object_free_ex :: "jnode list \<Rightarrow> nat option \<Rightarrow> block list \<Rightarrow> block list res option" where
  "json_object_free_ex ns value freed =
     (case value of
        None \<Rightarrow> Some (Inr freed)
      | Some i \<Rightarrow> free_loop (2 * length ns) (Some i) (ns[i := (ns ! i)\<lparr>n_parent := None\<rparr>], freed))"

definition json_object_free :: "jnode list \<Rightarrow> nat option \<Rightarrow> block list res option" where
  "json_object_free ns value = json_object_free_ex ns value []"

section \<open>Both passes\<close>

text \<open>The state in which the last iteration of a pass began.\<close>

fun stop_state :: "nat \<Rightarrow> bool \<Rightarrow> (nat \<Rightarrow> bool) \<Rightarrow> string \<Rightarrow> jstate \<Rightarrow> jstate" where
  "stop_state 0 first_pass grants json s = s"
| "stop_state (Suc fuel) first_pass grants json s =
     (case json_step first_pass grants json s of
        Continue s' \<Rightarrow> stop_state fuel first_pass grants json s'
      | r \<Rightarrow> s)"

text \<open>
  A failure of the second pass frees the values it has not come to, one by one, and then the tree of the root. A value whose
  parts could not be allocated has been taken from the chain; its pointer to them is null, its length still that
  of the first pass.
\<close>

definition second_pass_failed :: "flow \<Rightarrow> jstate \<Rightarrow> block list res option" where
  "second_pass_failed r s =
     (case s of (c, h) \<Rightarrow>
        let taken = (if r = e_alloc_failure then next_value h + 1 else next_value h)
        in json_object_free_ex (nodes h) (if taken = 0 then None else Some 0) (map Value [taken..<length (nodes h)]))"

text \<open>A failure of the first pass frees the values it has made along their chain. The result is a null pointer.\<close>

definition json_parse_ex :: "(nat \<Rightarrow> bool) \<Rightarrow> string \<Rightarrow> json_value option res option" where
  "json_parse_ex grants json0 =
     (let json = skip_bom json0; fuel = loop_fuel json
      in case json_pass fuel True grants json (start_state []) of
           None \<Rightarrow> None
         | Some (Pass_End (c1, h1)) \<Rightarrow>
             (case json_pass fuel False grants json (start_state (nodes h1)) of
                None \<Rightarrow> None
              | Some (Pass_End (c2, h2)) \<Rightarrow> Some (Inr (Some (node_value (length (nodes h2)) (nodes h2) 0)))
              | Some (Fault e) \<Rightarrow> Some (Inl e)
              | Some r \<Rightarrow>
                  map_option (\<lambda>freed. bindr freed (\<lambda>_. Inr None))
                    (second_pass_failed r (stop_state fuel False grants json (start_state (nodes h1)))))
         | Some (Fault e) \<Rightarrow> Some (Inl e)
         | Some _ \<Rightarrow> Some (Inr None))"

definition json_parse :: "(nat \<Rightarrow> bool) \<Rightarrow> string \<Rightarrow> json_value option res option" where
  "json_parse grants json = json_parse_ex grants json"

end
