(* ===== verification/Json_Passes.thy ===== *)
theory Json_Passes
  imports Json_Parser
begin

text \<open>
  The two passes of the JSON parser. The first pass keeps the values under construction a chain from
  the root; what it has promised by a position (the length of every value, counting children and bytes
  still to come) only grows, so the second pass, whose writes follow the first one's counts, stays
  inside what was allocated from the final counts.
\<close>

section \<open>Nodes\<close>

lemma set_node_simps [simp]:
  "nodes (set_node i f h) = (nodes h)[i := f (nodes h ! i)]"
  "next_value (set_node i f h) = next_value h" "string_buf (set_node i f h) = string_buf h"
  "string_cap (set_node i f h) = string_cap h"
  by (simp_all add: set_node_def)

lemma advance_simps [simp]:
  "ptr (advance n c) = ptr c + n" "flag_need_comma (advance n c) = flag_need_comma c"
  "flag_seek_value (advance n c) = flag_seek_value c" "flag_escaped (advance n c) = flag_escaped c"
  "flag_string (advance n c) = flag_string c" "flag_need_colon (advance n c) = flag_need_colon c"
  "flag_done (advance n c) = flag_done c" "flag_num_negative (advance n c) = flag_num_negative c"
  "flag_num_zero (advance n c) = flag_num_zero c" "flag_num_e (advance n c) = flag_num_e c"
  "flag_num_e_got_sign (advance n c) = flag_num_e_got_sign c" "num_digits (advance n c) = num_digits c"
  "string_length (advance n c) = string_length c" "top_value (advance n c) = top_value c"
  by (simp_all add: advance_def)

lemma new_node_simps [simp]:
  "n_type (new_node ty par) = ty" "n_parent (new_node ty par) = par" "u_length (new_node ty par) = 0"
  "u_names (new_node ty par) = 0"
  by (simp_all add: new_node_def)

text \<open>The type of a value is settled when it is created, but an integer may turn out a double.\<close>

definition type_le :: "jtype \<Rightarrow> jtype \<Rightarrow> bool" where
  "type_le a b \<longleftrightarrow> b = a \<or> (a = t_integer \<and> b = t_double)"

lemma type_le_refl [simp]: "type_le a a"
  by (simp add: type_le_def)

lemma type_le_trans: "type_le a b \<Longrightarrow> type_le b c \<Longrightarrow> type_le a c"
  by (auto simp: type_le_def)

definition keeps :: "jnode list \<Rightarrow> jnode list \<Rightarrow> bool" where
  "keeps ns ns' \<longleftrightarrow> length ns \<le> length ns' \<and> (\<forall>i < length ns. n_parent (ns' ! i) = n_parent (ns ! i)
     \<and> type_le (n_type (ns ! i)) (n_type (ns' ! i)))"

lemma keeps_refl [simp]: "keeps ns ns"
  by (simp add: keeps_def)

lemma keeps_Nil [simp]: "keeps [] ns"
  by (simp add: keeps_def)

lemma keeps_trans: "keeps a b \<Longrightarrow> keeps b c \<Longrightarrow> keeps a c"
proof -
  assume ab: "keeps a b" and bc: "keeps b c"
  have "n_parent (c ! i) = n_parent (a ! i) \<and> type_le (n_type (a ! i)) (n_type (c ! i))" if "i < length a" for i
  proof -
    from ab that have "i < length b" by (simp add: keeps_def)
    with ab bc that type_le_trans [of "n_type (a ! i)" "n_type (b ! i)" "n_type (c ! i)"] show ?thesis
      by (simp add: keeps_def)
  qed
  with ab bc show ?thesis by (simp add: keeps_def)
qed

lemma keeps_append [simp]: "keeps ns (ns @ xs)"
  by (simp add: keeps_def nth_append)

lemma nth_update_if: "xs[i := y] ! j = (if i = j \<and> j < length xs then y else xs ! j)"
  by (cases "i = j") (simp_all add: list_update_beyond not_less)

lemma keeps_update:
  "(\<And>v. n_parent (f v) = n_parent v) \<Longrightarrow> (i < length ns \<Longrightarrow> type_le (n_type (ns ! i)) (n_type (f (ns ! i)))) \<Longrightarrow>
   keeps ns (ns[i := f (ns ! i)])"
  unfolding keeps_def by (auto simp: nth_update_if)

text \<open>The values above \<open>t\<close>, from its parent to the root.\<close>

fun chain :: "jnode list \<Rightarrow> nat \<Rightarrow> nat list \<Rightarrow> bool" where
  "chain ns t [] \<longleftrightarrow> t < length ns \<and> n_parent (ns ! t) = None"
| "chain ns t (p # ps) \<longleftrightarrow> t < length ns \<and> n_parent (ns ! t) = Some p \<and> p < t
     \<and> n_type (ns ! p) \<in> {t_object, t_array} \<and> chain ns p ps"

lemma chain_less: "chain ns t ps \<Longrightarrow> t < length ns \<and> (\<forall>p \<in> set ps. p < t)"
  by (induction ps arbitrary: t) (force intro: less_trans)+

lemma chain_keeps: "chain ns t ps \<Longrightarrow> keeps ns ns' \<Longrightarrow> chain ns' t ps"
proof (induction ps arbitrary: t)
  case (Cons p ps)
  then have p: "chain ns' p ps" "p < length ns" "t < length ns" using chain_less [of ns p ps] by auto
  then have "n_parent (ns' ! t) = n_parent (ns ! t)" "type_le (n_type (ns ! p)) (n_type (ns' ! p))" "length ns \<le> length ns'"
    using Cons.prems(2) by (simp_all add: keeps_def)
  with Cons.prems(1) p show ?case by (auto simp: type_le_def)
qed (auto simp: keeps_def)

section \<open>What the first pass keeps\<close>

definition mode_ok :: "cursor \<Rightarrow> jtype \<Rightarrow> nat list \<Rightarrow> bool" where
  "mode_ok c ty ps \<longleftrightarrow>
     (flag_done c \<longrightarrow> ps = [] \<and> \<not> flag_seek_value c \<and> \<not> flag_string c)
   \<and> (flag_string c \<longrightarrow> ty \<in> {t_string, t_object} \<and> \<not> flag_seek_value c)
   \<and> (flag_seek_value c \<longrightarrow> ty \<in> {t_array, t_object})
   \<and> (\<not> flag_seek_value c \<longrightarrow> \<not> flag_string c \<longrightarrow> \<not> flag_done c \<longrightarrow> ty \<in> {t_object, t_integer, t_double})"

definition pass_ok :: "string \<Rightarrow> jstate \<Rightarrow> nat list \<Rightarrow> bool" where
  "pass_ok json s ps \<longleftrightarrow> (case s of (c, h) \<Rightarrow>
     ptr c \<le> length json \<and> next_value h = length (nodes h)
     \<and> (case top_value c of
          None \<Rightarrow> nodes h = [] \<and> ps = [] \<and> flag_seek_value c \<and> \<not> flag_string c \<and> \<not> flag_done c
        | Some t \<Rightarrow> chain (nodes h) t ps \<and> mode_ok c (n_type (nodes h ! t)) ps))"

text \<open>A completed value, before it is linked to its parent.\<close>

definition value_ready :: "string \<Rightarrow> jstate \<Rightarrow> nat list \<Rightarrow> bool" where
  "value_ready json s ps \<longleftrightarrow> (case s of (c, h) \<Rightarrow>
     ptr c \<le> length json \<and> next_value h = length (nodes h) \<and> \<not> flag_seek_value c \<and> \<not> flag_string c
     \<and> \<not> flag_done c \<and> (\<exists>t. top_value c = Some t \<and> chain (nodes h) t ps))"

text \<open>The lengths a state promises: a value under construction owes its parent one element.\<close>

definition owes :: "cursor \<Rightarrow> jnode list \<Rightarrow> nat list \<Rightarrow> nat \<Rightarrow> nat" where
  "owes c ns ps i =
     (if i \<in> set ps \<or> (top_value c = Some i \<and> n_type (ns ! i) = t_object \<and> (flag_string c \<or> flag_seek_value c))
      then 1 else 0)"

definition promised :: "nat list \<Rightarrow> jstate \<Rightarrow> nat \<Rightarrow> nat" where
  "promised ps s i = (case s of (c, h) \<Rightarrow>
     if top_value c = Some i \<and> flag_string c \<and> n_type (nodes h ! i) = t_string then string_length c
     else u_length (nodes h ! i) + owes c (nodes h) ps i)"

definition promised_names :: "jstate \<Rightarrow> nat \<Rightarrow> nat" where
  "promised_names s i = (case s of (c, h) \<Rightarrow>
     u_names (nodes h ! i)
     + (if top_value c = Some i \<and> flag_string c \<and> n_type (nodes h ! i) = t_object then string_length c + 1 else 0))"

definition grows :: "nat list \<Rightarrow> jstate \<Rightarrow> nat list \<Rightarrow> jstate \<Rightarrow> bool" where
  "grows ps s ps' s' \<longleftrightarrow> keeps (nodes (snd s)) (nodes (snd s'))
     \<and> (\<forall>i < length (nodes (snd s)). promised ps s i \<le> promised ps' s' i \<and> promised_names s i \<le> promised_names s' i)"

lemma grows_trans: "grows ps s ps1 s1 \<Longrightarrow> grows ps1 s1 ps2 s2 \<Longrightarrow> grows ps s ps2 s2"
proof -
  assume a: "grows ps s ps1 s1" and b: "grows ps1 s1 ps2 s2"
  have "promised ps s i \<le> promised ps2 s2 i \<and> promised_names s i \<le> promised_names s2 i"
    if "i < length (nodes (snd s))" for i
  proof -
    from a that have "i < length (nodes (snd s1))" by (simp add: grows_def keeps_def)
    with a b that show ?thesis by (meson grows_def order.trans)
  qed
  moreover have "keeps (nodes (snd s)) (nodes (snd s2))" using a b keeps_trans by (auto simp: grows_def)
  ultimately show ?thesis by (simp add: grows_def)
qed

lemma promised_simps:
  "promised ps (c, h) i =
     (if top_value c = Some i \<and> flag_string c \<and> n_type (nodes h ! i) = t_string then string_length c
      else u_length (nodes h ! i) + owes c (nodes h) ps i)"
  "promised_names (c, h) i = u_names (nodes h ! i)
     + (if top_value c = Some i \<and> flag_string c \<and> n_type (nodes h ! i) = t_object then string_length c + 1 else 0)"
  by (simp_all add: promised_def promised_names_def)

text \<open>A number may start without consuming a character, and end without doing so.\<close>

definition rank :: "jstate \<Rightarrow> nat" where
  "rank s = (case s of (c, h) \<Rightarrow>
     if flag_done c \<or> flag_string c then 0
     else if flag_seek_value c then (if flag_need_comma c then 0 else 2)
     else (case top_value c of
             None \<Rightarrow> 0
           | Some t \<Rightarrow> if n_type (nodes h ! t) \<in> {t_integer, t_double} then 1 else 0))"

definition work_left :: "string \<Rightarrow> jstate \<Rightarrow> nat" where
  "work_left json s = 3 * (length json - ptr (fst s)) + rank s"

lemma rank_le: "rank s \<le> 2"
  by (auto simp: rank_def split: prod.split option.split)

text \<open>What a step of the first pass may come to.\<close>

definition step_ok :: "string \<Rightarrow> jstate \<Rightarrow> nat list \<Rightarrow> flow \<Rightarrow> bool" where
  "step_ok json s ps r \<longleftrightarrow> (case r of
     Continue s' \<Rightarrow> \<exists>ps'. pass_ok json s' ps' \<and> grows ps s ps' s' \<and> work_left json s' < work_left json s
   | Pass_End s' \<Rightarrow> s' = s \<and> flag_done (fst s)
   | Value_Done s' \<Rightarrow> \<exists>ps'. value_ready json s' ps' \<and> grows ps s ps' s'
       \<and> 3 * (length json - ptr (fst s')) < work_left json s
   | Fault e \<Rightarrow> False
   | _ \<Rightarrow> True)"

lemma value_done_ok:
  assumes "value_ready json s ps"
  shows "case value_done True s of
      Continue s' \<Rightarrow> \<exists>ps'. pass_ok json s' ps' \<and> grows ps s ps' s' \<and> rank s' = 0 \<and> ptr (fst s') = ptr (fst s)
    | e_overflow \<Rightarrow> True | _ \<Rightarrow> False"
proof -
  obtain c h where s: "s = (c, h)" by (cases s)
  with assms obtain t where t: "top_value c = Some t" "chain (nodes h) t ps" and
    c: "ptr c \<le> length json" "next_value h = length (nodes h)" "\<not> flag_seek_value c" "\<not> flag_string c" "\<not> flag_done c"
    by (auto simp: value_ready_def)
  show ?thesis
  proof (cases ps)
    case Nil
    with t have "n_parent (nodes h ! t) = None" by simp
    with t c Nil show ?thesis
      by (auto simp: s value_done_def pass_ok_def mode_ok_def grows_def promised_simps owes_def rank_def intro!: exI [of _ "[]"])
  next
    case (Cons p ps')
    with t(2) have p: "n_parent (nodes h ! t) = Some p" "p < t" "t < length (nodes h)"
      "n_type (nodes h ! p) \<in> {t_object, t_array}" "chain (nodes h) p ps'" by simp_all
    from chain_less [OF p(5)] have less: "p < length (nodes h)" "p \<notin> set ps'" "\<forall>q \<in> set ps'. q < p" by auto
    let ?h = "set_node p (\<lambda>v. v\<lparr>u_length := u_length v + 1, n_items := n_items v\<rparr>) h"
    let ?c = "(if n_type (nodes h ! p) = t_array then c\<lparr>flag_need_comma := True, flag_seek_value := True\<rparr>
      else c\<lparr>flag_need_comma := True\<rparr>)\<lparr>top_value := Some p\<rparr>"
    have k: "keeps (nodes h) (nodes ?h)" by (simp, rule keeps_update) simp_all
    have ok: "pass_ok json (?c, ?h) ps'"
      using c p less chain_keeps [OF p(5) k] by (auto simp: pass_ok_def mode_ok_def)
    have "promised ps (c, h) i \<le> promised ps' (?c, ?h) i \<and> promised_names (c, h) i \<le> promised_names (?c, ?h) i"
      if "i < length (nodes h)" for i
      using that c t(1) p less Cons by (auto simp: promised_simps owes_def nth_list_update)
    with k have "grows ps (c, h) ps' (?c, ?h)" by (simp add: grows_def)
    moreover have "rank (?c, ?h) = 0" using c p less by (auto simp: rank_def)
    moreover have "value_done True s = e_overflow \<or> value_done True s = Continue (?c, ?h)"
      using t p by (simp add: s value_done_def Let_def)
    ultimately show ?thesis using ok by (elim disjE) (simp_all only: flow.case s fst_conv, auto)
  qed
qed

text \<open>A step that only moves the cursor: no promise is taken back.\<close>

lemma grows_same:
  assumes "nodes h' = nodes h"
    and "\<And>i. i < length (nodes h) \<Longrightarrow> promised ps (c, h) i \<le> promised ps (c', h') i
      \<and> promised_names (c, h) i \<le> promised_names (c', h') i"
  shows "grows ps (c, h) ps (c', h')"
  using assms by (simp add: grows_def)

lemma work_advance:
  "ptr (fst s) < ptr (fst s') \<Longrightarrow> ptr (fst s') \<le> length json \<Longrightarrow> work_left json s' < work_left json s"
  using rank_le [of s'] by (auto simp: work_left_def)

lemma work_done: "ptr (fst s) < ptr (fst s') \<Longrightarrow> ptr (fst s') \<le> length json \<Longrightarrow>
    3 * (length json - ptr (fst s')) < work_left json s"
  by (auto simp: work_left_def)

lemma unicode_escape_bound: "unicode_escape json p = Some (u, q) \<Longrightarrow> p < q \<and> q < length json"
  by (auto simp: unicode_escape_def split: option.splits if_splits)

lemma string_add_ok:
  assumes ok: "pass_ok json (c, h) ps" and str: "flag_string c"
    and c': "top_value c' = top_value c" "flag_string c'" "flag_seek_value c' = flag_seek_value c"
      "flag_done c' = flag_done c" "string_length c' = string_length c" "ptr c < ptr c'" "ptr c' \<le> length json"
  shows "step_ok json (c, h) ps (string_add True n bs (c', h))"
proof -
  let ?c = "c'\<lparr>string_length := string_length c' + n\<rparr>"
  have "pass_ok json (?c, h) ps"
    using ok str c' by (auto simp: pass_ok_def mode_ok_def split: option.splits)
  moreover have "grows ps (c, h) ps (?c, h)"
    by (rule grows_same) (use c' str in \<open>auto simp: promised_simps owes_def\<close>)
  moreover have "work_left json (?c, h) < work_left json (c, h)"
    by (rule work_advance) (use c' in simp_all)
  ultimately show ?thesis by (auto simp: step_ok_def string_add_def)
qed

lemma end_string_ok:
  assumes ok: "pass_ok json (c, h) ps" and str: "flag_string c" and p: "ptr c < length json"
  shows "\<exists>r. end_string True (c, h) = Some r \<and> step_ok json (c, h) ps r"
proof -
  obtain t where t: "top_value c = Some t" "chain (nodes h) t ps" "n_type (nodes h ! t) \<in> {t_string, t_object}"
      "\<not> flag_seek_value c" "\<not> flag_done c" and n: "next_value h = length (nodes h)"
    using ok str by (auto simp: pass_ok_def mode_ok_def split: option.splits)
  from chain_less [OF t(2)] have tn: "t < length (nodes h)" "t \<notin> set ps" by auto
  show ?thesis
  proof (cases "n_type (nodes h ! t) = t_string")
    case True
    let ?c = "advance 1 (c\<lparr>flag_string := False\<rparr>)"
    let ?h = "set_node t (\<lambda>v. v\<lparr>u_length := string_length c, n_text := string_buf h\<rparr>) h"
    have k: "keeps (nodes h) (nodes ?h)" by (simp, rule keeps_update) simp_all
    have "value_ready json (?c, ?h) ps"
      using t n p chain_keeps [OF t(2) k] by (auto simp: value_ready_def)
    moreover have "grows ps (c, h) ps (?c, ?h)"
      using k tn t True str by (auto simp: grows_def promised_simps owes_def nth_update_if)
    moreover have "end_string True (c, h) = Some (Value_Done (?c, ?h))"
      using t(1) True by (simp add: end_string_def)
    ultimately show ?thesis using work_done [of "(c, h)" "(?c, ?h)" json] p
      by (auto simp: step_ok_def)
  next
    case False
    with t(3) have obj: "n_type (nodes h ! t) = t_object" by simp
    let ?c = "advance 1 (c\<lparr>flag_string := False, flag_seek_value := True, flag_need_colon := True\<rparr>)"
    let ?h = "set_node t (\<lambda>v. v\<lparr>u_names := u_names v + (string_length c + 1)\<rparr>) h"
    have k: "keeps (nodes h) (nodes ?h)" by (simp, rule keeps_update) simp_all
    have "pass_ok json (?c, ?h) ps"
      using t n p tn obj chain_keeps [OF t(2) k] by (auto simp: pass_ok_def mode_ok_def)
    moreover have "grows ps (c, h) ps (?c, ?h)"
      using k tn t obj str by (auto simp: grows_def promised_simps owes_def nth_update_if)
    moreover have "end_string True (c, h) = Some (Continue (?c, ?h))"
      using t(1) obj by (simp add: end_string_def)
    ultimately show ?thesis using work_advance [of "(c, h)" "(?c, ?h)" json] p
      by (auto simp: step_ok_def)
  qed
qed

text \<open>The character an iteration looks at.\<close>

definition char_at :: "string \<Rightarrow> nat \<Rightarrow> char" where
  "char_at json p = (if p = length json then CHR 0x00 else json ! p)"

lemma char_at_less: "p \<le> length json \<Longrightarrow> char_at json p \<noteq> CHR 0x00 \<Longrightarrow> p < length json"
  by (cases "p = length json") (auto simp: char_at_def)

lemma string_step_ok:
  assumes ok: "pass_ok json (c, h) ps" and str: "flag_string c" and b: "b = char_at json (ptr c)"
  shows "\<exists>r. string_step True json b (c, h) = Some r \<and> step_ok json (c, h) ps r"
proof (cases "b = CHR 0x00 \<or> uint_max < string_length c")
  case True
  then show ?thesis by (auto simp: string_step_def step_ok_def)
next
  case False
  have le: "ptr c \<le> length json" using ok by (simp add: pass_ok_def)
  with False b char_at_less have p: "ptr c < length json" by blast
  consider (unicode) "flag_escaped c" "b = CHR ''u''" | (escape) "flag_escaped c" "b \<noteq> CHR ''u''"
    | (backslash) "\<not> flag_escaped c" "b = CHR 0x5C" | (close) "\<not> flag_escaped c" "b = CHR 0x22"
    | (plain) "\<not> flag_escaped c" "b \<noteq> CHR 0x5C" "b \<noteq> CHR 0x22" by blast
  then show ?thesis
  proof cases
    case unicode
    show ?thesis
    proof (cases "unicode_escape json (ptr c)")
      case None
      with unicode False show ?thesis by (simp add: string_step_def step_ok_def Let_def)
    next
      case (Some uq)
      obtain u q where uq: "uq = (u, q)" by (cases uq)
      with Some unicode_escape_bound have q: "ptr c < q" "q < length json" by blast+
      have "step_ok json (c, h) ps (string_add True (utf8_length u) (utf8_bytes u) (c\<lparr>flag_escaped := False, ptr := q + 1\<rparr>, h))"
        by (rule string_add_ok [OF ok str]) (use q str in simp_all)
      with unicode False Some uq show ?thesis by (simp add: string_step_def Let_def)
    qed
  next
    case escape
    have "step_ok json (c, h) ps (string_add True 1 [escaped_char b] (advance 1 (c\<lparr>flag_escaped := False\<rparr>), h))"
      by (rule string_add_ok [OF ok str]) (use p str in simp_all)
    with escape False show ?thesis by (simp add: string_step_def Let_def)
  next
    case backslash
    let ?c = "advance 1 (c\<lparr>flag_escaped := True\<rparr>)"
    have "pass_ok json (?c, h) ps" using ok p by (auto simp: pass_ok_def mode_ok_def split: option.splits)
    moreover have "grows ps (c, h) ps (?c, h)"
      by (rule grows_same) (auto simp: promised_simps owes_def)
    ultimately show ?thesis using backslash False work_advance [of "(c, h)" "(?c, h)" json] p
      by (auto simp: string_step_def step_ok_def)
  next
    case close
    with end_string_ok [OF ok str p] False show ?thesis by (simp add: string_step_def)
  next
    case plain
    have "step_ok json (c, h) ps (string_add True 1 [b] (advance 1 c, h))"
      by (rule string_add_ok [OF ok str]) (use p str in simp_all)
    with plain False show ?thesis by (simp add: string_step_def)
  qed
qed

text \<open>Inside a number, only the number itself and the flags of numbers change.\<close>

lemma number_continue_ok:
  assumes ok: "pass_ok json (c, h) ps" and t: "top_value c = Some t" "n_type (nodes h ! t) \<in> {t_integer, t_double}"
    and m: "\<not> flag_seek_value c" "\<not> flag_string c" "\<not> flag_done c" and p: "ptr c < length json"
    and c': "top_value c' = Some t" "\<not> flag_string c'" "\<not> flag_seek_value c'" "\<not> flag_done c'" "ptr c' = ptr c + 1"
    and f: "\<And>v. n_parent (f v) = n_parent v \<and> u_length (f v) = u_length v \<and> u_names (f v) = u_names v"
      "type_le (n_type (nodes h ! t)) (n_type (f (nodes h ! t)))"
  shows "step_ok json (c, h) ps (Continue (c', set_node t f h))"
proof -
  from ok t have ch: "chain (nodes h) t ps" "next_value h = length (nodes h)" by (auto simp: pass_ok_def)
  from chain_less [OF ch(1)] have tn: "t < length (nodes h)" "t \<notin> set ps" by auto
  have k: "keeps (nodes h) (nodes (set_node t f h))" by (simp, rule keeps_update) (simp_all add: f)
  have ty: "n_type (f (nodes h ! t)) \<in> {t_integer, t_double}" using f(2) t(2) by (auto simp: type_le_def)
  have "pass_ok json (c', set_node t f h) ps"
    using ch c' p tn ty chain_keeps [OF ch(1) k] by (auto simp: pass_ok_def mode_ok_def)
  moreover have "grows ps (c, h) ps (c', set_node t f h)"
    using k c' t m f(1) tn ty by (auto simp: grows_def promised_simps owes_def nth_update_if)
  moreover have "work_left json (c', set_node t f h) < work_left json (c, h)"
    by (rule work_advance) (use c' p in simp_all)
  ultimately show ?thesis by (auto simp: step_ok_def)
qed

lemma set_node_id [simp]: "set_node t (\<lambda>v. v) h = h"
  by (cases h) (simp add: set_node_def)

lemma end_number_ok:
  assumes ok: "pass_ok json (c, h) ps" and t: "top_value c = Some t" "n_type (nodes h ! t) \<in> {t_integer, t_double}"
    and m: "\<not> flag_seek_value c" "\<not> flag_string c" "\<not> flag_done c"
  shows "step_ok json (c, h) ps (end_number t (c, h))"
proof -
  let ?f = "if flag_num_negative c \<and> n_type (nodes h ! t) = t_integer
    then (\<lambda>v. v\<lparr>u_integer := - u_integer v\<rparr>) else (\<lambda>v. v)"
  let ?h = "set_node t ?f h"
  have e: "end_number t (c, h) = Value_Done (c, ?h)" by (auto simp: end_number_def)
  from ok t have ch: "chain (nodes h) t ps" "next_value h = length (nodes h)" "ptr c \<le> length json"
    by (auto simp: pass_ok_def)
  from chain_less [OF ch(1)] have tn: "t < length (nodes h)" by auto
  have k: "keeps (nodes h) (nodes ?h)" unfolding set_node_simps by (rule keeps_update) auto
  have "value_ready json (c, ?h) ps" using ch m t chain_keeps [OF ch(1) k] by (auto simp: value_ready_def)
  moreover have "grows ps (c, h) ps (c, ?h)"
    using k t m tn by (auto simp: grows_def promised_simps owes_def nth_update_if)
  moreover have "3 * (length json - ptr c) < work_left json (c, h)"
    using t m by (auto simp: work_left_def rank_def)
  ultimately show ?thesis by (auto simp: e step_ok_def)
qed

lemma step_ok_if:
  "(b \<Longrightarrow> step_ok json s ps x) \<Longrightarrow> (\<not> b \<Longrightarrow> step_ok json s ps y) \<Longrightarrow> step_ok json s ps (if b then x else y)"
  by simp

lemma number_step_ok:
  assumes ok: "pass_ok json (c, h) ps" and t: "top_value c = Some t" "n_type (nodes h ! t) \<in> {t_integer, t_double}"
    and m: "\<not> flag_seek_value c" "\<not> flag_string c" "\<not> flag_done c" and b: "b = char_at json (ptr c)"
  shows "step_ok json (c, h) ps (number_step b t (c, h))"
proof -
  have le: "ptr c \<le> length json" using ok by (simp add: pass_ok_def)
  have p: "ptr c < length json" if "b \<noteq> CHR 0x00" using char_at_less [OF le] that b by simp
  have digit: "is_digit b \<Longrightarrow> b \<noteq> CHR 0x00" by (auto simp: is_digit_def)
  note go = number_continue_ok [OF ok t m p]
  note stop = end_number_ok [OF ok t m]
  have same: "step_ok json (c, h) ps (Continue (c', h))"
    if "b \<noteq> CHR 0x00" "top_value c' = Some t" "\<not> flag_string c'" "\<not> flag_seek_value c'" "\<not> flag_done c'" "ptr c' = ptr c + 1" for c'
    using go [OF that, of "\<lambda>v. v"] by simp
  have double: "step_ok json (c, h) ps (Continue (c', set_node t (\<lambda>v. v\<lparr>n_type := t_double\<rparr>) h))"
    if "b \<noteq> CHR 0x00" "top_value c' = Some t" "\<not> flag_string c'" "\<not> flag_seek_value c'" "\<not> flag_done c'" "ptr c' = ptr c + 1" for c'
    by (rule go [OF that]) (use t(2) in \<open>auto simp: type_le_def\<close>)
  have int: "step_ok json (c, h) ps (Continue (c', set_node t (\<lambda>v. v\<lparr>u_integer := u_integer v * 10 + of_nat (digit_val b)\<rparr>) h))"
    if "b \<noteq> CHR 0x00" "top_value c' = Some t" "\<not> flag_string c'" "\<not> flag_seek_value c'" "\<not> flag_done c'" "ptr c' = ptr c + 1" for c'
    by (rule go [OF that]) simp_all
  have failed: "step_ok json (c, h) ps e_failed" by (simp add: step_ok_def)
  have nonzero: "b \<noteq> CHR 0x00" if "is_digit b \<or> b = CHR ''+'' \<or> b = CHR ''-'' \<or> b = CHR ''.'' \<or> b = CHR ''e'' \<or> b = CHR ''E''"
    using that digit by auto
  show ?thesis
    unfolding number_step_def prod.case Let_def
    by (intro step_ok_if same double int failed stop; (rule nonzero, blast)?; simp add: t m)
qed

text \<open>A new value is a child of the one under construction.\<close>

definition with_node :: "jtype \<Rightarrow> nat option \<Rightarrow> heap \<Rightarrow> heap" where
  "with_node ty par h = h\<lparr>nodes := nodes h @ [new_node ty par], next_value := length (nodes h) + 1\<rparr>"

lemma with_node_simps [simp]:
  "nodes (with_node ty par h) = nodes h @ [new_node ty par]" "next_value (with_node ty par h) = length (nodes h) + 1"
  "string_buf (with_node ty par h) = string_buf h" "string_cap (with_node ty par h) = string_cap h"
  by (simp_all add: with_node_def)

lemma with_new_first:
  "with_new True grants ty (c, h) k =
     (if \<not> grants SIZEOF_JSON_OBJECT then e_alloc_failure
      else k (length (nodes h)) (c\<lparr>top_value := Some (length (nodes h))\<rparr>, with_node ty (top_value c) h))"
  by (simp add: with_new_def new_value_def with_node_def)

definition line_of :: "nat option \<Rightarrow> nat list \<Rightarrow> nat list" where
  "line_of par ps = (case par of None \<Rightarrow> [] | Some t \<Rightarrow> t # ps)"


lemma seek_mode:
  assumes ok: "pass_ok json (c, h) ps" and seek: "flag_seek_value c"
  shows "\<not> flag_string c" "\<not> flag_done c" "ptr c \<le> length json" "next_value h = length (nodes h)"
  using ok seek by (auto simp: pass_ok_def mode_ok_def split: option.splits)

lemma seek_top:
  assumes ok: "pass_ok json (c, h) ps" and seek: "flag_seek_value c"
  shows "top_value c = Some t \<Longrightarrow> chain (nodes h) t ps \<and> n_type (nodes h ! t) \<in> {t_array, t_object}"
  using ok seek by (auto simp: pass_ok_def mode_ok_def)

lemma seek_none:
  assumes ok: "pass_ok json (c, h) ps" and seek: "flag_seek_value c"
  shows "top_value c = None \<Longrightarrow> nodes h = [] \<and> ps = []"
  using ok by (simp add: pass_ok_def)

lemma seek_chain:
  assumes ok: "pass_ok json (c, h) ps" and seek: "flag_seek_value c"
  shows "chain (nodes (with_node ty (top_value c) h)) (length (nodes h)) (line_of (top_value c) ps)"
proof (cases "top_value c")
  case (Some t)
  from seek_top [OF ok seek this] have ch: "chain (nodes h) t ps" "n_type (nodes h ! t) \<in> {t_array, t_object}" by auto
  with chain_less [OF ch(1)] chain_keeps [OF ch(1), of "nodes h @ [new_node ty (Some t)]"] Some
  show ?thesis by (auto simp: line_of_def nth_append)
qed (use seek_none [OF ok seek] in \<open>simp add: line_of_def\<close>)

lemma seek_new_grows:
  assumes ok: "pass_ok json (c, h) ps" and seek: "flag_seek_value c"
    and "top_value c' = Some (length (nodes h))"
    and "nodes h' = (nodes h) @ [v]"
  shows "grows ps (c, h) (line_of (top_value c) ps) (c', h')"
  using assms seek_mode(1) [OF ok seek] seek_none [OF ok seek]
  by (cases "top_value c") (auto simp: grows_def promised_simps owes_def line_of_def nth_append split: option.splits)

text \<open>A new value that goes on being read, and one that is complete.\<close>

lemma seek_new_continue:
  assumes ok: "pass_ok json (c, h) ps" and seek: "flag_seek_value c"
    and "top_value c' = Some (length (nodes h))" "flag_done c' = flag_done c" "ptr c' \<le> length json"
    and "mode_ok c' ty (line_of (top_value c) ps)" and "nodes h' = nodes h @ [new_node ty (top_value c)]"
    and "next_value h' = length (nodes h) + 1" and "work_left json (c', h') < work_left json (c, h)"
  shows "step_ok json (c, h) ps (Continue (c', h'))"
proof -
  have "pass_ok json (c', h') (line_of (top_value c) ps)"
    using assms seek_chain [OF ok seek, of ty] by (auto simp: pass_ok_def nth_append)
  with seek_new_grows [OF ok seek, of c' h'] assms show ?thesis by (auto simp: step_ok_def)
qed

lemma seek_new_done:
  assumes ok: "pass_ok json (c, h) ps" and seek: "flag_seek_value c"
    and "top_value c' = Some (length (nodes h))" "\<not> flag_done c'" "\<not> flag_string c'" "\<not> flag_seek_value c'"
    "ptr c < ptr c'" "ptr c' \<le> length json" and "nodes h' = nodes h @ [v]" "n_parent v = top_value c"
    and "next_value h' = length (nodes h) + 1"
  shows "step_ok json (c, h) ps (Value_Done (c', h'))"
proof -
  have "keeps (nodes (with_node (n_type v) (top_value c) h)) (nodes h')"
    using assms(9,10) by (auto simp: keeps_def nth_append)
  from chain_keeps [OF seek_chain [OF ok seek] this] have "value_ready json (c', h') (line_of (top_value c) ps)"
    using assms by (auto simp: value_ready_def)
  with seek_new_grows [OF ok seek, of c' h'] assms work_done [of "(c, h)" "(c', h')" json] show ?thesis by (auto simp: step_ok_def)
qed

lemma seek_move:
  assumes ok: "pass_ok json (c, h) ps" and seek: "flag_seek_value c"
    and "ptr c < length json" "flag_seek_value c'" "\<not> flag_string c'" "\<not> flag_done c'" "top_value c' = top_value c" "ptr c' = ptr c + 1"
  shows "step_ok json (c, h) ps (Continue (c', h))"
proof -
  have "pass_ok json (c', h) ps" using ok seek assms by (auto simp: pass_ok_def mode_ok_def split: option.splits)
  moreover have "grows ps (c, h) ps (c', h)"
    by (rule grows_same) (use assms seek_mode(1) [OF ok seek] in \<open>auto simp: promised_simps owes_def\<close>)
  ultimately show ?thesis using work_advance [of "(c, h)" "(c', h)" json] assms by (auto simp: step_ok_def)
qed

lemma step_ok_fail [simp]:
  "step_ok json s ps e_failed" "step_ok json s ps e_unknown_value" "step_ok json s ps e_alloc_failure"
  "step_ok json s ps e_overflow"
  by (simp_all add: step_ok_def)

lemma literal_at_bound: "literal_at json p lit \<Longrightarrow> p \<le> length json \<Longrightarrow> p + length lit \<le> length json"
  unfolding literal_at_def by linarith

lemma seek_step_ok:
  assumes ok: "pass_ok json (c, h) ps" and seek: "flag_seek_value c" and b: "b = char_at json (ptr c)"
  shows "step_ok json (c, h) ps (seek_step True grants json b (c, h))"
proof -
  note m = seek_mode [OF ok seek]
  have p: "ptr c < length json" if "b \<noteq> CHR 0x00" using char_at_less [OF m(3)] that b by simp
  have move: "step_ok json (c, h) ps (Continue (c', h))"
    if "b \<noteq> CHR 0x00" "flag_seek_value c'" "\<not> flag_string c'" "\<not> flag_done c'" "top_value c' = top_value c" "ptr c' = ptr c + 1" for c'
    by (rule seek_move [OF ok seek p]) (use that in auto)
  have new: "step_ok json (c, h) ps (with_new True grants ty (c0, h) k)"
    if "top_value c0 = top_value c" "step_ok json (c, h) ps (k (length (nodes h))
      (c0\<lparr>top_value := Some (length (nodes h))\<rparr>, with_node ty (top_value c) h))" for ty c0 k
    using that by (simp add: with_new_first)
  have continue: "step_ok json (c, h) ps (Continue (c', h'))"
    if "b \<noteq> CHR 0x00" "top_value c' = Some (length (nodes h))" "\<not> flag_done c'" "ptr c' = ptr c + 1"
      "mode_ok c' ty (line_of (top_value c) ps)" "nodes h' = nodes h @ [new_node ty (top_value c)]"
      "next_value h' = length (nodes h) + 1" for c' h' ty
    by (rule seek_new_continue [OF ok seek, of _ ty]) (use that m p work_advance [of "(c, h)" "(c', h')" json] in auto)
  have complete: "step_ok json (c, h) ps (Value_Done (c', h'))"
    if "top_value c' = Some (length (nodes h))" "\<not> flag_done c'" "\<not> flag_string c'" "\<not> flag_seek_value c'"
      "literal_at json (ptr c) lit" "ptr c' = ptr c + length lit" "lit \<noteq> []" "nodes h' = nodes h @ [v]" "n_parent v = top_value c"
      "next_value h' = length (nodes h) + 1" for c' h' v lit
    by (rule seek_new_done [OF ok seek, of _ _ v]) (use that literal_at_bound [OF that(5) m(3)] in auto)
  have number: "step_ok json (c, h) ps (number_start True json b (c', h'))"
    if "b \<noteq> CHR 0x00" "top_value c' = Some (length (nodes h))" "\<not> flag_done c'" "ptr c' = ptr c" "\<not> flag_need_comma c"
      "\<not> flag_seek_value c'" "\<not> flag_string c'" "nodes h' = nodes h @ [new_node t_integer (top_value c)]"
      "next_value h' = length (nodes h) + 1" for c' h'
  proof -
    have w: "work_left json (c1, h') < work_left json (c, h)"
      if "ptr c1 = ptr c" "\<not> flag_seek_value c1" "\<not> flag_string c1" "\<not> flag_done c1" for c1
      using that m(1,2) seek \<open>\<not> flag_need_comma c\<close> by (auto simp: work_left_def rank_def split: option.split)
    have stay: "step_ok json (c, h) ps (Continue (c1, h'))"
      if "top_value c1 = Some (length (nodes h))" "ptr c1 = ptr c" "\<not> flag_seek_value c1" "\<not> flag_string c1" "\<not> flag_done c1" for c1
      by (rule seek_new_continue [OF ok seek, of _ t_integer]) (use that w m \<open>nodes h' = _\<close> \<open>next_value h' = _\<close> in \<open>auto simp: mode_ok_def\<close>)
    show ?thesis
      unfolding number_start_def prod.case Let_def simp_thms if_False
      by (intro step_ok_if stay continue [of _ t_integer]) (use that in \<open>simp_all add: mode_ok_def\<close>)
  qed
  have close: "step_ok json (c, h) ps (Value_Done (advance 1 (c\<lparr>flag_need_comma := False, flag_seek_value := False\<rparr>), h))"
    if "b = CHR '']''" "top_value c = Some t" "n_type (nodes h ! t) = t_array" for t
  proof -
    let ?c = "advance 1 (c\<lparr>flag_need_comma := False, flag_seek_value := False\<rparr>)"
    have "value_ready json (?c, h) ps"
      using that m p seek_top [OF ok seek that(2)] by (auto simp: value_ready_def)
    moreover have "grows ps (c, h) ps (?c, h)"
      by (rule grows_same) (use that m in \<open>auto simp: promised_simps owes_def\<close>)
    ultimately show ?thesis using work_done [of "(c, h)" "(?c, h)" json] p that by (auto simp: step_ok_def)
  qed
  have nonzero: "b \<noteq> CHR 0x00" if "is_digit b \<or> b = CHR ''-''"
    using that by (auto simp: is_digit_def)
  show ?thesis
    unfolding seek_step_def prod.case Let_def
    apply (intro step_ok_if)
    subgoal by (rule move) (use m seek in \<open>auto simp: is_blank_def\<close>)
    subgoal by (cases "top_value c") (auto intro!: close [unfolded One_nat_def])
    subgoal by (rule move) (use m seek in auto)
    subgoal by simp
    subgoal by (rule move) (use m seek in auto)
    subgoal by simp
    subgoal by (rule new) (simp, simp, rule continue [of _ t_object], use m in \<open>auto simp: mode_ok_def\<close>)
    subgoal by (rule new) (simp, simp, rule continue [of _ t_array], use m in \<open>auto simp: mode_ok_def\<close>)
    subgoal by (rule new) (simp, simp, rule continue [of _ t_string], use m in \<open>auto simp: mode_ok_def\<close>)
    subgoal by simp
    subgoal by (rule new) (simp, simp, rule complete [of _ "''true''" _ "(new_node t_boolean (top_value c))\<lparr>u_boolean := 1\<rparr>"], use m in auto)
    subgoal by simp
    subgoal by (rule new) (simp, simp, rule complete [of _ "''false''"], use m in auto)
    subgoal by simp
    subgoal by (rule new) (simp, simp, rule complete [of _ "''null''"], use m in auto)
    subgoal by (rule new) (simp, rule number [OF nonzero], use m in simp_all)
    subgoal by simp
    done
qed

lemma object_step_ok:
  assumes ok: "pass_ok json (c, h) ps" and t: "top_value c = Some t" "n_type (nodes h ! t) = t_object"
    and m: "\<not> flag_seek_value c" "\<not> flag_string c" "\<not> flag_done c" and b: "b = char_at json (ptr c)"
  shows "step_ok json (c, h) ps (object_step b t (c, h))"
proof -
  from ok t have ch: "chain (nodes h) t ps" "next_value h = length (nodes h)" "ptr c \<le> length json"
    by (auto simp: pass_ok_def)
  have p: "ptr c < length json" if "b \<noteq> CHR 0x00" using char_at_less [OF ch(3)] that b by simp
  have go: "step_ok json (c, h) ps (Continue (c', h'))"
    if "b \<noteq> CHR 0x00" "top_value c' = Some t" "\<not> flag_seek_value c'" "\<not> flag_done c'" "ptr c' = ptr c + 1" "nodes h' = nodes h"
      "next_value h' = next_value h" "flag_string c' \<longrightarrow> string_length c' = 0" for c' h'
  proof -
    have "pass_ok json (c', h') ps" using that ch t p by (auto simp: pass_ok_def mode_ok_def)
    moreover have "grows ps (c, h) ps (c', h')"
      by (rule grows_same) (use that t m in \<open>auto simp: promised_simps owes_def\<close>)
    ultimately show ?thesis using work_advance [of "(c, h)" "(c', h')" json] p that by (auto simp: step_ok_def)
  qed
  have close: "step_ok json (c, h) ps (Value_Done (advance 1 (c\<lparr>flag_need_comma := False\<rparr>), h))" if "b = CHR ''}''"
  proof -
    let ?c = "advance 1 (c\<lparr>flag_need_comma := False\<rparr>)"
    have "value_ready json (?c, h) ps" using that m p ch t by (auto simp: value_ready_def)
    moreover have "grows ps (c, h) ps (?c, h)"
      by (rule grows_same) (use m in \<open>auto simp: promised_simps owes_def\<close>)
    ultimately show ?thesis using work_done [of "(c, h)" "(?c, h)" json] p that by (auto simp: step_ok_def)
  qed
  show ?thesis
    unfolding object_step_def prod.case
    by (intro step_ok_if go close; use t m ch in \<open>auto simp: is_blank_def\<close>)
qed

lemma value_step_ok:
  assumes ok: "pass_ok json (c, h) ps" and m: "\<not> flag_string c" and b: "b = char_at json (ptr c)"
  shows "step_ok json (c, h) ps (value_step True grants json b (c, h))"
proof (cases "flag_done c")
  case True
  then obtain t where t: "top_value c = Some t" "chain (nodes h) t ps" "next_value h = length (nodes h)"
    "ptr c \<le> length json" "mode_ok c (n_type (nodes h ! t)) ps"
    using ok by (auto simp: pass_ok_def split: option.splits)
  have p: "ptr c < length json" if "b \<noteq> CHR 0x00" using char_at_less [OF t(4)] that b by simp
  have "step_ok json (c, h) ps (Continue (advance 1 c, h))" if "is_blank b"
  proof -
    have q: "ptr c < length json" by (rule p) (use that in \<open>auto simp: is_blank_def\<close>)
    then have "pass_ok json (advance 1 c, h) ps" using t by (auto simp: pass_ok_def mode_ok_def)
    moreover have "grows ps (c, h) ps (advance 1 c, h)"
      by (rule grows_same) (auto simp: promised_simps owes_def)
    ultimately show ?thesis using work_advance [of "(c, h)" "(advance 1 c, h)" json] q by (auto simp: step_ok_def)
  qed
  with True show ?thesis by (simp add: value_step_def step_ok_def)
next
  case False
  show ?thesis
  proof (cases "flag_seek_value c")
    case True
    with False seek_step_ok [OF ok True b] show ?thesis by (simp add: value_step_def)
  next
    case seek: False
    with False m ok obtain t where t: "top_value c = Some t" "n_type (nodes h ! t) \<in> {t_object, t_integer, t_double}"
      by (auto simp: pass_ok_def mode_ok_def split: option.splits)
    with False seek number_step_ok [OF ok t(1) _ seek m False b] object_step_ok [OF ok t(1) _ seek m False b]
    show ?thesis by (auto simp: value_step_def)
  qed
qed

lemma json_step_eq:
  "\<not> length json < ptr c \<Longrightarrow> json_step first_pass grants json (c, h) =
     (let r = (if flag_string c
               then (case string_step first_pass json (char_at json (ptr c)) (c, h) of
                       Some r \<Rightarrow> r
                     | None \<Rightarrow> value_step first_pass grants json (char_at json (ptr c)) (c\<lparr>flag_string := False\<rparr>, h))
               else value_step first_pass grants json (char_at json (ptr c)) (c, h))
      in case r of Value_Done s' \<Rightarrow> value_done first_pass s' | _ \<Rightarrow> r)"
  unfolding json_step_def char_at_def Let_def fst_conv snd_conv by (simp only: if_False)

text \<open>One iteration of the first pass: it never faults, keeps the chain and its promises, and makes progress.\<close>

lemma json_step_first:
  assumes ok: "pass_ok json s ps"
  shows "case json_step True grants json s of
      Continue s' \<Rightarrow> \<exists>ps'. pass_ok json s' ps' \<and> grows ps s ps' s' \<and> work_left json s' < work_left json s
    | Pass_End s' \<Rightarrow> s' = s \<and> flag_done (fst s)
    | Value_Done s' \<Rightarrow> False | Fault e \<Rightarrow> False | _ \<Rightarrow> True"
proof -
  obtain c h where s: "s = (c, h)" by (cases s)
  let ?b = "char_at json (ptr c)"
  have le: "\<not> length json < ptr c" using ok by (simp add: pass_ok_def s)
  obtain r where r: "json_step True grants json s = (case r of Value_Done s' \<Rightarrow> value_done True s' | _ \<Rightarrow> r)"
    and ok': "step_ok json (c, h) ps r"
  proof (cases "flag_string c")
    case True
    from string_step_ok [OF ok [unfolded s] True refl] obtain r where
      "string_step True json ?b (c, h) = Some r" "step_ok json (c, h) ps r" by blast
    with True le show ?thesis by (intro that [of r]) (simp_all add: json_step_eq s)
  next
    case False
    with le value_step_ok [OF ok [unfolded s] False refl] show ?thesis
      by (intro that [of "value_step True grants json ?b (c, h)"]) (simp_all add: json_step_eq s Let_def)
  qed
  show ?thesis
  proof (cases r)
    case (Value_Done s1)
    with ok' obtain ps1 where v: "value_ready json s1 ps1" "grows ps s ps1 s1"
      "3 * (length json - ptr (fst s1)) < work_left json s" by (auto simp: step_ok_def s)
    from value_done_ok [OF v(1)] v(3) grows_trans [OF v(2)] show ?thesis
      unfolding r Value_Done flow.case
      by (cases "value_done True s1") (force simp: work_left_def)+
  qed (use ok' in \<open>auto simp: r [unfolded s] step_ok_def s\<close>)
qed

section \<open>The first pass as a whole\<close>

lemma first_pass_total:
  "pass_ok json s ps \<Longrightarrow> work_left json s < fuel \<Longrightarrow>
   \<exists>r. json_pass fuel True grants json s = Some r
     \<and> (case r of Continue s' \<Rightarrow> False | Value_Done s' \<Rightarrow> False | Fault e \<Rightarrow> False | _ \<Rightarrow> True)"
proof (induction fuel arbitrary: s ps)
  case (Suc fuel)
  show ?case
  proof (cases "json_step True grants json s")
    case (Continue s')
    with json_step_first [OF Suc.prems(1), of grants] obtain ps' where
      "pass_ok json s' ps'" "work_left json s' < work_left json s" by auto
    with Suc.IH [of s' ps'] Suc.prems(2) Continue show ?thesis by simp
  qed (use json_step_first [OF Suc.prems(1), of grants] in simp_all)
qed simp

text \<open>What is promised is what the first pass ends with.\<close>

definition fits_final :: "jnode list \<Rightarrow> nat list \<Rightarrow> jstate \<Rightarrow> bool" where
  "fits_final F ps s \<longleftrightarrow> keeps (nodes (snd s)) F
     \<and> (\<forall>i < length (nodes (snd s)). promised ps s i \<le> u_length (F ! i) \<and> promised_names s i \<le> u_names (F ! i))"

lemma fits_final_grows: "grows ps s ps' s' \<Longrightarrow> fits_final F ps' s' \<Longrightarrow> fits_final F ps s"
proof -
  assume g: "grows ps s ps' s'" and f: "fits_final F ps' s'"
  have "promised ps s i \<le> u_length (F ! i) \<and> promised_names s i \<le> u_names (F ! i)" if "i < length (nodes (snd s))" for i
  proof -
    from g that have "i < length (nodes (snd s'))" by (simp add: grows_def keeps_def)
    with g f that show ?thesis unfolding grows_def fits_final_def by (meson order.trans)
  qed
  moreover have "keeps (nodes (snd s)) F" using g f keeps_trans by (auto simp: grows_def fits_final_def)
  ultimately show ?thesis by (simp add: fits_final_def)
qed

lemma first_pass_fits:
  "pass_ok json s ps \<Longrightarrow> json_pass fuel True grants json s = Some (Pass_End (c1, h1)) \<Longrightarrow> fits_final (nodes h1) ps s"
proof (induction fuel arbitrary: s ps)
  case (Suc fuel)
  show ?case
  proof (cases "json_step True grants json s")
    case (Continue s')
    with json_step_first [OF Suc.prems(1), of grants] obtain ps' where
      s': "pass_ok json s' ps'" "grows ps s ps' s'" by auto
    from Suc.IH [OF s'(1)] Suc.prems(2) Continue have "fits_final (nodes h1) ps' s'" by simp
    with fits_final_grows [OF s'(2)] show ?thesis by blast
  next
    case (Pass_End s')
    with Suc.prems json_step_first [OF Suc.prems(1), of grants] have s: "s = (c1, h1)" "flag_done c1" by auto
    with Suc.prems(1) obtain t where "top_value c1 = Some t" "mode_ok c1 (n_type (nodes h1 ! t)) ps"
      by (auto simp: pass_ok_def split: option.splits)
    with s show ?thesis by (auto simp: fits_final_def promised_simps owes_def mode_ok_def)
  qed (use Suc.prems in simp_all)
qed simp

end
