(* ===== verification/Json_Shape.thy ===== *)
theory Json_Shape
  imports Json_Passes
begin

text \<open>
  What an iteration of the parser does to the tree of values: it creates a value under the one under construction, or
  leaves all parents and items alone, and the link of a completed value adds it to the items of its parent. From this the second
  pass builds a tree: a value's items are exactly its completed children, each once.
\<close>

section \<open>The skeleton\<close>

text \<open>
  What of a value the tree is made of: its parent, its items, how many of them are counted and how many there is room
  for. In the second pass also the bytes of names in the place of a null pointer to entries.
\<close>

record core =
  parent_of :: "nat option"
  items_of :: "nat list"
  count_of :: "nat option"
  room_of :: nat
  stray_of :: nat

definition core_of :: "bool \<Rightarrow> jnode \<Rightarrow> core" where
  "core_of first_pass v = \<lparr>parent_of = n_parent v, items_of = n_items v,
     count_of = (if n_type v \<in> {t_object, t_array} then Some (u_length v) else None), room_of = cap_length v,
     stray_of = (if \<not> first_pass \<and> n_type v = t_object \<and> cap_length v = 0 then u_names v else 0)\<rparr>"

definition skel :: "bool \<Rightarrow> jnode list \<Rightarrow> core list" where
  "skel f ns = map (core_of f) ns"

lemma skel_nth [simp]: "i < length ns \<Longrightarrow> skel f ns ! i = core_of f (ns ! i)"
  by (simp add: skel_def)

lemma length_skel [simp]: "length (skel f ns) = length ns"
  by (simp add: skel_def)

lemma skel_append: "skel f (ns @ [v]) = skel f ns @ [core_of f v]"
  by (simp add: skel_def)

lemma skel_set: "skel f (ns[i := v]) = (skel f ns)[i := core_of f v]"
  by (simp add: skel_def map_update)

lemma skel_update:
  assumes "i < length ns \<Longrightarrow> core_of f v = core_of f (ns ! i)"
  shows "skel f (ns[i := v]) = skel f ns"
proof (cases "i < length ns")
  case True
  then have "skel f (ns[i := v]) = (skel f ns)[i := skel f ns ! i]" using assms by (simp add: skel_set)
  then show ?thesis by simp
qed (simp add: list_update_beyond)

definition kept :: "bool \<Rightarrow> jstate \<Rightarrow> jstate \<Rightarrow> bool" where
  "kept f s s' \<longleftrightarrow> top_value (fst s') = top_value (fst s) \<and> next_value (snd s') = next_value (snd s)
     \<and> skel f (nodes (snd s')) = skel f (nodes (snd s))"

text \<open>A value is created, which was looked for: in the second pass with the room the first counted, and nothing in it yet.\<close>

definition emptied :: "core \<Rightarrow> core \<Rightarrow> bool" where
  "emptied x x' \<longleftrightarrow> parent_of x' = parent_of x \<and> items_of x' = items_of x \<and> count_of x' = map_option (\<lambda>_. 0) (count_of x)
     \<and> (\<forall>n. count_of x = Some n \<longrightarrow> room_of x' = n)
     \<and> (room_of x = 0 \<longrightarrow> stray_of x' = 0 \<or> (count_of x = Some 0 \<and> stray_of x' = stray_of x))"

definition made :: "bool \<Rightarrow> jstate \<Rightarrow> jstate \<Rightarrow> bool" where
  "made f s s' \<longleftrightarrow> flag_seek_value (fst s) \<and>
     (if f
      then top_value (fst s') = Some (length (nodes (snd s)))
        \<and> (\<exists>x. skel f (nodes (snd s')) = skel f (nodes (snd s)) @ [x] \<and> parent_of x = top_value (fst s) \<and> items_of x = []
             \<and> count_of x \<in> {None, Some 0} \<and> room_of x = 0)
      else next_value (snd s) < length (nodes (snd s)) \<and> top_value (fst s') = Some (next_value (snd s))
        \<and> next_value (snd s') = Suc (next_value (snd s))
        \<and> (\<exists>x. emptied (core_of f (nodes (snd s) ! next_value (snd s))) x
             \<and> skel f (nodes (snd s')) = (skel f (nodes (snd s)))[next_value (snd s) := x]))"

definition shape :: "bool \<Rightarrow> jstate \<Rightarrow> flow \<Rightarrow> bool" where
  "shape f s r \<longleftrightarrow> (case r of
     Continue s' \<Rightarrow> kept f s s' \<or> made f s s'
   | Value_Done s' \<Rightarrow> kept f s s' \<or> made f s s'
   | Pass_End s' \<Rightarrow> kept f s s'
   | _ \<Rightarrow> True)"

lemma shape_simps [simp]:
  "shape f s e_failed" "shape f s e_unknown_value" "shape f s e_alloc_failure" "shape f s e_overflow" "shape f s (Fault e)"
  "shape f s (Continue s') \<longleftrightarrow> kept f s s' \<or> made f s s'" "shape f s (Value_Done s') \<longleftrightarrow> kept f s s' \<or> made f s s'"
  "shape f s (Pass_End s') \<longleftrightarrow> kept f s s'"
  by (simp_all add: shape_def)

lemma shape_if: "(b \<Longrightarrow> shape f s x) \<Longrightarrow> (\<not> b \<Longrightarrow> shape f s y) \<Longrightarrow> shape f s (if b then x else y)"
  by simp

lemma kept_pair [simp]:
  "kept f (c, h) (c', h') \<longleftrightarrow> top_value c' = top_value c \<and> next_value h' = next_value h \<and> skel f (nodes h') = skel f (nodes h)"
  by (simp add: kept_def)

lemma string_add_shape: "shape f s (string_add f n bs s)"
  by (cases s) (simp add: string_add_def)

lemma end_string_shape: "end_string f s = Some r \<Longrightarrow> shape f s r"
  by (cases s) (auto simp: end_string_def advance_def skel_update core_of_def split: option.splits jtype.splits if_splits)

lemma string_step_shape: "string_step f json b s = Some r \<Longrightarrow> shape f s r"
proof -
  assume r: "string_step f json b s = Some r"
  obtain c h where s: "s = (c, h)" by (cases s)
  have "kept f (c, h) (c', h) \<Longrightarrow> shape f (c, h) (string_add f n bs (c', h))" for c' n bs
    by (simp add: string_add_def)
  with r s end_string_shape [of f "(c, h)" r] show ?thesis
    by (auto simp: string_step_def advance_def Let_def split: if_splits option.splits)
qed

lemma skel_double: "n_type (ns ! t) \<in> {t_integer, t_double} \<Longrightarrow> skel f (ns[t := (ns ! t)\<lparr>n_type := t_double\<rparr>]) = skel f ns"
  by (rule skel_update) (auto simp: core_of_def)

lemma skel_integer: "skel f (ns[t := (ns ! t)\<lparr>u_integer := x\<rparr>]) = skel f ns"
  by (rule skel_update) (simp add: core_of_def)

lemma number_step_shape: "n_type (nodes (snd s) ! t) \<in> {t_integer, t_double} \<Longrightarrow> shape f s (number_step b t s)"
  by (cases s) (auto simp: number_step_def end_number_def advance_def Let_def skel_double skel_integer)

lemma object_step_shape: "shape f s (object_step b t s)"
  by (cases s) (auto simp: object_step_def advance_def)

text \<open>A value that was created is kept by the rest of its case.\<close>

lemma allocate_parts_core: "allocate_parts grants v = Some v' \<Longrightarrow> emptied (core_of False v) (core_of False v')"
  by (auto simp: allocate_parts_def emptied_def core_of_def split: jtype.splits if_splits)

lemma new_value_made:
  assumes new: "new_value f grants ty (c0, h) = Inr (Some s')" and c: "flag_seek_value c" "top_value c0 = top_value c"
  shows "made f (c, h) s'"
proof (cases f)
  case True
  with assms show ?thesis by (auto simp: new_value_def made_def skel_append core_of_def new_node_def split: if_splits)
next
  case False
  with assms allocate_parts_core show ?thesis
    by (fastforce simp: new_value_def made_def skel_set split: if_splits option.splits)
qed

definition settles :: "bool \<Rightarrow> (nat \<Rightarrow> jstate \<Rightarrow> flow) \<Rightarrow> bool" where
  "settles f k \<longleftrightarrow> (\<forall>t s. case k t s of
     Continue s' \<Rightarrow> kept f s s' | Value_Done s' \<Rightarrow> kept f s s' | Pass_End s' \<Rightarrow> False | _ \<Rightarrow> True)"

lemma with_new_shape:
  assumes "settles f k" and c: "flag_seek_value c" "top_value c0 = top_value c"
  shows "shape f (c, h) (with_new f grants ty (c0, h) k)"
proof (cases "new_value f grants ty (c0, h)")
  case (Inr o1)
  show ?thesis
  proof (cases o1)
    case (Some s1)
    obtain c1 h1 where s1: "s1 = (c1, h1)" by (cases s1)
    have made: "made f (c, h) (c1, h1)" using new_value_made [OF _ c] Inr Some s1 by simp
    then obtain t where t: "top_value c1 = Some t" by (auto simp: made_def split: if_splits)
    from made have keep: "kept f (c1, h1) s' \<Longrightarrow> made f (c, h) s'" for s' by (auto simp: made_def kept_def split: if_splits)
    from assms(1) have "case k t (c1, h1) of
        Continue s' \<Rightarrow> kept f (c1, h1) s' | Value_Done s' \<Rightarrow> kept f (c1, h1) s' | Pass_End s' \<Rightarrow> False | _ \<Rightarrow> True"
      unfolding settles_def by blast
    with Inr Some s1 t keep show ?thesis by (cases "k t (c1, h1)") (auto simp: with_new_def)
  qed (use Inr in \<open>simp add: with_new_def\<close>)
qed (simp add: with_new_def)

lemma settles_cases:
  "settles f (\<lambda>t (c1, h1). Continue (advance 1 c1, h1))"
  "settles f (\<lambda>t (c1, h1). Continue (advance 1 (c1\<lparr>flag_seek_value := True\<rparr>), h1))"
  "settles f (\<lambda>t (c1, h1). Continue (advance 1 (c1\<lparr>flag_string := True, string_length := 0\<rparr>),
     h1\<lparr>string_buf := [], string_cap := cap_length (nodes h1 ! t)\<rparr>))"
  "settles f (\<lambda>t (c1, h1). Value_Done (advance n c1, set_node t (\<lambda>v. v\<lparr>u_boolean := 1\<rparr>) h1))"
  "settles f (\<lambda>t (c1, h1). Value_Done (advance n c1, h1))"
  "settles f (\<lambda>t. number_start f json b)"
  by (auto simp: settles_def number_start_def advance_def Let_def skel_update core_of_def split: if_splits)

lemma seek_step_shape: "flag_seek_value c \<Longrightarrow> shape f (c, h) (seek_step f grants json b (c, h))"
  unfolding seek_step_def Let_def prod.case
  by (intro shape_if with_new_shape settles_cases) (auto split: option.split)

lemma value_step_shape: "shape f s (value_step f grants json b s)"
  using seek_step_shape object_step_shape number_step_shape
  by (cases s) (auto simp: value_step_def split: option.split jtype.split)

section \<open>The iterations\<close>

lemma json_step_shape:
  "\<exists>r. shape f s r \<and> (json_step f grants json s = Fault Out_Of_Bounds
     \<or> json_step f grants json s = (case r of Value_Done s1 \<Rightarrow> value_done f s1 | _ \<Rightarrow> r))"
proof -
  obtain c h where s: "s = (c, h)" by (cases s)
  have general: "shape f s (value_step f grants json b (c\<lparr>flag_string := False\<rparr>, h))" for b
    using value_step_shape [of f "(c\<lparr>flag_string := False\<rparr>, h)" grants json b]
    by (auto simp: s shape_def kept_def made_def split: flow.splits if_splits)
  let ?b = "if ptr c = length json then CHR 0x00 else json ! ptr c"
  define r where "r = (if flag_string c
    then (case string_step f json ?b s of Some r \<Rightarrow> r | None \<Rightarrow> value_step f grants json ?b (c\<lparr>flag_string := False\<rparr>, h))
    else value_step f grants json ?b s)"
  have "shape f s r"
    using general value_step_shape [of f s grants json] string_step_shape [of f json _ s]
    by (auto simp: r_def split: option.split)
  moreover have "json_step f grants json s = Fault Out_Of_Bounds
      \<or> json_step f grants json s = (case r of Value_Done s1 \<Rightarrow> value_done f s1 | _ \<Rightarrow> r)"
    unfolding s r_def json_step_def Let_def fst_conv snd_conv by (simp split: if_splits)
  ultimately show ?thesis by blast
qed

lemma json_step_moves:
  assumes "json_step f grants json s = Continue s'"
  shows "kept f s s' \<or> made f s s' \<or> (\<exists>s1. (kept f s s1 \<or> made f s s1) \<and> value_done f s1 = Continue s')"
proof -
  from json_step_shape [of f s grants json] assms obtain r where
    "shape f s r" "(case r of Value_Done s1 \<Rightarrow> value_done f s1 | _ \<Rightarrow> r) = Continue s'" by auto
  then show ?thesis by (cases r) auto
qed

lemma value_done_not_end: "value_done f s \<noteq> Pass_End s'"
  by (cases s) (auto simp: value_done_def Let_def split: option.split)

lemma json_step_end:
  assumes "json_step f grants json s = Pass_End s'"
  shows "kept f s s'"
proof -
  from json_step_shape [of f s grants json] assms obtain r where
    "shape f s r" "(case r of Value_Done s1 \<Rightarrow> value_done f s1 | _ \<Rightarrow> r) = Pass_End s'" by auto
  then show ?thesis using value_done_not_end by (cases r) auto
qed

text \<open>What a link does to the skeleton.\<close>

definition linked :: "bool \<Rightarrow> nat \<Rightarrow> core \<Rightarrow> core" where
  "linked f t x = x\<lparr>items_of := (if f then items_of x else items_of x @ [t]), count_of := map_option Suc (count_of x)\<rparr>"

lemma linked_simps [simp]:
  "parent_of (linked f t x) = parent_of x" "room_of (linked f t x) = room_of x" "stray_of (linked f t x) = stray_of x"
  "count_of (linked f t x) = map_option Suc (count_of x)" "items_of (linked True t x) = items_of x"
  "items_of (linked False t x) = items_of x @ [t]"
  by (simp_all add: linked_def)

lemma value_done_core:
  assumes "value_done f s = Continue s'" "top_value (fst s) = Some t" "t < length (nodes (snd s))"
  shows "next_value (snd s') = next_value (snd s)
    \<and> (case n_parent (nodes (snd s) ! t) of
         None \<Rightarrow> top_value (fst s') = Some t \<and> skel f (nodes (snd s')) = skel f (nodes (snd s))
       | Some p \<Rightarrow> top_value (fst s') = Some p
           \<and> skel f (nodes (snd s')) = (skel f (nodes (snd s)))[p := linked f t (core_of f (nodes (snd s) ! p))]
           \<and> (\<forall>u. \<not> f \<longrightarrow> count_of (core_of f (nodes (snd s) ! p)) = Some u \<longrightarrow> u < room_of (core_of f (nodes (snd s) ! p))))"
  using assms
  by (cases s) (auto simp: value_done_def Let_def skel_set core_of_def linked_def split: option.splits if_splits)

section \<open>The first pass\<close>

text \<open>It fills in no items and allocates no parts, and a value's parent is the one that was under construction.\<close>

definition fresh :: "core list \<Rightarrow> bool" where
  "fresh sk \<longleftrightarrow> (\<forall>x \<in> set sk. items_of x = [] \<and> room_of x = 0)"

lemma fresh_moves:
  assumes "kept True s s' \<or> made True s s'" "fresh (skel True (nodes (snd s)))"
  shows "fresh (skel True (nodes (snd s')))"
  using assms by (auto simp: kept_def made_def fresh_def)

lemma fresh_update: "fresh sk \<Longrightarrow> items_of x = [] \<Longrightarrow> room_of x = 0 \<Longrightarrow> fresh (sk[p := x])"
  using set_update_subset_insert by (fastforce simp: fresh_def)

lemma fresh_done:
  assumes "value_done True s = Continue s'" "fresh (skel True (nodes (snd s)))"
  shows "fresh (skel True (nodes (snd s')))"
proof -
  obtain c h where s: "s = (c, h)" by (cases s)
  have link: "fresh (skel True ((nodes h)[p := (nodes h ! p)\<lparr>u_length := n\<rparr>]))" for p n
  proof (cases "p < length (nodes h)")
    case True
    with assms(2) have "core_of True (nodes h ! p) \<in> set (skel True (nodes h))" by (simp add: skel_def)
    with assms(2) have "items_of (core_of True (nodes h ! p)) = [] \<and> room_of (core_of True (nodes h ! p)) = 0"
      by (auto simp: fresh_def s)
    with assms(2) show ?thesis unfolding skel_set by (intro fresh_update) (simp_all add: core_of_def s)
  qed (use assms(2) in \<open>simp add: s list_update_beyond\<close>)
  with assms show ?thesis by (auto simp: s value_done_def Let_def split: option.splits if_splits)
qed

lemma json_step_fresh:
  "json_step True grants json s = Continue s' \<Longrightarrow> fresh (skel True (nodes (snd s))) \<Longrightarrow> fresh (skel True (nodes (snd s')))"
  using json_step_moves fresh_moves fresh_done by blast

lemma first_pass_fresh:
  "json_pass fuel True grants json s = Some (Pass_End e) \<Longrightarrow> fresh (skel True (nodes (snd s))) \<Longrightarrow> fresh (skel True (nodes (snd e)))"
proof (induction fuel arbitrary: s)
  case (Suc fuel)
  show ?case
  proof (cases "json_step True grants json s")
    case (Continue s')
    with Suc json_step_fresh show ?thesis by simp
  next
    case (Pass_End s')
    with Suc.prems(1) have "s' = e" by simp
    with json_step_end [OF Pass_End] fresh_moves Suc.prems(2) show ?thesis by blast
  qed (use Suc.prems in simp_all)
qed simp

lemma json_step_parent:
  assumes "json_step True grants json s = Continue s'" "length (nodes (snd s')) = Suc (length (nodes (snd s)))"
  shows "n_parent (nodes (snd s') ! length (nodes (snd s))) = top_value (fst s)"
proof -
  let ?n = "length (nodes (snd s))"
  have made: "n_parent (nodes (snd s1) ! ?n) = top_value (fst s) \<and> length (nodes (snd s1)) = Suc ?n" if "made True s s1" for s1
  proof -
    from that obtain x where e: "skel True (nodes (snd s1)) = skel True (nodes (snd s)) @ [x]" "parent_of x = top_value (fst s)"
      by (auto simp: made_def)
    have len: "length (nodes (snd s1)) = Suc ?n" using arg_cong [OF e(1), of length] by simp
    have "parent_of (skel True (nodes (snd s1)) ! ?n) = top_value (fst s)" using e(2) by (simp add: e(1) nth_append del: skel_nth)
    with len show ?thesis by (simp add: core_of_def)
  qed
  have kept: "length (nodes (snd s1)) = ?n" if "kept True s s1" for s1
  proof -
    from that have e: "skel True (nodes (snd s1)) = skel True (nodes (snd s))" by (simp add: kept_def)
    show ?thesis using arg_cong [OF e, of length] by simp
  qed
  have done_keeps: "length (nodes (snd s')) = length (nodes (snd s1))
      \<and> (i < length (nodes (snd s1)) \<longrightarrow> n_parent (nodes (snd s') ! i) = n_parent (nodes (snd s1) ! i))"
    if "value_done True s1 = Continue s'" for s1 i
    using that by (cases s1) (auto simp: value_done_def Let_def nth_update_if split: option.splits if_splits)
  from json_step_moves [OF assms(1)] consider "kept True s s'" | "made True s s'"
    | s1 where "kept True s s1" "value_done True s1 = Continue s'" | s1 where "made True s s1" "value_done True s1 = Continue s'" by blast
  then show ?thesis
  proof cases
    case 1
    with kept assms(2) show ?thesis by simp
  next
    case 2
    with made show ?thesis by simp
  next
    case 3
    with kept [OF 3(1)] done_keeps [OF 3(2), of ?n] assms(2) show ?thesis by simp
  next
    case 4
    with made [OF 4(1)] done_keeps [OF 4(2), of ?n] show ?thesis by simp
  qed
qed

text \<open>What a value is created under is an array or an object.\<close>

lemma json_step_creates:
  assumes ok: "pass_ok json s ps" and step: "json_step True grants json s = Continue s'"
    and new: "length (nodes (snd s')) = Suc (length (nodes (snd s)))" and p: "top_value (fst s) = Some p"
  shows "n_type (nodes (snd s) ! p) \<in> {t_object, t_array}"
proof -
  have len: "skel True (nodes h1) = skel True (nodes h2) \<Longrightarrow> length (nodes h1) = length (nodes h2)" for h1 h2
    by (metis length_skel)
  have kept: "length (nodes (snd s1)) = length (nodes (snd s))" if "kept True s s1" for s1
    by (rule len) (use that in \<open>simp add: kept_def\<close>)
  have link: "length (nodes (snd s')) = length (nodes (snd s1))" if "value_done True s1 = Continue s'" for s1
    using that by (cases s1) (auto simp: value_done_def Let_def split: option.splits if_splits)
  from json_step_moves [OF step] kept link new have "\<exists>s1. made True s s1" by fastforce
  then have "flag_seek_value (fst s)" by (auto simp: made_def)
  with ok p show ?thesis by (auto simp: pass_ok_def mode_ok_def)
qed

section \<open>The names of an object\<close>

text \<open>
  The bytes of names are only counted while a member is promised, so an object that ends without members has none: its
  pointer to entries, where they are counted, is null.
\<close>

definition unnamed :: "jnode list \<Rightarrow> jnode list \<Rightarrow> bool" where
  "unnamed ns ns' \<longleftrightarrow> (\<forall>i < length ns'. 0 < u_names (ns' ! i) \<longrightarrow> i < length ns \<and> 0 < u_names (ns ! i))"

definition named_now :: "jstate \<Rightarrow> jstate \<Rightarrow> bool" where
  "named_now s s' \<longleftrightarrow> (\<forall>i < length (nodes (snd s')). 0 < u_names (nodes (snd s') ! i) \<longrightarrow>
     (i < length (nodes (snd s)) \<and> 0 < u_names (nodes (snd s) ! i)) \<or> (top_value (fst s') = Some i \<and> flag_seek_value (fst s')))"

definition names_flow :: "jnode list \<Rightarrow> flow \<Rightarrow> bool" where
  "names_flow ns r \<longleftrightarrow> (case r of Continue s' \<Rightarrow> unnamed ns (nodes (snd s')) | Value_Done s' \<Rightarrow> unnamed ns (nodes (snd s')) | _ \<Rightarrow> True)"

lemma names_flow_simps [simp]:
  "names_flow ns e_failed" "names_flow ns e_unknown_value" "names_flow ns e_alloc_failure" "names_flow ns e_overflow"
  "names_flow ns (Fault e)" "names_flow ns (Pass_End s')"
  "names_flow ns (Continue s') \<longleftrightarrow> unnamed ns (nodes (snd s'))" "names_flow ns (Value_Done s') \<longleftrightarrow> unnamed ns (nodes (snd s'))"
  by (simp_all add: names_flow_def)

lemma unnamed_simps [simp]:
  "unnamed ns ns" "u_names v = u_names (ns ! i) \<Longrightarrow> unnamed ns (ns[i := v])"
  "u_names v = 0 \<Longrightarrow> unnamed ns (ns @ [v])"
  by (auto simp: unnamed_def nth_update_if nth_append)

lemma number_step_names: "names_flow (nodes (snd s)) (number_step b t s)"
  by (cases s) (auto simp: number_step_def end_number_def advance_def Let_def)

lemma object_step_names: "names_flow (nodes (snd s)) (object_step b t s)"
  by (cases s) (auto simp: object_step_def advance_def)

lemma names_flow_if: "(b \<Longrightarrow> names_flow ns x) \<Longrightarrow> (\<not> b \<Longrightarrow> names_flow ns y) \<Longrightarrow> names_flow ns (if b then x else y)"
  by simp

lemma with_new_names:
  "(\<And>s. nodes (snd s) = nodes h @ [new_node ty (top_value c)] \<Longrightarrow> names_flow (nodes h) (k (length (nodes h)) s)) \<Longrightarrow>
   names_flow (nodes h) (with_new True grants ty (c, h) k)"
  by (simp add: with_new_first with_node_def)

lemma seek_step_names: "names_flow (nodes h) (seek_step True grants json b (c, h))"
  unfolding seek_step_def Let_def prod.case
  by (intro names_flow_if with_new_names)
    (simp_all add: case_prod_beta number_start_def Let_def list_update_append split: option.split)

lemma value_step_names: "names_flow (nodes (snd s)) (value_step True grants json b s)"
proof (cases s)
  case (Pair c h)
  have "names_flow (nodes h) (number_step b t (c, h))" "names_flow (nodes h) (object_step b t (c, h))" for t
    using number_step_names [of "(c, h)"] object_step_names [of "(c, h)"] by simp_all
  with seek_step_names show ?thesis by (simp add: Pair value_step_def split: option.split jtype.split)
qed

lemma string_step_names:
  "string_step True json b s = Some r \<Longrightarrow>
   (case r of Continue s' \<Rightarrow> named_now s s' | Value_Done s' \<Rightarrow> unnamed (nodes (snd s)) (nodes (snd s')) | _ \<Rightarrow> True)"
  by (cases s) (auto simp: string_step_def string_add_def end_string_def named_now_def nth_update_if Let_def
    split: if_splits option.splits jtype.splits)

lemma value_done_names: "value_done True s = Continue s' \<Longrightarrow> unnamed (nodes (snd s)) (nodes (snd s'))"
  by (cases s) (auto simp: value_done_def Let_def split: option.splits if_splits)

lemma json_step_names:
  assumes "json_step True grants json s = Continue s'"
  shows "named_now s s'"
proof -
  obtain c h where s: "s = (c, h)" by (cases s)
  let ?b = "if ptr c = length json then CHR 0x00 else json ! ptr c"
  define r where "r = (if flag_string c
    then (case string_step True json ?b s of Some r \<Rightarrow> r | None \<Rightarrow> value_step True grants json ?b (c\<lparr>flag_string := False\<rparr>, h))
    else value_step True grants json ?b s)"
  have now: "unnamed (nodes (snd s)) (nodes (snd s')) \<Longrightarrow> named_now s s'" for s'
    by (simp add: unnamed_def named_now_def)
  have r: "case r of Continue s' \<Rightarrow> named_now s s' | Value_Done s' \<Rightarrow> unnamed (nodes (snd s)) (nodes (snd s')) | _ \<Rightarrow> True"
    (is "?flow r")
  proof -
    have flow: "?flow x" if "names_flow (nodes (snd s)) x" for x
      using that now by (cases x) simp_all
    have general: "?flow (value_step True grants json b (c1, h))" for b c1
      using value_step_names [of "(c1, h)" grants json b] by (intro flow) (simp add: s)
    show ?thesis
    proof (cases "if flag_string c then string_step True json ?b s else None")
      case None
      then have "r = value_step True grants json ?b (if flag_string c then c\<lparr>flag_string := False\<rparr> else c, h)"
        by (simp only: r_def s split: if_splits) simp_all
      then show ?thesis using general by simp
    next
      case (Some x)
      then have "r = x" "string_step True json ?b s = Some x" by (auto simp: r_def split: if_splits)
      with string_step_names show ?thesis by simp
    qed
  qed
  have link: "(case r of Value_Done s1 \<Rightarrow> value_done True s1 | _ \<Rightarrow> r) = Continue s'"
    using assms unfolding s r_def json_step_def Let_def fst_conv snd_conv by (simp split: if_splits)
  show ?thesis
  proof (cases r)
    case (Value_Done s1)
    with link value_done_names have "unnamed (nodes (snd s1)) (nodes (snd s'))" by simp
    with r Value_Done now show ?thesis by (simp add: unnamed_def)
  qed (use r link in auto)
qed

end
