(* ===== verification/Json_Tree.thy ===== *)
theory Json_Tree
  imports Json_Shape
begin

text \<open>
  The tree the second pass builds: the values created so far have their parent among them, a value's items are
  exactly its completed children, each once, as many as counted and no more than there is room for.
\<close>

section \<open>The values above a value\<close>

fun path :: "core list \<Rightarrow> nat \<Rightarrow> nat list \<Rightarrow> bool" where
  "path sk t [] \<longleftrightarrow> t < length sk \<and> parent_of (sk ! t) = None"
| "path sk t (p # ps) \<longleftrightarrow> t < length sk \<and> parent_of (sk ! t) = Some p \<and> p < t \<and> path sk p ps"

lemma path_less: "path sk t ps \<Longrightarrow> t < length sk \<and> (\<forall>p \<in> set ps. p < t)"
  by (induction ps arbitrary: t) (force intro: less_trans)+

lemma path_update: "parent_of x = parent_of (sk ! i) \<Longrightarrow> path (sk[i := x]) t ps \<longleftrightarrow> path sk t ps"
  by (induction ps arbitrary: t) (auto simp: nth_update_if)

section \<open>The tree\<close>

definition sized :: "core \<Rightarrow> bool" where
  "sized x \<longleftrightarrow> stray_of x = 0 \<and> (case count_of x of
     None \<Rightarrow> items_of x = [] | Some u \<Rightarrow> u = length (items_of x) \<and> u \<le> room_of x)"

definition older :: "core list \<Rightarrow> nat \<Rightarrow> bool" where
  "older sk j \<longleftrightarrow> (case parent_of (sk ! j) of None \<Rightarrow> j = 0 | Some p \<Rightarrow> p < j \<and> count_of (sk ! p) \<noteq> None)"

text \<open>The items of \<open>p\<close> among the first \<open>n\<close> values, but those on the path \<open>open_values\<close>, which are not linked yet.\<close>

definition filled :: "core list \<Rightarrow> nat \<Rightarrow> nat list \<Rightarrow> nat \<Rightarrow> bool" where
  "filled sk n open_values p \<longleftrightarrow> distinct (items_of (sk ! p))
     \<and> set (items_of (sk ! p)) = {j. j < n \<and> parent_of (sk ! j) = Some p \<and> j \<notin> set open_values}"

text \<open>The first \<open>n\<close> values are created, \<open>cur\<close> is under construction with the values above it.\<close>

definition tree :: "core list \<Rightarrow> nat \<Rightarrow> nat option \<Rightarrow> bool" where
  "tree sk n cur \<longleftrightarrow> n \<le> length sk
     \<and> (\<forall>j < n. older sk j \<and> sized (sk ! j))
     \<and> (\<forall>j. n \<le> j \<longrightarrow> j < length sk \<longrightarrow> items_of (sk ! j) = [] \<and> room_of (sk ! j) = 0)
     \<and> (case cur of
          None \<Rightarrow> n = 0
        | Some t \<Rightarrow> t < n \<and> (\<exists>ps. path sk t ps \<and> (\<forall>p < n. filled sk n (t # ps) p)))"

lemma tree_create:
  assumes tree: "tree sk n cur" and n: "n < length sk" and par: "parent_of (sk ! n) = cur"
    and container: "\<And>p. cur = Some p \<Longrightarrow> count_of (sk ! p) \<noteq> None"
    and names: "count_of (sk ! n) = Some 0 \<Longrightarrow> stray_of (sk ! n) = 0" and x: "emptied (sk ! n) x"
  shows "tree (sk[n := x]) (Suc n) (Some n)"
proof -
  let ?sk = "sk[n := x]"
  have blank: "items_of (sk ! n) = []" "room_of (sk ! n) = 0" using tree n by (simp_all add: tree_def)
  have px: "parent_of x = cur" and ix: "items_of x = []" using x par blank by (simp_all add: emptied_def)
  have parents: "parent_of (?sk ! j) = parent_of (sk ! j)" for j using px par by (auto simp: nth_update_if)
  have counted: "count_of (?sk ! j) = None \<longleftrightarrow> count_of (sk ! j) = None" for j
    using x by (simp add: nth_update_if emptied_def)
  obtain ps where ps: "path sk n ps" "set ps = {} \<or> (\<exists>t qs. cur = Some t \<and> ps = t # qs)"
    and items: "\<And>p. p < n \<Longrightarrow> filled sk n ps p"
  proof (cases cur)
    case None
    with tree that [of "[]"] n par show thesis by (auto simp: tree_def)
  next
    case (Some t)
    with tree obtain qs where "t < n" "path sk t qs" "\<And>p. p < n \<Longrightarrow> filled sk n (t # qs) p" by (auto simp: tree_def)
    with that [of "t # qs"] n par Some show thesis by simp
  qed
  have less: "\<forall>p \<in> set ps. p < n" using path_less [OF ps(1)] by simp
  have "older ?sk j" if "j < Suc n" for j
  proof (cases "j = n")
    case True
    have "older sk n"
      using par container ps less tree by (cases cur) (auto simp: older_def tree_def split: option.splits)
    with True show ?thesis by (simp only: older_def parents counted)
  next
    case False
    with that tree have "older sk j" by (simp add: tree_def)
    then show ?thesis by (simp only: older_def parents counted)
  qed
  moreover have "sized (?sk ! j)" if "j < Suc n" for j
  proof (cases "j = n")
    case True
    have "sized x" using x names blank ix by (auto simp: sized_def emptied_def split: option.split)
    with True n show ?thesis by simp
  qed (use that tree in \<open>simp add: tree_def\<close>)
  moreover have "items_of (?sk ! j) = [] \<and> room_of (?sk ! j) = 0" if "Suc n \<le> j" "j < length ?sk" for j
    using that tree by (simp add: tree_def)
  moreover have "path ?sk n ps" using ps(1) px par by (simp add: path_update)
  moreover have "filled ?sk (Suc n) (n # ps) p" if "p < Suc n" for p
  proof (cases "p = n")
    case True
    have "{j. j < Suc n \<and> parent_of (sk ! j) = Some n \<and> j \<notin> set (n # ps)} = {}"
      using tree by (fastforce simp: tree_def older_def less_Suc_eq split: option.splits)
    with True n ix show ?thesis by (simp add: filled_def parents)
  next
    case False
    with that have pn: "p < n" by simp
    have "{j. j < Suc n \<and> parent_of (sk ! j) = Some p \<and> j \<notin> set (n # ps)} = {j. j < n \<and> parent_of (sk ! j) = Some p \<and> j \<notin> set ps}"
      by (auto simp: less_Suc_eq)
    with items [OF pn] False show ?thesis unfolding filled_def parents by simp
  qed
  ultimately show ?thesis using n unfolding tree_def by auto
qed

lemma tree_link:
  assumes tree: "tree sk n (Some t)" and par: "parent_of (sk ! t) = Some p"
    and room: "\<And>u. count_of (sk ! p) = Some u \<Longrightarrow> u < room_of (sk ! p)"
  shows "p < n \<and> tree (sk[p := linked False t (sk ! p)]) n (Some p)"
proof -
  let ?x = "linked False t (sk ! p)"
  let ?sk = "sk[p := ?x]"
  from tree obtain qs where q: "path sk t qs" "t < n" "n \<le> length sk" "\<And>q. q < n \<Longrightarrow> filled sk n (t # qs) q"
    by (auto simp: tree_def)
  from q(1) par obtain ps where qs: "qs = p # ps" by (cases qs) auto
  with q(1) path_less [OF q(1)] have p: "p < t" "path sk p ps" "\<forall>q \<in> set ps. q < t" by auto
  with q have pn: "p < n" "p < length sk" by simp_all
  have parents: "parent_of (?sk ! j) = parent_of (sk ! j)" and counted: "count_of (?sk ! j) = None \<longleftrightarrow> count_of (sk ! j) = None" for j
    by (simp_all add: nth_update_if)
  have "older sk t" using tree q(2) by (simp add: tree_def)
  with par have "count_of (sk ! p) \<noteq> None" by (simp add: older_def)
  then have "sized ?x" using tree pn(1) room by (auto simp: tree_def sized_def)
  then have "sized (?sk ! j)" if "j < n" for j
    using tree that by (cases "j = p") (simp_all add: tree_def nth_update_if)
  moreover have "older ?sk j" if "j < n" for j
  proof -
    from tree that have "older sk j" by (simp add: tree_def)
    then show ?thesis by (simp only: older_def parents counted)
  qed
  moreover have "items_of (?sk ! j) = [] \<and> room_of (?sk ! j) = 0" if "n \<le> j" "j < length ?sk" for j
    using that tree pn by (simp add: tree_def nth_update_if)
  moreover have "path ?sk p ps" using p(2) by (simp add: path_update)
  moreover have "filled ?sk n (p # ps) q" if qn: "q < n" for q
  proof (cases "q = p")
    case True
    from q(4) [OF pn(1)] have old: "distinct (items_of (sk ! p))"
      "set (items_of (sk ! p)) = {j. j < n \<and> parent_of (sk ! j) = Some p \<and> j \<notin> set (t # p # ps)}"
      by (simp_all add: filled_def qs)
    have "t \<notin> set (p # ps)" using p(1,3) by auto
    then have "insert t {j. j < n \<and> parent_of (sk ! j) = Some p \<and> j \<notin> set (t # p # ps)}
        = {j. j < n \<and> parent_of (sk ! j) = Some p \<and> j \<notin> set (p # ps)}"
      using q(2) par by (simp only: list.set) blast
    with old pn True show ?thesis unfolding filled_def parents by (simp add: insert_commute)
  next
    case False
    have "{j. j < n \<and> parent_of (sk ! j) = Some q \<and> j \<notin> set (t # p # ps)} = {j. j < n \<and> parent_of (sk ! j) = Some q \<and> j \<notin> set (p # ps)}"
      using False par by auto
    with q(4) [OF qn] False show ?thesis unfolding filled_def parents qs by simp
  qed
  ultimately have "tree ?sk n (Some p)" using q(3) pn(1) unfolding tree_def by auto
  with pn(1) show ?thesis by blast
qed

section \<open>The second pass keeps the tree\<close>

definition tree_ok :: "jstate \<Rightarrow> bool" where
  "tree_ok s \<longleftrightarrow> tree (skel False (nodes (snd s))) (next_value (snd s)) (top_value (fst s))"

text \<open>The value to be created next, if it is, belongs under the one under construction.\<close>

definition next_fits :: "jstate \<Rightarrow> bool" where
  "next_fits s \<longleftrightarrow> (let v = nodes (snd s) ! next_value (snd s) in
     n_parent v = top_value (fst s)
     \<and> (\<forall>p. top_value (fst s) = Some p \<longrightarrow> n_type (nodes (snd s) ! p) \<in> {t_object, t_array})
     \<and> (n_type v = t_object \<longrightarrow> u_length v = 0 \<longrightarrow> u_names v = 0))"

lemma tree_ok_kept: "kept False s s' \<Longrightarrow> tree_ok s \<Longrightarrow> tree_ok s'"
  by (simp add: kept_def tree_ok_def)

lemma tree_ok_made:
  assumes made: "made False s s'" and ok: "tree_ok s" and fits: "next_fits s"
  shows "tree_ok s'"
proof -
  let ?ns = "nodes (snd s)" and ?n = "next_value (snd s)"
  from made obtain x where x: "?n < length ?ns" "emptied (core_of False (?ns ! ?n)) x"
    "skel False (nodes (snd s')) = (skel False ?ns)[?n := x]" "top_value (fst s') = Some ?n" "next_value (snd s') = Suc ?n"
    by (auto simp: made_def)
  have "tree ((skel False ?ns)[?n := x]) (Suc ?n) (Some ?n)"
  proof (rule tree_create [OF ok [unfolded tree_ok_def]])
    fix p assume p: "top_value (fst s) = Some p"
    with ok x(1) have "p < length ?ns" by (auto simp: tree_ok_def tree_def)
    with p fits show "count_of (skel False ?ns ! p) \<noteq> None" by (simp add: next_fits_def core_of_def Let_def)
  qed (use x fits in \<open>auto simp: next_fits_def core_of_def Let_def split: if_splits\<close>)
  with x show ?thesis by (simp add: tree_ok_def)
qed

lemma tree_ok_done:
  assumes link: "value_done False s = Continue s'" and ok: "tree_ok s"
  shows "tree_ok s'"
proof -
  from link obtain t where t: "top_value (fst s) = Some t" by (cases s) (auto simp: value_done_def split: option.splits)
  with ok have tn: "t < length (nodes (snd s))" "tree (skel False (nodes (snd s))) (next_value (snd s)) (Some t)"
    by (auto simp: tree_ok_def tree_def)
  note step = value_done_core [OF link t tn(1)]
  show ?thesis
  proof (cases "n_parent (nodes (snd s) ! t)")
    case None
    with step tn t show ?thesis by (simp add: tree_ok_def)
  next
    case (Some p)
    then have par: "parent_of (skel False (nodes (snd s)) ! t) = Some p" using tn(1) by (simp add: core_of_def)
    from tn(2) par have "p < length (nodes (snd s))" using path_less [of "skel False (nodes (snd s))" t]
      by (fastforce simp: tree_def older_def split: option.splits)
    with tree_link [OF tn(2) par] step Some show ?thesis by (simp add: tree_ok_def)
  qed
qed

lemma kept_or_made_tree:
  assumes "kept False s s' \<or> made False s s'" "tree_ok s" "next_value (snd s') \<noteq> next_value (snd s) \<Longrightarrow> next_fits s"
  shows "tree_ok s'"
  using assms(1)
proof
  assume made: "made False s s'"
  then have "next_value (snd s') \<noteq> next_value (snd s)" by (simp add: made_def)
  with tree_ok_made [OF made assms(2)] assms(3) show ?thesis by blast
qed (use tree_ok_kept assms(2) in blast)

lemma value_done_next: "value_done f s = Continue s' \<Longrightarrow> next_value (snd s') = next_value (snd s)"
  by (cases s) (auto simp: value_done_def Let_def split: option.splits if_splits)

lemma json_step_tree:
  assumes step: "json_step False grants json s = Continue s'" and ok: "tree_ok s"
    and fits: "next_value (snd s') \<noteq> next_value (snd s) \<Longrightarrow> next_fits s"
  shows "tree_ok s'"
proof -
  from json_step_moves [OF step] consider "kept False s s' \<or> made False s s'"
    | s1 where "kept False s s1 \<or> made False s s1" "value_done False s1 = Continue s'" by blast
  then show ?thesis
  proof cases
    case 1
    then show ?thesis using kept_or_made_tree ok fits by blast
  next
    case 2
    from kept_or_made_tree [OF 2(1) ok] value_done_next [OF 2(2)] fits have "tree_ok s1" by simp
    with tree_ok_done [OF 2(2)] show ?thesis by blast
  qed
qed

lemma tree_ok_start: "fresh (skel True F) \<Longrightarrow> tree_ok (start_state F)"
  by (auto simp: tree_ok_def start_state_def tree_def fresh_def skel_def core_of_def)

section \<open>What the first pass leaves to the second\<close>

definition names_promised :: "nat list \<Rightarrow> jstate \<Rightarrow> bool" where
  "names_promised ps s \<longleftrightarrow> (\<forall>i < length (nodes (snd s)).
     n_type (nodes (snd s) ! i) = t_object \<longrightarrow> 0 < u_names (nodes (snd s) ! i) \<longrightarrow> 0 < promised ps s i)"

lemma names_promised_step:
  assumes step: "json_step True grants json s = Continue s'" and grows: "grows ps s ps' s'" and named: "names_promised ps s"
  shows "names_promised ps' s'"
  unfolding names_promised_def
proof (intro allI impI)
  fix i assume i: "i < length (nodes (snd s'))" "n_type (nodes (snd s') ! i) = t_object" "0 < u_names (nodes (snd s') ! i)"
  from json_step_names [OF step] i consider "i < length (nodes (snd s))" "0 < u_names (nodes (snd s) ! i)"
    | "top_value (fst s') = Some i" "flag_seek_value (fst s')" by (auto simp: named_now_def)
  then show "0 < promised ps' s' i"
  proof cases
    case 1
    with grows i(2) have "n_type (nodes (snd s) ! i) = t_object" by (auto simp: grows_def keeps_def type_le_def)
    with 1 named have "0 < promised ps s i" by (simp add: names_promised_def)
    with 1(1) grows show ?thesis by (fastforce simp: grows_def)
  next
    case 2
    with i(2) show ?thesis by (cases s') (simp add: promised_def owes_def)
  qed
qed

lemma first_pass_names:
  "json_pass fuel True grants json s = Some (Pass_End e) \<Longrightarrow> pass_ok json s ps \<Longrightarrow> names_promised ps s \<Longrightarrow>
   \<forall>i < length (nodes (snd e)). n_type (nodes (snd e) ! i) = t_object \<longrightarrow> u_length (nodes (snd e) ! i) = 0 \<longrightarrow>
     u_names (nodes (snd e) ! i) = 0"
proof (induction fuel arbitrary: s ps)
  case (Suc fuel)
  show ?case
  proof (cases "json_step True grants json s")
    case (Continue s')
    with json_step_first [OF Suc.prems(2), of grants] obtain ps' where
      "pass_ok json s' ps'" "grows ps s ps' s'" by auto
    with Suc.IH [of s' ps'] Suc.prems Continue names_promised_step show ?thesis by simp
  next
    case (Pass_End s')
    with Suc.prems json_step_first [OF Suc.prems(2), of grants] have e: "e = s" "flag_done (fst s)" by auto
    obtain c h where s: "s = (c, h)" by (cases s)
    from e s Suc.prems(2) have "ps = []" "\<not> flag_seek_value c" "\<not> flag_string c"
      by (auto simp: pass_ok_def mode_ok_def split: option.splits)
    with e s Suc.prems(3) show ?thesis by (auto simp: names_promised_def promised_def owes_def)
  qed (use Suc.prems in simp_all)
qed simp

end
