(* ===== verification/Json_Second.thy ===== *)
theory Json_Second
  imports Json_Tree
begin

section \<open>The second pass\<close>

text \<open>
  The second pass leaves the flags of numbers alone. Its nodes have the final types and parents;
  what the first pass has counted so far is what the second has filled, out of the final counts.
\<close>

definition clear_num :: "cursor \<Rightarrow> cursor" where
  "clear_num c = c\<lparr>flag_num_negative := False, flag_num_zero := False, flag_num_e := False,
     flag_num_e_got_sign := False, num_digits := 0\<rparr>"

lemma clear_num_simps [simp]:
  "ptr (clear_num c) = ptr c" "flag_need_comma (clear_num c) = flag_need_comma c"
  "flag_seek_value (clear_num c) = flag_seek_value c" "flag_escaped (clear_num c) = flag_escaped c"
  "flag_string (clear_num c) = flag_string c" "flag_need_colon (clear_num c) = flag_need_colon c"
  "flag_done (clear_num c) = flag_done c" "string_length (clear_num c) = string_length c"
  "top_value (clear_num c) = top_value c"
  by (simp_all add: clear_num_def)

definition node_sim :: "jnode \<Rightarrow> jnode \<Rightarrow> jnode \<Rightarrow> bool" where
  "node_sim v v2 f \<longleftrightarrow> n_type v2 = n_type f \<and> n_parent v2 = n_parent f
     \<and> (n_type f \<in> {t_object, t_array} \<longrightarrow> u_length v2 = u_length v \<and> cap_length v2 = u_length f)
     \<and> (n_type f = t_string \<longrightarrow> cap_length v2 = u_length f + 1)
     \<and> (n_type f = t_object \<longrightarrow> 0 < u_length f \<longrightarrow> cap_names v2 = u_names f \<and> u_names v2 = u_names v)"

definition sim :: "jnode list \<Rightarrow> jstate \<Rightarrow> heap \<Rightarrow> bool" where
  "sim F s h2 \<longleftrightarrow> (case s of (c, h) \<Rightarrow>
     length (nodes h2) = length F \<and> next_value h2 = length (nodes h)
     \<and> (\<forall>i < length (nodes h). node_sim (nodes h ! i) (nodes h2 ! i) (F ! i))
     \<and> (\<forall>i. length (nodes h) \<le> i \<longrightarrow> i < length F \<longrightarrow> nodes h2 ! i = F ! i)
     \<and> (flag_string c \<longrightarrow> (\<forall>t. top_value c = Some t \<longrightarrow>
          string_cap h2 = (if n_type (F ! t) = t_string then u_length (F ! t) + 1
                           else u_names (F ! t) - u_names (nodes h ! t)))))"

lemma sim_cursor:
  "sim F (c, h) h2 \<Longrightarrow> (flag_string c' \<longrightarrow> flag_string c \<and> top_value c' = top_value c) \<Longrightarrow> sim F (c', h) h2"
  by (auto simp: sim_def)

lemma allocate_parts_sim:
  "allocate_parts grants f = Some v2 \<Longrightarrow> n_type f = ty \<or> True \<Longrightarrow> node_sim (new_node ty par) v2 f"
  by (auto simp: allocate_parts_def node_sim_def split: jtype.splits if_splits)

lemma keeps_nth:
  "keeps ns F \<Longrightarrow> i < length ns \<Longrightarrow> i < length F \<and> n_parent (F ! i) = n_parent (ns ! i) \<and> type_le (n_type (ns ! i)) (n_type (F ! i))"
  by (simp add: keeps_def)

lemma type_le_fixed: "type_le a b \<Longrightarrow> a \<noteq> t_integer \<Longrightarrow> b = a"
  by (simp add: type_le_def)

lemma value_done_second:
  assumes ready: "value_ready json (c, h) ps" and first: "value_done True (c, h) = Continue (c', h')"
    and fits: "fits_final F ps' (c', h')" and s: "sim F (c, h) h2"
  shows "\<exists>h2'. value_done False (clear_num c, h2) = Continue (clear_num c', h2') \<and> sim F (c', h') h2'"
proof -
  from ready obtain t where t: "top_value c = Some t" "chain (nodes h) t ps" "\<not> flag_string c"
    by (auto simp: value_ready_def)
  from chain_less [OF t(2)] have tn: "t < length (nodes h)" by simp
  have kh: "keeps (nodes h) (nodes h')"
    using value_done_ok [OF ready] first by (auto simp: grows_def)
  with fits have kF: "keeps (nodes h) F" using keeps_trans by (auto simp: fits_final_def)
  have par: "n_parent (nodes h2 ! t) = n_parent (nodes h ! t)"
    using s tn keeps_nth [OF kF tn] by (auto simp: sim_def node_sim_def)
  show ?thesis
  proof (cases "n_parent (nodes h ! t)")
    case None
    with first t have "c' = c\<lparr>flag_need_comma := True, flag_done := True\<rparr>" "h' = h" by (auto simp: value_done_def)
    with None par t s show ?thesis
      by (auto simp: value_done_def clear_num_def sim_def)
  next
    case (Some p)
    with t(2) obtain ps1 where ps: "chain (nodes h) p ps1" "n_type (nodes h ! p) \<in> {t_object, t_array}"
      by (cases ps) auto
    from chain_less [OF ps(1)] have pn: "p < length (nodes h)" by simp
    from keeps_nth [OF kF pn] ps(2) have fp: "n_type (F ! p) = n_type (nodes h ! p)" "p < length F"
      by (auto simp: type_le_def)
    have np: "node_sim (nodes h ! p) (nodes h2 ! p) (F ! p)" using s pn by (simp add: sim_def)
    then have p2: "n_type (nodes h2 ! p) = n_type (nodes h ! p)" "u_length (nodes h2 ! p) = u_length (nodes h ! p)"
      "cap_length (nodes h2 ! p) = u_length (F ! p)" using fp ps(2) by (auto simp: node_sim_def)
    let ?f = "\<lambda>v. v\<lparr>u_length := u_length v + 1, n_items := n_items v\<rparr>"
    have h': "h' = set_node p ?f h" and c': "c' = (if n_type (nodes h ! p) = t_array
        then c\<lparr>flag_need_comma := True, flag_seek_value := True\<rparr> else c\<lparr>flag_need_comma := True\<rparr>)\<lparr>top_value := Some p\<rparr>"
      and no: "\<not> uint_max < u_length (nodes h ! p) + 1"
      using first t Some by (auto simp: value_done_def Let_def split: if_splits)
    have "promised ps' (c', h') p \<le> u_length (F ! p)" using fits pn by (simp add: fits_final_def h')
    then have "u_length (nodes h ! p) + 1 \<le> u_length (F ! p)"
      using pn t(3) c' by (auto simp: promised_simps h' split: if_splits)
    with p2 no have "value_done False (clear_num c, h2) = Continue (clear_num c',
        set_node p (\<lambda>v. v\<lparr>u_length := u_length v + 1, n_items := n_items v @ [t]\<rparr>) h2)"
      using t Some par by (auto simp: value_done_def Let_def c' clear_num_def)
    moreover have "sim F (c', h') (set_node p (\<lambda>v. v\<lparr>u_length := u_length v + 1, n_items := n_items v @ [t]\<rparr>) h2)"
      using s np pn fp t(3) by (auto simp: sim_def h' c' nth_update_if node_sim_def)
    ultimately show ?thesis by blast
  qed
qed

text \<open>What a step of the second pass may come to, given that of the first.\<close>

definition follows :: "(nat \<Rightarrow> bool) \<Rightarrow> jnode list \<Rightarrow> flow \<Rightarrow> jstate \<Rightarrow> bool" where
  "follows grants F r s' \<longleftrightarrow> (r = e_alloc_failure \<and> \<not> (\<forall>n. grants n)) \<or> (\<exists>h2'. r = Continue (clear_num (fst s'), h2') \<and> sim F s' h2')"

lemma length_utf8_bytes: "length (utf8_bytes u) = utf8_length u"
  by (simp add: utf8_bytes_def utf8_length_def)

lemma string_room:
  assumes fits: "fits_final F ps (c', h)" and s: "sim F (c, h) h2" and str: "flag_string c" "flag_string c'"
    and t: "top_value c = Some t" "top_value c' = Some t" "t < length (nodes h)" "n_type (nodes h ! t) \<in> {t_string, t_object}"
  shows "string_length c' < string_cap h2"
proof -
  have k: "keeps (nodes h) F" using fits by (simp add: fits_final_def)
  from keeps_nth [OF k t(3)] t(4) have ty: "n_type (F ! t) = n_type (nodes h ! t)" by (auto simp: type_le_def)
  have "promised ps (c', h) t \<le> u_length (F ! t)" "promised_names (c', h) t \<le> u_names (F ! t)"
    using fits t(3) by (auto simp: fits_final_def)
  then show ?thesis using s str t ty by (auto simp: sim_def promised_simps)
qed

lemma string_add_second:
  assumes fits: "fits_final F ps (c1\<lparr>string_length := string_length c1 + n\<rparr>, h)" and s: "sim F (c, h) h2"
    and str: "flag_string c" "flag_string c1" and n: "length bs = n"
    and t: "top_value c = Some t" "top_value c1 = Some t" "t < length (nodes h)" "n_type (nodes h ! t) \<in> {t_string, t_object}"
  shows "follows grants F (string_add False n bs (clear_num c1, h2)) (c1\<lparr>string_length := string_length c1 + n\<rparr>, h)"
proof -
  let ?c = "c1\<lparr>string_length := string_length c1 + n\<rparr>"
  have "string_length ?c < string_cap h2"
    by (rule string_room [OF fits s str(1), of t]) (use str t in simp_all)
  with n have "string_add False n bs (clear_num c1, h2) = Continue (clear_num ?c, h2\<lparr>string_buf := string_buf h2 @ bs\<rparr>)"
    by (simp add: string_add_def clear_num_def)
  moreover have "sim F (?c, h) (h2\<lparr>string_buf := string_buf h2 @ bs\<rparr>)"
    using s str t by (auto simp: sim_def)
  ultimately show ?thesis by (auto simp: follows_def)
qed

lemma end_string_second:
  assumes ok: "pass_ok json (c, h) ps" and str: "flag_string c" and p: "ptr c < length json"
    and s: "sim F (c, h) h2"
  shows "case end_string True (c, h) of
      Some (Continue (c', h')) \<Rightarrow> \<forall>ps'. fits_final F ps' (c', h') \<longrightarrow>
        (\<exists>r. end_string False (clear_num c, h2) = Some r \<and> follows grants F r (c', h'))
    | Some (Value_Done (c', h')) \<Rightarrow> \<forall>ps'. fits_final F ps' (c', h') \<longrightarrow>
        (\<exists>h2'. end_string False (clear_num c, h2) = Some (Value_Done (clear_num c', h2')) \<and> sim F (c', h') h2')
    | _ \<Rightarrow> False"
proof -
  obtain t where t: "top_value c = Some t" "chain (nodes h) t ps" "n_type (nodes h ! t) \<in> {t_string, t_object}"
      "\<not> flag_seek_value c"
    using ok str by (auto simp: pass_ok_def mode_ok_def split: option.splits)
  from chain_less [OF t(2)] have tn: "t < length (nodes h)" by simp
  have node: "node_sim (nodes h ! t) (nodes h2 ! t) (F ! t)" using s tn by (simp add: sim_def)
  show ?thesis
  proof (cases "n_type (nodes h ! t) = t_string")
    case True
    let ?c = "advance 1 (c\<lparr>flag_string := False\<rparr>)"
    let ?h = "set_node t (\<lambda>v. v\<lparr>u_length := string_length c, n_text := string_buf h\<rparr>) h"
    have first: "end_string True (c, h) = Some (Value_Done (?c, ?h))" using t(1) True by (simp add: end_string_def)
    have "\<exists>h2'. end_string False (clear_num c, h2) = Some (Value_Done (clear_num ?c, h2')) \<and> sim F (?c, ?h) h2'"
      if fits: "fits_final F ps' (?c, ?h)" for ps'
    proof -
      from fits have k: "keeps (nodes ?h) F" by (simp add: fits_final_def)
      from keeps_nth [OF k, of t] tn True have f: "n_type (F ! t) = t_string" "t < length F" by (auto simp: type_le_def)
      have "promised ps' (?c, ?h) t \<le> u_length (F ! t)" using fits tn by (simp add: fits_final_def)
      then have "string_length c \<le> u_length (F ! t)" using tn by (simp add: promised_simps)
      then have "string_length c < string_cap h2" using s str t(1) f by (simp add: sim_def)
      moreover have "n_type (nodes h2 ! t) = t_string" using node f by (simp add: node_sim_def)
      ultimately have "end_string False (clear_num c, h2) = Some (Value_Done (clear_num ?c,
          set_node t (\<lambda>v. v\<lparr>u_length := string_length c, n_text := string_buf h2\<rparr>) h2))"
        using t(1) by (simp add: end_string_def clear_num_def advance_def)
      moreover have "sim F (?c, ?h) (set_node t (\<lambda>v. v\<lparr>u_length := string_length c, n_text := string_buf h2\<rparr>) h2)"
        using s tn node f by (auto simp: sim_def nth_update_if node_sim_def)
      ultimately show ?thesis by blast
    qed
    then show ?thesis unfolding first option.case flow.case prod.case by blast
  next
    case False
    with t(3) have obj: "n_type (nodes h ! t) = t_object" by simp
    let ?c = "advance 1 (c\<lparr>flag_string := False, flag_seek_value := True, flag_need_colon := True\<rparr>)"
    let ?f = "\<lambda>v. v\<lparr>u_names := u_names v + (string_length c + 1)\<rparr>"
    let ?h = "set_node t ?f h"
    have first: "end_string True (c, h) = Some (Continue (?c, ?h))" using t(1) obj by (simp add: end_string_def)
    have "\<exists>r. end_string False (clear_num c, h2) = Some r \<and> follows grants F r (?c, ?h)"
      if fits: "fits_final F ps' (?c, ?h)" for ps'
    proof -
      from fits have k: "keeps (nodes ?h) F" by (simp add: fits_final_def)
      from keeps_nth [OF k, of t] tn obj have f: "n_type (F ! t) = t_object" "t < length F" by (auto simp: type_le_def)
      have "promised ps' (?c, ?h) t \<le> u_length (F ! t)" "promised_names (?c, ?h) t \<le> u_names (F ! t)"
        using fits tn by (simp_all add: fits_final_def)
      then have pr: "u_length (nodes h ! t) + 1 \<le> u_length (F ! t)"
        "u_names (nodes h ! t) + (string_length c + 1) \<le> u_names (F ! t)"
        using tn t obj by (auto simp: promised_simps owes_def)
      have n2: "n_type (nodes h2 ! t) = t_object" "u_length (nodes h2 ! t) = u_length (nodes h ! t)"
        "cap_length (nodes h2 ! t) = u_length (F ! t)" using node f by (auto simp: node_sim_def)
      have "string_length c < string_cap h2" using s str t(1) f pr by (simp add: sim_def)
      with n2 pr t(1) have "end_string False (clear_num c, h2) = Some (Continue (clear_num ?c,
          set_node t (\<lambda>v. v\<lparr>u_names := u_names v + (string_length c + 1), n_names := n_names v @ [string_buf h2]\<rparr>) h2))"
        by (simp add: end_string_def clear_num_def advance_def)
      moreover have "sim F (?c, ?h)
          (set_node t (\<lambda>v. v\<lparr>u_names := u_names v + (string_length c + 1), n_names := n_names v @ [string_buf h2]\<rparr>) h2)"
        using s tn node f by (auto simp: sim_def nth_update_if node_sim_def)
      ultimately show ?thesis by (auto simp: follows_def)
    qed
    then show ?thesis unfolding first option.case flow.case prod.case by blast
  qed
qed

lemma string_step_second:
  assumes ok: "pass_ok json (c, h) ps" and str: "flag_string c" and b: "b = char_at json (ptr c)" and s: "sim F (c, h) h2"
  shows "case string_step True json b (c, h) of
      Some (Continue (c', h')) \<Rightarrow> \<forall>ps'. fits_final F ps' (c', h') \<longrightarrow>
        (\<exists>r. string_step False json b (clear_num c, h2) = Some r \<and> follows grants F r (c', h'))
    | Some (Value_Done (c', h')) \<Rightarrow> \<forall>ps'. fits_final F ps' (c', h') \<longrightarrow>
        (\<exists>h2'. string_step False json b (clear_num c, h2) = Some (Value_Done (clear_num c', h2')) \<and> sim F (c', h') h2')
    | Some (Pass_End s') \<Rightarrow> False | None \<Rightarrow> False | _ \<Rightarrow> True"
proof (cases "b = CHR 0x00 \<or> uint_max < string_length c")
  case True
  then show ?thesis by (auto simp: string_step_def)
next
  case False
  have le: "ptr c \<le> length json" using ok by (simp add: pass_ok_def)
  with False b char_at_less have p: "ptr c < length json" by blast
  obtain t where t: "top_value c = Some t" "chain (nodes h) t ps" "n_type (nodes h ! t) \<in> {t_string, t_object}"
    using ok str by (auto simp: pass_ok_def mode_ok_def split: option.splits)
  from chain_less [OF t(2)] have tn: "t < length (nodes h)" by simp
  have add: "case string_add True n bs (c1, h) of
      Continue (c', h') \<Rightarrow> \<forall>ps'. fits_final F ps' (c', h') \<longrightarrow> follows grants F (string_add False n bs (clear_num c1, h2)) (c', h')
    | _ \<Rightarrow> False" if "flag_string c1" "top_value c1 = Some t" "length bs = n" for c1 n bs
    using string_add_second [OF _ s str that(1,3) t(1) that(2) tn t(3)] by (auto simp: string_add_def [of True])
  consider (unicode) "flag_escaped c" "b = CHR ''u''" | (escape) "flag_escaped c" "b \<noteq> CHR ''u''"
    | (backslash) "\<not> flag_escaped c" "b = CHR 0x5C" | (close) "\<not> flag_escaped c" "b = CHR 0x22"
    | (plain) "\<not> flag_escaped c" "b \<noteq> CHR 0x5C" "b \<noteq> CHR 0x22" by blast
  then show ?thesis
  proof cases
    case unicode
    show ?thesis
    proof (cases "unicode_escape json (ptr c)")
      case None
      with unicode False show ?thesis by (simp add: string_step_def Let_def)
    next
      case (Some uq)
      obtain u q where uq: "uq = (u, q)" by (cases uq)
      let ?c1 = "c\<lparr>flag_escaped := False, ptr := q + 1\<rparr>"
      have e: "string_step f json b (c0, h0) = Some (string_add f (utf8_length u) (utf8_bytes u)
          (c0\<lparr>flag_escaped := False, ptr := q + 1\<rparr>, h0))"
        if "ptr c0 = ptr c" "string_length c0 = string_length c" "flag_escaped c0" for f c0 h0
        using that unicode False Some uq by (simp add: string_step_def Let_def)
      have "clear_num ?c1 = (clear_num c)\<lparr>flag_escaped := False, ptr := q + 1\<rparr>" by (simp add: clear_num_def)
      with add [of ?c1 "utf8_bytes u" "utf8_length u"] str t(1) unicode(1) show ?thesis
        by (auto simp: e length_utf8_bytes string_add_def [of True])
    qed
  next
    case escape
    let ?c1 = "advance 1 (c\<lparr>flag_escaped := False\<rparr>)"
    have e: "string_step f json b (c0, h0) = Some (string_add f 1 [escaped_char b] (advance 1 (c0\<lparr>flag_escaped := False\<rparr>), h0))"
      if "string_length c0 = string_length c" "flag_escaped c0" for f c0 h0
      using that escape False by (simp add: string_step_def Let_def)
    have "clear_num ?c1 = advance 1 ((clear_num c)\<lparr>flag_escaped := False\<rparr>)" by (simp add: clear_num_def advance_def)
    with add [of ?c1 "[escaped_char b]" 1] str t(1) escape(1) show ?thesis
      by (auto simp: e string_add_def [of True])
  next
    case backslash
    let ?c = "advance 1 (c\<lparr>flag_escaped := True\<rparr>)"
    have "string_step f json b (c0, h0) = Some (Continue (advance 1 (c0\<lparr>flag_escaped := True\<rparr>), h0))"
      if "string_length c0 = string_length c" "\<not> flag_escaped c0" for f c0 h0
      using that backslash False by (simp add: string_step_def)
    moreover have "clear_num ?c = advance 1 ((clear_num c)\<lparr>flag_escaped := True\<rparr>)" by (simp add: clear_num_def advance_def)
    moreover have "sim F (?c, h) h2" by (rule sim_cursor [OF s]) simp
    ultimately show ?thesis using backslash(1) by (auto simp: follows_def)
  next
    case close
    have "string_step f json b (c0, h0) = end_string f (c0, h0)"
      if "string_length c0 = string_length c" "\<not> flag_escaped c0" for f c0 h0
      using that close False by (simp add: string_step_def)
    with end_string_second [OF ok str p s, of grants] close(1) show ?thesis by (auto split: option.splits flow.splits)
  next
    case plain
    have e: "string_step f json b (c0, h0) = Some (string_add f 1 [b] (advance 1 c0, h0))"
      if "string_length c0 = string_length c" "\<not> flag_escaped c0" for f c0 h0
      using that plain False by (simp add: string_step_def)
    have "clear_num (advance 1 c) = advance 1 (clear_num c)" by (simp add: clear_num_def advance_def)
    with add [of "advance 1 c" "[b]" 1] str t(1) plain(1) show ?thesis
      by (auto simp: e string_add_def [of True])
  qed
qed

text \<open>The steps of both passes side by side.\<close>

definition step_follows :: "(nat \<Rightarrow> bool) \<Rightarrow> jnode list \<Rightarrow> flow \<Rightarrow> flow \<Rightarrow> bool" where
  "step_follows grants F r1 r2 \<longleftrightarrow> (case r1 of
     Continue s' \<Rightarrow> (\<exists>ps'. fits_final F ps' s') \<longrightarrow> follows grants F r2 s'
   | Value_Done s' \<Rightarrow> (\<exists>ps'. fits_final F ps' s') \<longrightarrow> (r2 = e_alloc_failure \<and> \<not> (\<forall>n. grants n))
       \<or> (\<exists>h2'. r2 = Value_Done (clear_num (fst s'), h2') \<and> sim F s' h2')
   | Pass_End s' \<Rightarrow> \<exists>h2'. r2 = Pass_End (clear_num (fst s'), h2') \<and> sim F s' h2'
   | _ \<Rightarrow> True)"

lemma step_follows_fail [simp]:
  "step_follows grants F e_failed r" "step_follows grants F e_unknown_value r" "step_follows grants F e_alloc_failure r"
  "step_follows grants F e_overflow r" "step_follows grants F (Fault e) r"
  by (simp_all add: step_follows_def)

lemma step_follows_if:
  "(b \<Longrightarrow> step_follows grants F x x2) \<Longrightarrow> (\<not> b \<Longrightarrow> step_follows grants F y y2) \<Longrightarrow>
   step_follows grants F (if b then x else y) (if b then x2 else y2)"
  by simp

lemma step_follows_continue:
  "sim F (c, h) h2 \<Longrightarrow> c2 = clear_num c \<Longrightarrow> step_follows grants F (Continue (c, h)) (Continue (c2, h2))"
  by (auto simp: step_follows_def follows_def)

lemma step_follows_done:
  "sim F (c, h) h2 \<Longrightarrow> c2 = clear_num c \<Longrightarrow> step_follows grants F (Value_Done (c, h)) (Value_Done (c2, h2))"
  by (auto simp: step_follows_def)

lemma clear_num_advance [simp]: "clear_num (advance n c) = advance n (clear_num c)"
  by (simp add: clear_num_def advance_def)

lemma clear_num_update [simp]:
  "clear_num (flag_need_comma_update f c) = flag_need_comma_update f (clear_num c)"
  "clear_num (flag_seek_value_update f c) = flag_seek_value_update f (clear_num c)"
  "clear_num (flag_string_update f c) = flag_string_update f (clear_num c)"
  "clear_num (flag_need_colon_update f c) = flag_need_colon_update f (clear_num c)"
  "clear_num (string_length_update g c) = string_length_update g (clear_num c)"
  "clear_num (top_value_update k c) = top_value_update k (clear_num c)"
  by (simp_all add: clear_num_def)

lemma sim_set_node:
  assumes "sim F (c, h) h2" "t < length (nodes h)" "keeps (nodes h) F"
    and "\<And>v. u_length (f v) = u_length v \<and> u_names (f v) = u_names v"
    and "\<And>v. u_length (f2 v) = u_length v \<and> u_names (f2 v) = u_names v \<and> n_type (f2 v) = n_type v
      \<and> n_parent (f2 v) = n_parent v \<and> cap_length (f2 v) = cap_length v \<and> cap_names (f2 v) = cap_names v"
  shows "sim F (c, set_node t f h) (set_node t f2 h2)"
  using assms keeps_nth [OF assms(3,2)] by (auto simp: sim_def nth_update_if node_sim_def)

lemma sim_type:
  "sim F (c, h) h2 \<Longrightarrow> keeps (nodes h) F \<Longrightarrow> t < length (nodes h) \<Longrightarrow> n_type (nodes h ! t) \<notin> {t_integer, t_double} \<Longrightarrow>
   n_type (nodes h2 ! t) = n_type (nodes h ! t)"
  using keeps_nth [of "nodes h" F t] by (auto simp: sim_def node_sim_def type_le_def)

lemma object_step_second:
  assumes s: "sim F (c, h) h2" and kF: "keeps (nodes h) F" and t: "top_value c = Some t" "t < length (nodes h)"
      "n_type (nodes h ! t) = t_object"
    and str: "\<not> flag_string c"
  shows "step_follows grants F (object_step b t (c, h)) (object_step b t (clear_num c, h2))"
proof -
  have name: "step_follows grants F
      (Continue (advance 1 (c\<lparr>flag_string := True, string_length := 0\<rparr>),
         h\<lparr>string_buf := [], string_cap := cap_names (nodes h ! t) - u_names (nodes h ! t)\<rparr>))
      (Continue (advance 1 ((clear_num c)\<lparr>flag_string := True, string_length := 0\<rparr>),
         h2\<lparr>string_buf := [], string_cap := cap_names (nodes h2 ! t) - u_names (nodes h2 ! t)\<rparr>))"
    (is "step_follows grants F (Continue (?c, ?h)) (Continue (?c2, ?h2))")
  proof -
    have "sim F (?c, ?h) ?h2" if fits: "fits_final F ps' (?c, ?h)" for ps'
    proof -
      have "promised ps' (?c, ?h) t \<le> u_length (F ! t)" using fits t(2) by (simp add: fits_final_def)
      then have "0 < u_length (F ! t)" using t by (simp add: promised_simps owes_def)
      moreover have "n_type (F ! t) = t_object" using keeps_nth [OF kF t(2)] t(3) by (auto simp: type_le_def)
      moreover have "node_sim (nodes h ! t) (nodes h2 ! t) (F ! t)" using s t(2) by (simp add: sim_def)
      ultimately have "cap_names (nodes h2 ! t) - u_names (nodes h2 ! t) = u_names (F ! t) - u_names (nodes h ! t)"
        "n_type (F ! t) \<noteq> t_string" by (auto simp: node_sim_def)
      with s t(1) show ?thesis by (simp add: sim_def)
    qed
    then show ?thesis by (auto simp: step_follows_def follows_def)
  qed
  have stay: "sim F (c', h) h2" if "\<not> flag_string c'" for c' by (rule sim_cursor [OF s]) (use that in simp)
  show ?thesis
    unfolding object_step_def prod.case clear_num_simps
    by (intro step_follows_if name step_follows_fail step_follows_continue step_follows_done stay) (simp_all add: str)
qed

lemma with_new_second:
  assumes s: "sim F (c, h) h2" and n: "length (nodes h) < length F" and str: "\<not> flag_string c"
  shows "(with_new False grants ty2 (c2, h2) k = e_alloc_failure \<and> \<not> (\<forall>n. grants n))
    \<or> (\<exists>h2'. with_new False grants ty2 (c2, h2) k = k (length (nodes h)) (c2\<lparr>top_value := Some (length (nodes h))\<rparr>, h2')
        \<and> sim F (c, with_node ty par h) h2')"
proof -
  have i: "nodes h2 ! length (nodes h) = F ! length (nodes h)" "next_value h2 = length (nodes h)" "length (nodes h2) = length F"
    using s n by (auto simp: sim_def)
  show ?thesis
  proof (cases "allocate_parts grants (F ! length (nodes h))")
    case None
    then have "\<not> (\<forall>n. grants n)" by (auto simp: allocate_parts_def split: jtype.splits if_splits)
    with None i n show ?thesis by (simp add: with_new_def new_value_def)
  next
    case (Some v)
    let ?h = "h2\<lparr>nodes := (nodes h2)[length (nodes h) := v], next_value := length (nodes h) + 1\<rparr>"
    have "node_sim (new_node ty par) v (F ! length (nodes h))" by (rule allocate_parts_sim [OF Some]) simp
    then have "sim F (c, with_node ty par h) ?h"
      using s n str by (auto simp: sim_def nth_append nth_update_if less_Suc_eq)
    with Some i n show ?thesis by (auto simp: with_new_def new_value_def)
  qed
qed

text \<open>A value created by both passes.\<close>

lemma step_follows_new:
  assumes s: "sim F (c, h) h2" and R: "R = Continue \<or> R = Value_Done" and str: "\<not> flag_string c1"
    and r1: "k (length (nodes h)) (c1\<lparr>top_value := Some (length (nodes h))\<rparr>, with_node ty (top_value c1) h) = R (c', h')"
    and h': "nodes h' = nodes h @ [v]" "n_type v = ty"
    and r2: "\<And>h2'. k2 (length (nodes h)) (c2\<lparr>top_value := Some (length (nodes h))\<rparr>, h2') = R (clear_num c', upd h2')"
    and next_sim: "\<And>h2'. sim F (c1\<lparr>top_value := Some (length (nodes h))\<rparr>, with_node ty (top_value c1) h) h2' \<Longrightarrow>
      keeps (nodes h') F \<Longrightarrow> sim F (c', h') (upd h2')"
  shows "step_follows grants F (with_new True grants ty (c1, h) k) (with_new False grants ty (c2, h2) k2)"
proof (cases "grants SIZEOF_JSON_OBJECT")
  case False
  then show ?thesis by (simp add: with_new_first)
next
  case True
  then have e: "with_new True grants ty (c1, h) k = R (c', h')" by (simp add: with_new_first r1)
  let ?c1 = "c1\<lparr>top_value := Some (length (nodes h))\<rparr>"
  have "(with_new False grants ty (c2, h2) k2 = e_alloc_failure \<and> \<not> (\<forall>n. grants n))
      \<or> (\<exists>h2'. with_new False grants ty (c2, h2) k2 = R (clear_num c', h2') \<and> sim F (c', h') h2')"
    if fits: "fits_final F ps' (c', h')" for ps'
  proof -
    from fits have k: "keeps (nodes h') F" by (simp add: fits_final_def)
    with h' have n: "length (nodes h) < length F" by (simp add: keeps_def)
    have "sim F (?c1, h) h2" by (rule sim_cursor [OF s]) (simp add: str)
    from with_new_second [OF this n, of grants ty c2 k2 ty "top_value c1"] str r2 next_sim k
    show ?thesis by fastforce
  qed
  with e R show ?thesis by (elim disjE) (auto simp: step_follows_def follows_def)
qed

lemma sim_node: "sim F (c, h) h2 \<Longrightarrow> i < length (nodes h) \<Longrightarrow> node_sim (nodes h ! i) (nodes h2 ! i) (F ! i)"
  by (simp add: sim_def)

lemma sim_new_string:
  assumes s: "sim F (c, with_node t_string par h) h2" and k: "keeps (nodes h @ [new_node t_string par]) F"
    and top: "top_value c' = Some (length (nodes h))"
  shows "sim F (c', (with_node t_string par h)\<lparr>string_buf := [], string_cap := n\<rparr>)
    (h2\<lparr>string_buf := [], string_cap := cap_length (nodes h2 ! length (nodes h))\<rparr>)"
proof -
  let ?n = "length (nodes h)"
  from keeps_nth [OF k, of ?n] have f: "n_type (F ! ?n) = t_string" by (simp add: nth_append type_le_def)
  have "node_sim (nodes (with_node t_string par h) ! ?n) (nodes h2 ! ?n) (F ! ?n)"
    by (rule sim_node [OF s]) simp
  with f have "cap_length (nodes h2 ! ?n) = u_length (F ! ?n) + 1" by (simp add: node_sim_def)
  with s f top show ?thesis by (simp add: sim_def)
qed

lemma sim_new_boolean:
  assumes s: "sim F (c, with_node ty par h) h2" and k: "keeps (nodes h @ [(new_node ty par)\<lparr>u_boolean := n\<rparr>]) F"
    and str: "\<not> flag_string c'"
  shows "sim F (c', set_node (length (nodes h)) (\<lambda>v. v\<lparr>u_boolean := n\<rparr>) (with_node ty par h))
    (set_node (length (nodes h)) (\<lambda>v. v\<lparr>u_boolean := n\<rparr>) h2)"
proof -
  have "keeps (nodes (with_node ty par h)) (nodes h @ [(new_node ty par)\<lparr>u_boolean := n\<rparr>])"
    by (auto simp: keeps_def nth_append)
  from keeps_trans [OF this k] have "keeps (nodes (with_node ty par h)) F" .
  with sim_cursor [OF s, of c'] str show ?thesis by (intro sim_set_node) simp_all
qed

lemma seek_step_second:
  assumes s: "sim F (c, h) h2" and kF: "keeps (nodes h) F" and ok: "pass_ok json (c, h) ps" and seek: "flag_seek_value c"
    and b: "\<not> (is_digit b \<or> b = CHR ''-'')"
  shows "step_follows grants F (seek_step True grants json b (c, h)) (seek_step False grants json b (clear_num c, h2))"
proof -
  note m = seek_mode [OF ok seek]
  have stay: "sim F (c', h) h2" if "\<not> flag_string c'" for c' by (rule sim_cursor [OF s]) (use that in simp)
  have close: "step_follows grants F
      (case top_value c of None \<Rightarrow> e_failed | Some t \<Rightarrow> if n_type (nodes h ! t) = t_array
         then Value_Done (advance 1 (c\<lparr>flag_need_comma := False, flag_seek_value := False\<rparr>), h) else e_failed)
      (case top_value c of None \<Rightarrow> e_failed | Some t \<Rightarrow> if n_type (nodes h2 ! t) = t_array
         then Value_Done (advance 1 ((clear_num c)\<lparr>flag_need_comma := False, flag_seek_value := False\<rparr>), h2) else e_failed)"
  proof (cases "top_value c")
    case (Some t)
    from seek_top [OF ok seek this] have t: "t < length (nodes h)" "n_type (nodes h ! t) \<in> {t_array, t_object}"
      using chain_less by blast+
    with sim_type [OF s kF t(1)] have "n_type (nodes h2 ! t) = n_type (nodes h ! t)" by auto
    with Some show ?thesis by (auto intro!: step_follows_done stay simp: m)
  qed simp
  show ?thesis
    unfolding seek_step_def prod.case clear_num_simps Let_def
    apply (intro step_follows_if close step_follows_fail)
    subgoal by (intro step_follows_continue stay) (simp_all add: m)
    subgoal by (intro step_follows_continue stay) (simp_all add: m)
    subgoal by (intro step_follows_continue stay) (simp_all add: m)
    subgoal by (rule step_follows_new [where R = Continue and upd = "\<lambda>h2'. h2'", OF s disjI1 [OF refl]],
      simp add: m, simp only: prod.case, simp_all add: m) (auto simp: m elim: sim_cursor)
    subgoal by (rule step_follows_new [where R = Continue and upd = "\<lambda>h2'. h2'", OF s disjI1 [OF refl]],
      simp add: m, simp only: prod.case, simp_all add: m) (auto simp: m elim: sim_cursor)
    subgoal by (rule step_follows_new [where R = Continue and upd = "\<lambda>h2'. h2'\<lparr>string_buf := [], string_cap := cap_length (nodes h2' ! length (nodes h))\<rparr>", OF s disjI1 [OF refl]],
      simp add: m, simp only: prod.case, simp_all add: m) (simp, rule sim_new_string, simp_all)
    subgoal by (rule step_follows_new [where R = Value_Done and upd = "set_node (length (nodes h)) (\<lambda>v. v\<lparr>u_boolean := 1\<rparr>)", OF s disjI2 [OF refl]],
      simp add: m, simp only: prod.case, simp_all add: m) (simp, rule sim_new_boolean, simp_all add: m)
    subgoal by (rule step_follows_new [where R = Value_Done and upd = "\<lambda>h2'. h2'", OF s disjI2 [OF refl]],
      simp add: m, simp only: prod.case, simp_all add: m) (auto simp: m elim: sim_cursor)
    subgoal by (rule step_follows_new [where R = Value_Done and upd = "\<lambda>h2'. h2'", OF s disjI2 [OF refl]],
      simp add: m, simp only: prod.case, simp_all add: m) (auto simp: m elim: sim_cursor)
    using b by simp_all
qed

section \<open>Numbers\<close>

text \<open>Where the second pass jumps to.\<close>

definition number_end :: "string \<Rightarrow> nat \<Rightarrow> nat" where
  "number_end json p = p + length (takeWhile number_char (drop p json))"

lemma number_end_step: "p < length json \<Longrightarrow> number_char (json ! p) \<Longrightarrow> number_end json p = number_end json (p + 1)"
  by (simp add: number_end_def Cons_nth_drop_Suc [symmetric])

lemma number_end_stop: "p \<le> length json \<Longrightarrow> \<not> number_char (char_at json p) \<Longrightarrow> number_end json p = p"
  by (cases "p = length json") (simp_all add: number_end_def char_at_def Cons_nth_drop_Suc [symmetric])

text \<open>The first pass is inside a number; the second has jumped over it, and has its value complete.\<close>

definition number_ahead :: "jnode list \<Rightarrow> string \<Rightarrow> jstate \<Rightarrow> jstate \<Rightarrow> bool" where
  "number_ahead F json s s2 \<longleftrightarrow> (case s of (c, h) \<Rightarrow>
     \<not> flag_seek_value c \<and> \<not> flag_string c \<and> \<not> flag_done c
     \<and> (\<exists>t. top_value c = Some t \<and> n_type (nodes h ! t) \<in> {t_integer, t_double})
     \<and> fst s2 = (clear_num c)\<lparr>ptr := number_end json (ptr c)\<rparr> \<and> sim F (c, h) (snd s2))"

lemma seek_step_number:
  assumes b: "is_digit b \<or> b = CHR ''-''"
  shows "seek_step f grants json b (c, h) =
    (if flag_need_comma c \<or> flag_need_colon c then e_failed
     else with_new f grants t_integer (c\<lparr>flag_seek_value := False\<rparr>, h) (\<lambda>t. number_start f json b))"
proof -
  have "\<not> is_blank b" "b \<noteq> CHR '']''" "b \<noteq> CHR '',''" "b \<noteq> CHR '':''" "b \<noteq> CHR ''{''" "b \<noteq> CHR ''[''" "b \<noteq> CHR 0x22"
    "b \<noteq> CHR ''t''" "b \<noteq> CHR ''f''" "b \<noteq> CHR ''n''"
    using b by (auto simp: is_blank_def is_digit_def)
  with b show ?thesis unfolding seek_step_def Let_def prod.case by simp
qed

lemma seek_number_continues:
  "is_digit b \<or> b = CHR ''-'' \<Longrightarrow> seek_step True grants json b (c, h) \<noteq> Value_Done s"
  by (simp add: seek_step_number with_new_first number_start_def Let_def)

lemma number_start_second:
  assumes s: "sim F (c, h) h2" and ok: "pass_ok json (c, h) ps" and seek: "flag_seek_value c"
    and b: "is_digit b \<or> b = CHR ''-''" "b = char_at json (ptr c)"
    and first: "seek_step True grants json b (c, h) = Continue s'" and fits: "fits_final F ps' s'"
  shows "(seek_step False grants json b (clear_num c, h2) = e_alloc_failure \<and> \<not> (\<forall>n. grants n))
    \<or> (\<exists>s2'. seek_step False grants json b (clear_num c, h2) = Value_Done s2' \<and> number_ahead F json s' s2')"
proof -
  note m = seek_mode [OF ok seek]
  have nb: "b \<noteq> CHR 0x00" "number_char b"
    using b(1) by (auto simp: is_digit_def number_char_def)
  have p: "ptr c < length json" using char_at_less [OF m(3)] nb b(2) by simp
  note e = seek_step_number [OF b(1)]
  let ?n = "length (nodes h)" and ?c = "c\<lparr>flag_seek_value := False\<rparr>"
  obtain need: "\<not> flag_need_comma c" "\<not> flag_need_colon c" and g: "grants SIZEOF_JSON_OBJECT"
    and s': "number_start True json b (?c\<lparr>top_value := Some ?n\<rparr>, with_node t_integer (top_value c) h) = Continue s'"
    using first by (auto simp: e with_new_first split: if_splits)
  obtain c1 h1 where c1: "s' = (c1, h1)" by (cases s')
  have h1: "h1 = with_node t_integer (top_value c) h" and top: "top_value c1 = Some ?n" "\<not> flag_seek_value c1"
      "\<not> flag_string c1" "\<not> flag_done c1"
    and clear: "(clear_num c1)\<lparr>ptr := q\<rparr> = (clear_num c)\<lparr>flag_seek_value := False, top_value := Some ?n, ptr := q\<rparr>"
    and jump: "number_end json (ptr c1) = number_end json (ptr c)" for q
    using s' m nb(2) b(2) p number_end_step [of "ptr c" json]
    by (auto simp: c1 number_start_def Let_def clear_num_def advance_def char_at_def split: if_splits)
  have k: "?n < length F" using fits by (auto simp: fits_final_def c1 h1 keeps_def)
  have "sim F (c1, h) h2" by (rule sim_cursor [OF s]) (simp add: top)
  from with_new_second [OF this k top(3), of grants t_integer "(clear_num c)\<lparr>flag_seek_value := False\<rparr>"
      "\<lambda>t. number_start False json b" t_integer "top_value c"]
  show ?thesis
    using need top by (auto simp: e number_ahead_def c1 h1 clear jump [unfolded number_end_def] number_start_def number_end_def advance_def)
qed


text \<open>A character of the number moves the first pass on; at the end of it the value is complete there too.\<close>

lemma number_step_ahead:
  assumes ok: "pass_ok json (c, h) ps" and ahead: "number_ahead F json (c, h) s2" and t: "top_value c = Some t"
    and kF: "keeps (nodes h) F" and step: "number_step (char_at json (ptr c)) t (c, h) = Continue s'"
  shows "number_ahead F json s' s2"
proof -
  let ?b = "char_at json (ptr c)"
  have le: "ptr c \<le> length json" using ok by (simp add: pass_ok_def)
  have nb: "number_char ?b" using step
    by (auto simp: number_step_def number_char_def end_number_def Let_def split: if_splits)
  then have "?b \<noteq> CHR 0x00" by (auto simp: number_char_def is_digit_def)
  with le char_at_less have p: "ptr c < length json" by blast
  with nb number_end_step [of "ptr c" json] have q: "number_end json (ptr c + 1) = number_end json (ptr c)"
    by (simp add: char_at_def)
  have tn: "t < length (nodes h)" using ok t chain_less by (fastforce simp: pass_ok_def)
  obtain c' h' where s': "s' = (c', h')" by (cases s')
  have c': "ptr c' = ptr c + 1" "clear_num c' = advance 1 (clear_num c)"
    and h': "h' = h \<or> h' = set_node t (\<lambda>v. v\<lparr>n_type := t_double\<rparr>) h
      \<or> h' = set_node t (\<lambda>v. v\<lparr>u_integer := u_integer v * 10 + of_nat (digit_val ?b)\<rparr>) h"
    using step by (auto simp: s' number_step_def end_number_def Let_def clear_num_def advance_def split: if_splits)
  from c'(2) have flags: "flag_seek_value c' = flag_seek_value c" "flag_string c' = flag_string c" "flag_done c' = flag_done c"
      "top_value c' = top_value c"
    by (metis clear_num_simps advance_simps)+
  have s: "sim F (c, h) (snd s2)" and ty: "n_type (nodes h ! t) \<in> {t_integer, t_double}" and c: "\<not> flag_string c"
    and s2: "fst s2 = (clear_num c)\<lparr>ptr := number_end json (ptr c)\<rparr>" using ahead t by (auto simp: number_ahead_def)
  have "sim F (c', h') (snd s2)"
  proof -
    have "sim F (c', h) (snd s2)" by (rule sim_cursor [OF s]) (simp add: flags c)
    then have "sim F (c', set_node t f h) (set_node t (\<lambda>v. v) (snd s2))"
      if "\<And>v. u_length (f v) = u_length v \<and> u_names (f v) = u_names v" for f
      using tn kF that by (rule sim_set_node) simp
    with h' \<open>sim F (c', h) (snd s2)\<close> show ?thesis by auto
  qed
  moreover have "n_type (nodes h' ! t) \<in> {t_integer, t_double}" using h' tn ty by (auto simp: nth_update_if)
  moreover have "fst s2 = (clear_num c')\<lparr>ptr := number_end json (ptr c')\<rparr>"
    by (simp add: s2 c' q [simplified]) 
  ultimately show ?thesis using ahead flags t by (auto simp: number_ahead_def s')
qed

text \<open>A value is complete: linked to its parent, or the text goes on with a character no value is followed by.\<close>

lemma number_char_stuck:
  assumes c: "flag_need_comma c" "\<not> flag_string c" and b: "number_char (char_at json (ptr c))" and le: "ptr c \<le> length json"
    and mode: "flag_done c \<or> flag_seek_value c \<or> (\<exists>t. top_value c = Some t \<and> n_type (nodes h ! t) = t_object)"
  shows "json_step first_pass grants json (c, h) = e_failed"
proof -
  let ?b = "char_at json (ptr c)"
  have nb: "\<not> is_blank ?b" "?b \<noteq> CHR '']''" "?b \<noteq> CHR '',''" "?b \<noteq> CHR ''}''" "?b \<noteq> CHR 0x22" "?b \<noteq> CHR 0x00"
    using b by (auto simp: is_blank_def is_digit_def number_char_def)
  have "value_step first_pass grants json ?b (c, h) = e_failed"
    using mode c(1) nb by (auto simp: value_step_def seek_step_def object_step_def Let_def)
  with c(2) le show ?thesis by (simp add: json_step_eq)
qed

lemma chain_parent:
  "chain ns t ps \<Longrightarrow> n_parent (ns ! t) = Some p \<Longrightarrow> n_type (ns ! p) \<in> {t_object, t_array} \<and> p < length ns"
  by (cases ps) auto

lemma number_end_ahead:
  assumes ok: "pass_ok json (c, h) ps" and ahead: "number_ahead F json (c, h) s2" and t: "top_value c = Some t"
    and kF: "keeps (nodes h) F" and step: "number_step (char_at json (ptr c)) t (c, h) = Value_Done s1"
    and link: "value_done True s1 = Continue s'" and fits: "fits_final F ps' s'"
  shows "(\<exists>h2'. value_done False s2 = Continue (clear_num (fst s'), h2') \<and> sim F s' h2')
    \<or> json_step True grants json s' = e_failed"
proof -
  let ?b = "char_at json (ptr c)"
  have tn: "t < length (nodes h)" using ok t chain_less by (fastforce simp: pass_ok_def)
  have s: "sim F (c, h) (snd s2)" and ty: "n_type (nodes h ! t) \<in> {t_integer, t_double}"
    and c: "\<not> flag_string c" "\<not> flag_seek_value c" "\<not> flag_done c"
    and s2: "fst s2 = (clear_num c)\<lparr>ptr := number_end json (ptr c)\<rparr>" using ahead t by (auto simp: number_ahead_def)
  obtain h1 where s1: "s1 = (c, h1)" and h1: "h1 = h \<or> h1 = set_node t (\<lambda>v. v\<lparr>u_integer := - u_integer v\<rparr>) h"
    using step by (auto simp: number_step_def end_number_def Let_def split: if_splits)
  have "step_ok json (c, h) ps (Value_Done s1)"
    using number_step_ok [OF ok t ty c(2,1,3) refl] step by simp
  then obtain ps1 where ready: "value_ready json (c, h1) ps1" by (auto simp: step_ok_def s1)
  show ?thesis
  proof (cases "number_char ?b")
    case False
    have "ptr c \<le> length json" using ok by (simp add: pass_ok_def)
    with False have "fst s2 = clear_num c" using s2 by (simp add: number_end_stop clear_num_def)
    moreover have "sim F (c, h1) (snd s2)"
      using h1 sim_set_node [OF s tn kF, of "\<lambda>v. v\<lparr>u_integer := - u_integer v\<rparr>" "\<lambda>v. v"] s by auto
    ultimately show ?thesis
      using value_done_second [OF ready, of "fst s'" "snd s'" F ps' "snd s2"] link fits by (cases s2) (auto simp: s1)
  next
    case True
    have "json_step True grants json (fst s', snd s') = e_failed"
    proof (rule number_char_stuck)
    qed (use link ready True in \<open>auto simp: s1 value_done_def value_ready_def Let_def nth_update_if
        dest: chain_parent split: option.splits if_splits\<close>)
    then show ?thesis by simp
  qed
qed

section \<open>Both passes\<close>

definition in_number :: "jstate \<Rightarrow> bool" where
  "in_number s \<longleftrightarrow> (case s of (c, h) \<Rightarrow> \<not> flag_seek_value c \<and> \<not> flag_string c \<and> \<not> flag_done c
     \<and> (\<exists>t. top_value c = Some t \<and> n_type (nodes h ! t) \<in> {t_integer, t_double}))"

text \<open>Outside numbers, the general cases of the loop.\<close>

lemma value_step_second:
  assumes ok: "pass_ok json (c, h) ps" and s: "sim F (c, h) h2" and kF: "keeps (nodes h) F" and str: "\<not> flag_string c"
    and num: "\<not> in_number (c, h)" and b: "\<not> (flag_seek_value c \<and> (is_digit b \<or> b = CHR ''-''))"
  shows "step_follows grants F (value_step True grants json b (c, h)) (value_step False grants json b (clear_num c, h2))"
proof -
  have stay: "sim F (c', h) h2" if "\<not> flag_string c'" for c' by (rule sim_cursor [OF s]) (use that in simp)
  show ?thesis
  proof (cases "flag_done c")
    case True
    then show ?thesis using s
      by (auto simp: value_step_def step_follows_def follows_def str intro!: exI [of _ h2] stay)
  next
    case False
    show ?thesis
    proof (cases "flag_seek_value c")
      case True
      with False seek_step_second [OF s kF ok True] b show ?thesis by (simp add: value_step_def)
    next
      case seek: False
      with False str num ok obtain t where t: "top_value c = Some t" "n_type (nodes h ! t) = t_object" "t < length (nodes h)"
        using chain_less by (fastforce simp: pass_ok_def mode_ok_def in_number_def split: option.splits)
      with sim_type [OF s kF t(3)] have "n_type (nodes h2 ! t) = t_object" by simp
      with t False seek object_step_second [OF s kF t(1,3,2) str] show ?thesis by (simp add: value_step_def)
    qed
  qed
qed

text \<open>The link of a completed value, in both passes.\<close>

lemma step_follows_link:
  assumes ok: "step_ok json s ps r1" and sf: "step_follows grants F r1 r2"
    and link: "(case r1 of Value_Done s1 \<Rightarrow> value_done True s1 | _ \<Rightarrow> r1) = Continue s'"
    and fits: "\<And>ps'. pass_ok json s' ps' \<Longrightarrow> fits_final F ps' s'"
  shows "follows grants F (case r2 of Value_Done s2 \<Rightarrow> value_done False s2 | _ \<Rightarrow> r2) s'"
proof (cases r1)
  case (Continue s1)
  with link ok fits have "\<exists>ps'. fits_final F ps' s'" by (auto simp: step_ok_def)
  with Continue link sf have "follows grants F r2 s'" by (auto simp: step_follows_def)
  then show ?thesis by (auto simp: follows_def)
next
  case (Value_Done s1)
  with ok obtain ps1 where ready: "value_ready json (fst s1, snd s1) ps1" by (auto simp: step_ok_def)
  from Value_Done link have l: "value_done True (fst s1, snd s1) = Continue (fst s', snd s')" by simp
  from value_done_ok [OF ready] l obtain ps2 where s': "pass_ok json s' ps2" "grows ps1 s1 ps2 s'" by auto
  from fits_final_grows [OF s'(2) fits [OF s'(1)]] sf Value_Done
  have "(r2 = e_alloc_failure \<and> \<not> (\<forall>n. grants n)) \<or> (\<exists>h2'. r2 = Value_Done (clear_num (fst s1), h2') \<and> sim F (fst s1, snd s1) h2')"
    by (auto simp: step_follows_def)
  then show ?thesis
  proof (elim disjE exE conjE)
    fix h2' assume "r2 = Value_Done (clear_num (fst s1), h2')" "sim F (fst s1, snd s1) h2'"
    with value_done_second [OF ready l _ this(2), of ps2] fits [OF s'(1)] show ?thesis by (auto simp: follows_def)
  qed (simp add: follows_def)
qed (use link in simp_all)

text \<open>The first pass enters a number from where a value is sought only.\<close>

lemma value_done_leaves_number:
  assumes "value_ready json s ps" "value_done True s = Continue s'"
  shows "\<not> in_number s'"
proof -
  obtain c h where s: "s = (c, h)" by (cases s)
  with assms(1) obtain t where t: "top_value c = Some t" "chain (nodes h) t ps" by (auto simp: value_ready_def)
  show ?thesis
  proof (cases "n_parent (nodes h ! t)")
    case None
    with assms(2) t show ?thesis by (auto simp: s value_done_def in_number_def)
  next
    case (Some p)
    with chain_parent [OF t(2)] assms(2) t show ?thesis
      by (auto simp: s value_done_def in_number_def Let_def nth_update_if split: if_splits)
  qed
qed

lemma string_step_leaves_number:
  "flag_string c \<Longrightarrow> string_step True json b (c, h) = Some (Continue s') \<Longrightarrow> \<not> in_number s'"
  by (auto simp: string_step_def string_add_def end_string_def in_number_def Let_def split: option.splits if_splits jtype.splits)

lemma value_step_enters_number:
  assumes step: "value_step True grants json b (c, h) = Continue s'" and num: "\<not> in_number (c, h)" "in_number s'"
    and ok: "pass_ok json (c, h) ps" and str: "\<not> flag_string c"
  shows "flag_seek_value c \<and> (is_digit b \<or> b = CHR ''-'')"
proof (rule ccontr)
  assume no: "\<not> ?thesis"
  show False
  proof (cases "flag_seek_value c")
    case True
    with no step num seek_mode(2) [OF ok True] show False
      by (auto simp: value_step_def seek_step_def Let_def with_new_first in_number_def nth_append split: option.splits if_splits)
  next
    case False
    with step num str show False
      by (auto simp: value_step_def object_step_def in_number_def split: option.splits if_splits jtype.splits)
  qed
qed

lemma link_leaves_number:
  assumes "step_ok json s ps r1" "(case r1 of Value_Done s1 \<Rightarrow> value_done True s1 | _ \<Rightarrow> r1) = Continue s'"
    "r1 = Continue s' \<Longrightarrow> \<not> in_number s'"
  shows "\<not> in_number s'"
proof (cases r1)
  case (Value_Done s1)
  with assms obtain ps1 where "value_ready json s1 ps1" "value_done True s1 = Continue s'" by (auto simp: step_ok_def)
  then show ?thesis by (rule value_done_leaves_number)
qed (use assms in simp_all)

text \<open>An iteration outside numbers: the second pass does the same, or the first enters a number.\<close>

lemma json_step_second:
  assumes ok: "pass_ok json (c, h) ps" and s: "sim F (c, h) h2" and kF: "keeps (nodes h) F" and num: "\<not> in_number (c, h)"
    and step: "json_step True grants json (c, h) = Continue s'"
    and fits: "\<And>ps'. pass_ok json s' ps' \<Longrightarrow> fits_final F ps' s'"
  shows "(follows grants F (json_step False grants json (clear_num c, h2)) s'
      \<and> (json_step False grants json (clear_num c, h2) = e_alloc_failure \<or> \<not> in_number s'))
    \<or> (\<exists>s2. number_ahead F json s' s2 \<and> json_step False grants json (clear_num c, h2) = value_done False s2
          \<and> (kept False (clear_num c, h2) s2 \<or> made False (clear_num c, h2) s2))"
proof -
  let ?b = "char_at json (ptr c)"
  have le: "\<not> length json < ptr c" using ok by (simp add: pass_ok_def)
  show ?thesis
  proof (cases "flag_string c")
    case True
    from string_step_ok [OF ok True refl] obtain r1 where r1: "string_step True json ?b (c, h) = Some r1" "step_ok json (c, h) ps r1"
      by blast
    from step r1 True le have link: "(case r1 of Value_Done s1 \<Rightarrow> value_done True s1 | _ \<Rightarrow> r1) = Continue s'"
      by (simp add: json_step_eq)
    obtain r2 where r2: "string_step False json ?b (clear_num c, h2) = Some r2" "step_follows grants F r1 r2"
    proof (cases r1)
      case (Continue s1)
      with r1(2) link fits have "\<exists>ps'. fits_final F ps' (fst s1, snd s1)" by (auto simp: step_ok_def)
      with string_step_second [OF ok True refl s, of grants] r1(1) Continue that show ?thesis
        by (cases s1) (auto simp: step_follows_def)
    next
      case (Value_Done s1)
      with r1(2) obtain ps1 where ready: "value_ready json s1 ps1" by (auto simp: step_ok_def)
      from value_done_ok [OF ready] link Value_Done obtain ps2 where s': "pass_ok json s' ps2" "grows ps1 s1 ps2 s'" by auto
      from fits_final_grows [OF s'(2) fits [OF s'(1)]]
        string_step_second [OF ok True refl s, of grants] r1(1) Value_Done that show ?thesis
        by (cases s1) (auto simp: step_follows_def)
    qed (use link in simp_all)
    have "\<not> in_number s'" by (rule link_leaves_number [OF r1(2) link]) (use string_step_leaves_number r1(1) True in simp)
    with step_follows_link [OF r1(2) r2(2) link fits] r2(1) True le show ?thesis by (simp add: json_step_eq)
  next
    case str: False
    then have e: "json_step f grants json (c0, h0) = (case value_step f grants json ?b (c0, h0) of
        Value_Done s' \<Rightarrow> value_done f s' | _ \<Rightarrow> value_step f grants json ?b (c0, h0))"
      if "ptr c0 = ptr c" "flag_string c0 = flag_string c" for f c0 h0
      using that le by (simp add: json_step_eq Let_def split: flow.split)
    show ?thesis
    proof (cases "flag_seek_value c \<and> (is_digit ?b \<or> ?b = CHR ''-'')")
      case True
      then have v: "value_step f grants json ?b (c0, h0) = seek_step f grants json ?b (c0, h0)"
        if "flag_done c0 = flag_done c" "flag_seek_value c0 = flag_seek_value c" for f c0 h0
        using that seek_mode(2) [OF ok] by (simp add: value_step_def)
      have k: "seek_step True grants json ?b (c, h) = Continue s'"
        using step True seek_number_continues [of ?b grants json c h]
        by (auto simp: e v split: flow.splits)
      with seek_step_ok [OF ok _ refl, of grants] True obtain ps' where "fits_final F ps' s'"
        using fits by (auto simp: step_ok_def)
      from number_start_second [OF s ok _ _ refl k this] True
      have "(seek_step False grants json ?b (clear_num c, h2) = e_alloc_failure \<and> \<not> (\<forall>n. grants n))
        \<or> (\<exists>s2. seek_step False grants json ?b (clear_num c, h2) = Value_Done s2 \<and> number_ahead F json s' s2)" by blast
      then show ?thesis
      proof (elim disjE exE conjE)
        fix s2 assume "seek_step False grants json ?b (clear_num c, h2) = Value_Done s2" "number_ahead F json s' s2"
        moreover from this seek_step_shape [of "clear_num c" False h2 grants json ?b] True
        have "kept False (clear_num c, h2) s2 \<or> made False (clear_num c, h2) s2" by simp
        ultimately show ?thesis by (intro disjI2 exI [of _ s2]) (simp add: e v)
      qed (simp add: e v follows_def)
    next
      case False
      have link: "(case value_step True grants json ?b (c, h) of Value_Done s1 \<Rightarrow> value_done True s1
          | _ \<Rightarrow> value_step True grants json ?b (c, h)) = Continue s'" using step by (simp add: e)
      have "\<not> in_number s'"
        by (rule link_leaves_number [OF value_step_ok [OF ok str refl] link]) (use value_step_enters_number [OF _ num _ ok str] False in blast)
      with step_follows_link [OF value_step_ok [OF ok str refl] value_step_second [OF ok s kF str num False] link fits]
      show ?thesis by (simp add: e)
    qed
  qed
qed

lemma json_step_second_end:
  assumes ok: "pass_ok json (c, h) ps" and s: "sim F (c, h) h2" and kF: "keeps (nodes h) F"
    and step: "json_step True grants json (c, h) = Pass_End s'"
  shows "json_step False grants json (clear_num c, h2) = Pass_End (clear_num c, h2)"
proof -
  have le: "\<not> length json < ptr c" using ok by (simp add: pass_ok_def)
  from json_step_first [OF ok, of grants] step have s': "s' = (c, h)" "flag_done c" by auto
  with ok have str: "\<not> flag_string c" by (auto simp: pass_ok_def mode_ok_def split: option.splits)
  with s' step le have "char_at json (ptr c) = CHR 0x00" by (auto simp: json_step_eq value_step_def split: if_splits)
  with s' str le show ?thesis by (simp add: json_step_eq value_step_def)
qed

lemma json_pass_more: "json_pass fuel first_pass grants json s = Some r \<Longrightarrow> json_pass (Suc fuel) first_pass grants json s = Some r"
proof (induction fuel arbitrary: s)
  case (Suc fuel)
  from Suc.prems have "(case json_step first_pass grants json s of
      Continue s' \<Rightarrow> json_pass fuel first_pass grants json s' | r \<Rightarrow> Some r) = Some r" by simp
  with Suc.IH have "(case json_step first_pass grants json s of
      Continue s' \<Rightarrow> json_pass (Suc fuel) first_pass grants json s' | r \<Rightarrow> Some r) = Some r"
    by (auto simp del: json_pass.simps split: flow.splits)
  then show ?case by (simp only: json_pass.simps(2) [of "Suc fuel"])
qed simp

text \<open>A pass of the second kind, with the state in which it stopped.\<close>

definition outcome :: "nat \<Rightarrow> (nat \<Rightarrow> bool) \<Rightarrow> string \<Rightarrow> jstate \<Rightarrow> flow option \<times> jstate" where
  "outcome fuel grants json s = (json_pass fuel False grants json s, stop_state fuel False grants json s)"

lemma outcome_Suc:
  "outcome (Suc fuel) grants json s = (case json_step False grants json s of
     Continue s' \<Rightarrow> outcome fuel grants json s' | r \<Rightarrow> (Some r, s))"
  by (simp add: outcome_def split: flow.split)

lemma outcome_more: "fst (outcome fuel g json s) = Some r \<Longrightarrow> outcome (Suc fuel) g json s = outcome fuel g json s"
proof (induction fuel arbitrary: s)
  case 0
  then show ?case by (simp add: outcome_def)
next
  case (Suc fuel)
  show ?case
  proof (cases "json_step False g json s")
    case (Continue s')
    with Suc show ?thesis by (simp add: outcome_Suc [of "Suc fuel" _ _ s] outcome_Suc [of fuel _ _ s])
  qed (simp_all add: outcome_Suc)
qed

text \<open>It has filled the tree, or stopped at a value of which the parts were denied.\<close>

definition parts_denied :: "(nat \<Rightarrow> bool) \<Rightarrow> jnode list \<Rightarrow> jstate \<Rightarrow> bool" where
  "parts_denied grants F s \<longleftrightarrow> (let i = next_value (snd s) in
     length (nodes (snd s)) = length F \<and> i < length F \<and> nodes (snd s) ! i = F ! i \<and> allocate_parts grants (F ! i) = None)"

definition ended :: "(nat \<Rightarrow> bool) \<Rightarrow> jnode list \<Rightarrow> jstate \<Rightarrow> flow option \<times> jstate \<Rightarrow> bool" where
  "ended grants F s out \<longleftrightarrow> (fst out = Some e_alloc_failure \<and> tree_ok (snd out) \<and> parts_denied grants F (snd out))
     \<or> (\<exists>h2. fst out = Some (Pass_End (clear_num (fst s), h2)) \<and> sim F s h2 \<and> tree_ok (clear_num (fst s), h2))"

lemma ended_more: "ended grants F s (outcome fuel g json s2) \<Longrightarrow> ended grants F s (outcome (Suc fuel) g json s2)"
  using outcome_more by (metis ended_def)

lemma ended_case_more:
  "ended grants F s (case r of Continue s2' \<Rightarrow> outcome fuel g json s2' | r \<Rightarrow> (Some r, s2)) \<Longrightarrow>
   ended grants F s (case r of Continue s2' \<Rightarrow> outcome (Suc fuel) g json s2' | r \<Rightarrow> (Some r, s2))"
  using ended_more [of grants F s fuel g json] by (cases r) simp_all

text \<open>Only the creation of a value allocates.\<close>

lemma with_new_denied:
  assumes "with_new False grants ty (c, h) k = e_alloc_failure" "\<And>t s. k t s \<noteq> e_alloc_failure"
  shows "next_value h < length (nodes h) \<and> allocate_parts grants (nodes h ! next_value h) = None"
  using assms by (auto simp: with_new_def new_value_def split: if_splits option.splits)

lemma if_not_denied:
  "(b \<Longrightarrow> x \<noteq> e_alloc_failure) \<Longrightarrow> (\<not> b \<Longrightarrow> y \<noteq> e_alloc_failure) \<Longrightarrow> (if b then x else y) \<noteq> e_alloc_failure"
  by simp

lemma value_done_not_denied: "value_done f s \<noteq> e_alloc_failure"
  by (cases s) (auto simp: value_done_def Let_def split: option.split)

lemma seek_step_denied:
  assumes "seek_step False grants json b (c, h) = e_alloc_failure"
  shows "next_value h < length (nodes h) \<and> allocate_parts grants (nodes h ! next_value h) = None"
proof (rule ccontr)
  assume no: "\<not> ?thesis"
  have "with_new False grants ty (c0, h) k \<noteq> e_alloc_failure" if "\<And>t s. k t s \<noteq> e_alloc_failure" for ty c0 k
    using with_new_denied that no by blast
  then have "seek_step False grants json b (c, h) \<noteq> e_alloc_failure"
    unfolding seek_step_def Let_def prod.case
    by (intro if_not_denied) (simp_all add: number_start_def case_prod_beta split: option.split)
  with assms show False by simp
qed

lemma json_step_denied:
  assumes "json_step False grants json (c, h) = e_alloc_failure"
  shows "next_value h < length (nodes h) \<and> allocate_parts grants (nodes h ! next_value h) = None"
proof -
  let ?b = "if ptr c = length json then CHR 0x00 else json ! ptr c"
  have "number_step b t s \<noteq> e_alloc_failure" "object_step b t s \<noteq> e_alloc_failure" for b t s
    by (cases s; auto simp: number_step_def end_number_def object_step_def Let_def)+
  then have seek: "?thesis" if "value_step False grants json b (c1, h) = e_alloc_failure" for b c1
    using that seek_step_denied [of grants json b c1 h] by (auto simp: value_step_def split: if_splits option.splits jtype.splits)
  have str: "string_step False json b s \<noteq> Some e_alloc_failure" for b s
    by (cases s) (auto simp: string_step_def string_add_def end_string_def Let_def split: option.split jtype.split)
  obtain r where "r = e_alloc_failure" "string_step False json ?b (c, h) = Some r \<or> (\<exists>c1. value_step False grants json ?b (c1, h) = r)"
  proof -
    define r where "r = (if flag_string c
      then (case string_step False json ?b (c, h) of Some r \<Rightarrow> r | None \<Rightarrow> value_step False grants json ?b (c\<lparr>flag_string := False\<rparr>, h))
      else value_step False grants json ?b (c, h))"
    have "(case r of Value_Done s1 \<Rightarrow> value_done False s1 | _ \<Rightarrow> r) = e_alloc_failure"
      using assms unfolding r_def json_step_def Let_def fst_conv snd_conv by (simp split: if_splits)
    with value_done_not_denied have "r = e_alloc_failure" by (cases r) auto
    moreover have "string_step False json ?b (c, h) = Some r \<or> (\<exists>c1. value_step False grants json ?b (c1, h) = r)"
      unfolding r_def by (cases "string_step False json ?b (c, h)") auto
    ultimately show thesis using that by blast
  qed
  with str seek show ?thesis by blast
qed

text \<open>The value a step of the first pass creates is the one the second creates next, where it belongs.\<close>

lemma second_next_fits:
  assumes ok: "pass_ok json (c, h) ps" and step: "json_step True grants json (c, h) = Continue s'"
    and new: "length (nodes (snd s')) = Suc (length (nodes h))" and sim: "sim F (c, h) h2" and kF: "keeps (nodes (snd s')) F"
    and names: "\<forall>i < length F. n_type (F ! i) = t_object \<longrightarrow> u_length (F ! i) = 0 \<longrightarrow> u_names (F ! i) = 0"
  shows "next_fits (clear_num c, h2)"
proof -
  let ?n = "length (nodes h)"
  from kF new have n: "?n < length F" by (simp add: keeps_def)
  with sim have n2: "next_value h2 = ?n" "nodes h2 ! ?n = F ! ?n" by (auto simp: sim_def)
  have par: "n_parent (F ! ?n) = top_value c"
    using json_step_parent [OF step] new keeps_nth [OF kF, of ?n] by simp
  have "n_type (nodes h2 ! p) \<in> {t_object, t_array}" if p: "top_value c = Some p" for p
  proof -
    from ok p have pn: "p < ?n" using chain_less by (auto simp: pass_ok_def)
    from json_step_creates [OF ok step] new p have ty: "n_type (nodes h ! p) \<in> {t_object, t_array}" by simp
    have "keeps (nodes h) F" using json_step_first [OF ok, of grants] step kF keeps_trans by (auto simp: grows_def)
    with keeps_nth [of "nodes h" F p] pn ty have "n_type (F ! p) = n_type (nodes h ! p)" by (auto simp: type_le_def)
    with sim pn ty show ?thesis by (auto simp: sim_def node_sim_def)
  qed
  with n n2 par names show ?thesis by (simp add: next_fits_def Let_def)
qed

text \<open>
  When the first pass reaches the end, so does the second, in no more steps, from every state that
  matches one of the first: outside numbers, and inside a number, where the second has a link to make.
\<close>

lemma passes_agree:
  assumes "json_pass fuel True grants json s = Some (Pass_End e)" "pass_ok json s ps"
    and names: "\<forall>i < length (nodes (snd e)). n_type (nodes (snd e) ! i) = t_object \<longrightarrow>
      u_length (nodes (snd e) ! i) = 0 \<longrightarrow> u_names (nodes (snd e) ! i) = 0"
  shows "(\<not> in_number s \<longrightarrow> sim (nodes (snd e)) s h2 \<longrightarrow> tree_ok (clear_num (fst s), h2) \<longrightarrow>
      ended grants (nodes (snd e)) e (outcome fuel grants json (clear_num (fst s), h2)))
    \<and> (number_ahead (nodes (snd e)) json s s2 \<longrightarrow> tree_ok s2 \<longrightarrow>
      ended grants (nodes (snd e)) e (case value_done False s2 of
        Continue s2' \<Rightarrow> outcome fuel grants json s2' | r \<Rightarrow> (Some r, s2)))"
  using assms(1,2)
proof (induction fuel arbitrary: s ps h2 s2)
  case (Suc fuel)
  let ?F = "nodes (snd e)"
  obtain c h where s: "s = (c, h)" by (cases s)
  have "fits_final ?F ps s" using first_pass_fits [of json s ps "Suc fuel" grants "fst e" "snd e"] Suc.prems by simp
  then have kF: "keeps (nodes h) ?F" by (simp add: fits_final_def s)
  show ?case
  proof (cases "json_step True grants json s")
    case (Pass_End s')
    with Suc.prems have e: "e = s'" by simp
    from json_step_first [OF Suc.prems(2), of grants] Pass_End e have es: "e = (c, h)" "flag_done c" by (auto simp: s)
    from Pass_End json_step_second_end [OF Suc.prems(2) [unfolded s] _ kF] es show ?thesis
      by (auto simp: s ended_def number_ahead_def outcome_Suc)
  next
    case (Continue s')
    from json_step_first [OF Suc.prems(2), of grants] Continue obtain ps' where ok': "pass_ok json s' ps'" by auto
    from Suc.prems(1) Continue have run: "json_pass fuel True grants json s' = Some (Pass_End e)" by simp
    have fits: "fits_final ?F qs s'" if "pass_ok json s' qs" for qs
      using first_pass_fits [OF that, of fuel grants "fst e" "snd e"] run by simp
    note IH = Suc.IH [OF run ok']
    have born: "next_fits (clear_num c, h2)"
      if "sim ?F s h2" "next_value (snd s3) \<noteq> next_value h2" "kept False (clear_num c, h2) s2 \<or> made False (clear_num c, h2) s2"
        "next_value (snd s3) = next_value (snd s2)" "next_value (snd s3) = length (nodes (snd s'))" for h2 s2 s3
    proof (rule second_next_fits [OF Suc.prems(2) [unfolded s] Continue [unfolded s] _ that(1) [unfolded s] _ names])
      show "length (nodes (snd s')) = Suc (length (nodes h))"
        using that by (auto simp: kept_def made_def sim_def s)
      show "keeps (nodes (snd s')) ?F" using fits [OF ok'] by (simp add: fits_final_def)
    qed
    have out: "ended grants ?F e (outcome (Suc fuel) grants json (clear_num c, h2))"
      if num: "\<not> in_number s" and sm: "sim ?F s h2" and tree: "tree_ok (clear_num c, h2)" for h2
    proof -
      from json_step_second [OF Suc.prems(2) [unfolded s] sm [unfolded s] kF num [unfolded s] Continue [unfolded s] fits]
      consider (fails) "json_step False grants json (clear_num c, h2) = e_alloc_failure"
        | (same) h2' where "json_step False grants json (clear_num c, h2) = Continue (clear_num (fst s'), h2')"
            "sim ?F s' h2'" "\<not> in_number s'"
        | (number) s2 where "number_ahead ?F json s' s2" "json_step False grants json (clear_num c, h2) = value_done False s2"
            "kept False (clear_num c, h2) s2 \<or> made False (clear_num c, h2) s2"
        unfolding follows_def by auto
      then show ?thesis
      proof cases
        case fails
        with json_step_denied [OF fails] sm tree show ?thesis
          by (auto simp: ended_def outcome_Suc parts_denied_def sim_def s Let_def)
      next
        case same
        from json_step_moves [OF same(1)] obtain s3 where s3: "kept False (clear_num c, h2) s3 \<or> made False (clear_num c, h2) s3"
          "next_value h2' = next_value (snd s3)" using value_done_next by fastforce
        have "tree_ok (clear_num (fst s'), h2')"
        proof (rule json_step_tree [OF same(1) tree])
          assume "next_value (snd (clear_num (fst s'), h2')) \<noteq> next_value (snd (clear_num c, h2))"
          with born [OF sm _ s3(1), of "(clear_num c, h2')"] s3(2) same(2) show "next_fits (clear_num c, h2)"
            by (auto simp: sim_def split: prod.splits)
        qed
        with IH same show ?thesis by (simp add: outcome_Suc)
      next
        case number
        have "tree_ok s2"
        proof (rule kept_or_made_tree [OF number(3) tree])
          assume "next_value (snd s2) \<noteq> next_value (snd (clear_num c, h2))"
          with born [OF sm _ number(3), of s2] number(1) show "next_fits (clear_num c, h2)"
            by (auto simp: number_ahead_def sim_def split: prod.splits)
        qed
        with IH number have "ended grants ?F e (case value_done False s2 of Continue s2' \<Rightarrow> outcome fuel grants json s2' | r \<Rightarrow> (Some r, s2))"
          by blast
        with number(2) show ?thesis
          by (cases "value_done False s2") (auto simp: outcome_Suc ended_def value_done_not_end value_done_not_denied)
      qed
    qed
    have inside: "ended grants ?F e (case value_done False s2 of Continue s2' \<Rightarrow> outcome (Suc fuel) grants json s2' | r \<Rightarrow> (Some r, s2))"
      if ahead: "number_ahead ?F json s s2" and tree: "tree_ok s2" for s2
    proof -
      from ahead obtain t where t: "top_value c = Some t" "n_type (nodes h ! t) \<in> {t_integer, t_double}"
        and m: "\<not> flag_seek_value c" "\<not> flag_string c" "\<not> flag_done c" by (auto simp: number_ahead_def s)
      have "\<not> length json < ptr c" using Suc.prems(2) by (simp add: pass_ok_def s)
      with t m Continue consider "number_step (char_at json (ptr c)) t (c, h) = Continue s'"
        | s1 where "number_step (char_at json (ptr c)) t (c, h) = Value_Done s1" "value_done True s1 = Continue s'"
        by (auto simp: s json_step_eq Let_def value_step_def split: flow.splits)
      then show ?thesis
      proof cases
        case 1
        from number_step_ahead [OF Suc.prems(2) [unfolded s] ahead [unfolded s] t(1) kF 1] IH tree
        show ?thesis by (blast intro: ended_case_more)
      next
        case 2
        have "json_step True grants json s' \<noteq> e_failed" using run by (cases fuel) auto
        with number_end_ahead [OF Suc.prems(2) [unfolded s] ahead [unfolded s] t(1) kF 2 fits [OF ok']]
        obtain h2' where h2': "value_done False s2 = Continue (clear_num (fst s'), h2')" "sim ?F s' h2'" by blast
        have "step_ok json (c, h) ps (Value_Done s1)"
          using number_step_ok [OF Suc.prems(2) [unfolded s] t m refl] 2(1) by simp
        then have "\<not> in_number s'" using value_done_leaves_number [OF _ 2(2)] by (auto simp: step_ok_def)
        with IH h2' ended_more tree_ok_done [OF h2'(1) tree] show ?thesis by simp
      qed
    qed
    from out inside show ?thesis by (simp add: s)
  qed (use Suc.prems in simp_all)
qed simp

lemma start_ok: "pass_ok json (start_state []) []"
  by (simp add: start_state_def pass_ok_def)

lemma start_second: "sim F (start_state []) (snd (start_state F)) \<and> clear_num (fst (start_state [])) = fst (start_state F)
    \<and> \<not> in_number (start_state [])"
  by (simp add: start_state_def sim_def clear_num_def in_number_def)

lemma first_pass_fuel: "work_left json (start_state []) < loop_fuel json"
  by (simp add: work_left_def loop_fuel_def start_state_def rank_def)

lemma second_pass_ends:
  assumes "json_pass fuel True grants json (start_state []) = Some (Pass_End e)"
  shows "ended grants (nodes (snd e)) e (outcome fuel grants json (start_state (nodes (snd e))))"
proof -
  let ?F = "nodes (snd e)"
  have "names_promised [] (start_state [])" by (simp add: names_promised_def start_state_def)
  note names = first_pass_names [OF assms start_ok this]
  have "fresh (skel True (nodes (snd (start_state []))))" by (simp add: start_state_def fresh_def skel_def)
  from tree_ok_start [OF first_pass_fresh [OF assms this]] have "tree_ok (start_state ?F)" .
  with passes_agree [OF assms start_ok names, of "snd (start_state ?F)"] start_second [of ?F] show ?thesis
    by (metis prod.collapse)
qed

lemma denied_grants: "parts_denied grants F s \<Longrightarrow> \<not> (\<forall>n. grants n)"
  by (auto simp: parts_denied_def allocate_parts_def Let_def split: jtype.splits if_splits)

text \<open>
  C30: The two passes agree. When the first pass accepts the text and memory does not run out, the
  second accepts it too, in no more iterations and at the same position, and leaves the same values with the same types and
  parents, every object and array filled with exactly as many members as the first pass counted.
\<close>

theorem second_pass_fills:
  assumes first: "json_pass fuel True grants json (start_state []) = Some (Pass_End (c1, h1))" and grants: "\<forall>n. grants n"
  shows "\<exists>h2. json_pass fuel False grants json (start_state (nodes h1)) = Some (Pass_End (clear_num c1, h2))
    \<and> map n_type (nodes h2) = map n_type (nodes h1) \<and> map n_parent (nodes h2) = map n_parent (nodes h1)
    \<and> (\<forall>i < length (nodes h1). n_type (nodes h1 ! i) \<in> {t_object, t_array} \<longrightarrow>
         u_length (nodes h2 ! i) = u_length (nodes h1 ! i) \<and> cap_length (nodes h2 ! i) = u_length (nodes h1 ! i))"
proof -
  from second_pass_ends [OF first] grants obtain h2 where
    h2: "json_pass fuel False grants json (start_state (nodes h1)) = Some (Pass_End (clear_num c1, h2))" "sim (nodes h1) (c1, h1) h2"
    using denied_grants [of grants] by (fastforce simp: ended_def outcome_def)
  then have "length (nodes h2) = length (nodes h1)" "\<And>i. i < length (nodes h1) \<Longrightarrow> node_sim (nodes h1 ! i) (nodes h2 ! i) (nodes h1 ! i)"
    by (auto simp: sim_def)
  with h2(1) show ?thesis by (auto simp: node_sim_def intro!: nth_equalityI)
qed

lemma json_pass_numeral:
  "json_pass (numeral k) first_pass grants json s = (case json_step first_pass grants json s of
     Continue s' \<Rightarrow> json_pass (pred_numeral k) first_pass grants json s' | r \<Rightarrow> Some r)"
  by (simp add: numeral_eq_Suc)

lemma second_pass_fills_witness:
  "\<exists>c1 h1 h2. json_pass 8 True (\<lambda>_. True) ''[[]]'' (start_state []) = Some (Pass_End (c1, h1))
    \<and> length (nodes h1) = 2
    \<and> json_pass 8 False (\<lambda>_. True) ''[[]]'' (start_state (nodes h1)) = Some (Pass_End (clear_num c1, h2))
    \<and> u_length (nodes h2 ! 0) = u_length (nodes h1 ! 0)"
proof -
  obtain c1 h1 where first: "json_pass 8 True (\<lambda>_. True) ''[[]]'' (start_state []) = Some (Pass_End (c1, h1))"
    and h1: "nodes h1 = [(new_node t_array None)\<lparr>u_length := 1\<rparr>, new_node t_array (Some 0)]"
    by (simp add: json_pass_numeral json_step_def start_state_def value_step_def seek_step_def is_blank_def with_new_def
        new_value_def value_done_def advance_def set_node_def uint_max_def new_node_def Let_def)
  from second_pass_fills [OF first] show ?thesis using first h1 by (auto simp: new_node_def)
qed

end
