(* ===== verification/Json_Text.thy ===== *)
theory Json_Text
  imports Json_Second
begin

text \<open>
  Text the parser reads back: values written as JSON, the nodes either pass makes of them, and the runs over strings and numbers.
\<close>

section \<open>Values as text\<close>

text \<open>A string as JSON text: quotes and backslashes escaped.\<close>

definition json_char :: "char \<Rightarrow> string" where
  "json_char x = (if x = CHR 0x22 \<or> x = CHR 0x5C then [CHR 0x5C, x] else [x])"

definition json_quote :: "string \<Rightarrow> string" where
  "json_quote s = CHR 0x22 # concat (map json_char s) @ [CHR 0x22]"

fun commas :: "string list \<Rightarrow> string" where
  "commas [] = []"
| "commas (t # ts) = t @ concat (map (Cons (CHR '','')) ts)"

fun json_text :: "json_value \<Rightarrow> string" where
  "json_text JNull = ''null''"
| "json_text (JBoolean b) = (if b \<noteq> 0 then ''true'' else ''false'')"
| "json_text (JInteger n) = show_int n"
| "json_text (JString s) = json_quote s"
| "json_text (JArray vs) = CHR ''['' # commas (map json_text vs) @ '']''"
| "json_text (JObject kvs) =
     CHR ''{'' # commas (map (\<lambda>kv. json_quote (fst kv) @ CHR '':'' # json_text (snd kv)) kvs) @ ''}''"
| "json_text JDouble = []"

text \<open>
  What can be written and read: no doubles, whose value the parser's model leaves out, and what fits the parser's integers and
  lengths.
\<close>

definition plain :: "string \<Rightarrow> bool" where
  "plain s \<longleftrightarrow> CHR 0x00 \<notin> set s \<and> length s \<le> uint_max"

fun printable :: "json_value \<Rightarrow> bool" where
  "printable JNull = True"
| "printable (JBoolean b) = (b = 0 \<or> b = 1)"
| "printable (JInteger n) = (- (2 ^ 63) \<le> n \<and> n < 2 ^ 63)"
| "printable (JString s) = plain s"
| "printable (JArray vs) = (length vs \<le> uint_max \<and> list_all printable vs)"
| "printable (JObject kvs) = (length kvs \<le> uint_max \<and> list_all (\<lambda>kv. plain (fst kv) \<and> printable (snd kv)) kvs)"
| "printable JDouble = False"

section \<open>Values as nodes\<close>

text \<open>The items of a value, with their names in an object.\<close>

type_synonym item = "string option \<times> json_value"

fun items :: "json_value \<Rightarrow> item list" where
  "items (JArray vs) = map (Pair None) vs"
| "items (JObject kvs) = map (\<lambda>kv. (Some (fst kv), snd kv)) kvs"
| "items _ = []"

lemma items_smaller: "(\<Sum>it \<leftarrow> items v. 2 * size (snd it) + 2) \<le> 2 * size v"
proof (cases v)
  case (JObject kvs)
  show ?thesis unfolding JObject by (induction kvs) auto
next
  case (JArray vs)
  show ?thesis unfolding JArray by (induction vs) auto
qed auto

text \<open>Recursion over values goes by way of their items.\<close>

definition work :: "item list \<Rightarrow> nat" where
  "work its = (\<Sum>it \<leftarrow> its. 2 * size (snd it) + 2)"

lemma work_simps [simp]: "work [] = 0" "work (it # its) = 2 * size (snd it) + 2 + work its"
  "work (items v) < Suc (2 * size v)"
  using items_smaller [of v] by (simp_all add: work_def)

text \<open>How many nodes a value takes.\<close>

function vsize :: "json_value \<Rightarrow> nat" and vsizes :: "item list \<Rightarrow> nat" where
  "vsize v = Suc (vsizes (items v))"
| "vsizes [] = 0"
| "vsizes (it # its) = vsize (snd it) + vsizes its"
  by pat_completeness auto
termination
  by (relation "measure (\<lambda>x. case x of Inl v \<Rightarrow> Suc (2 * size v) | Inr its \<Rightarrow> work its)") simp_all

declare vsize.simps [simp del]

text \<open>What an item does to the node of its container: its name, if it has one, and its link. \<open>f\<close> is the pass.\<close>

definition named :: "bool \<Rightarrow> string option \<Rightarrow> jnode \<Rightarrow> jnode" where
  "named f k v = (case k of None \<Rightarrow> v
     | Some s \<Rightarrow> v\<lparr>u_names := u_names v + (length s + 1), n_names := (if f then n_names v else n_names v @ [s])\<rparr>)"

definition link :: "bool \<Rightarrow> nat \<Rightarrow> jnode \<Rightarrow> jnode" where
  "link f i v = v\<lparr>u_length := u_length v + 1, n_items := (if f then n_items v else n_items v @ [i])\<rparr>"

fun links :: "bool \<Rightarrow> nat \<Rightarrow> item list \<Rightarrow> jnode \<Rightarrow> jnode" where
  "links f i [] v = v"
| "links f i (it # its) v = links f (i + vsize (snd it)) its (link f i (named f (fst it) v))"

definition names_room :: "item list \<Rightarrow> nat" where
  "names_room its = (\<Sum>it \<leftarrow> its. case fst it of None \<Rightarrow> 0 | Some s \<Rightarrow> length s + 1)"

definition empty_box :: "bool \<Rightarrow> jtype \<Rightarrow> nat option \<Rightarrow> item list \<Rightarrow> jnode" where
  "empty_box f type par its = (if f then new_node type par
     else (new_node type par)\<lparr>cap_length := length its, cap_names := names_room its\<rparr>)"

text \<open>The node of a value at position \<open>i\<close>, and all the nodes of it, in the order of their creation.\<close>

fun top_node :: "bool \<Rightarrow> nat option \<Rightarrow> nat \<Rightarrow> json_value \<Rightarrow> jnode" where
  "top_node f par i JNull = new_node t_null par"
| "top_node f par i (JBoolean b) = (new_node t_boolean par)\<lparr>u_boolean := b\<rparr>"
| "top_node f par i (JInteger n) = (new_node t_integer par)\<lparr>u_integer := of_int n\<rparr>"
| "top_node f par i (JString s) =
     (if f then (new_node t_string par)\<lparr>u_length := length s\<rparr>
      else (new_node t_string par)\<lparr>u_length := length s, cap_length := length s + 1, n_text := s\<rparr>)"
| "top_node f par i (JArray vs) = links f (Suc i) (items (JArray vs)) (empty_box f t_array par (items (JArray vs)))"
| "top_node f par i (JObject kvs) = links f (Suc i) (items (JObject kvs)) (empty_box f t_object par (items (JObject kvs)))"
| "top_node f par i JDouble = new_node t_double par"

function flat :: "bool \<Rightarrow> nat option \<Rightarrow> nat \<Rightarrow> json_value \<Rightarrow> jnode list"
  and flats :: "bool \<Rightarrow> nat \<Rightarrow> nat \<Rightarrow> item list \<Rightarrow> jnode list" where
  "flat f par i v = top_node f par i v # flats f i (Suc i) (items v)"
| "flats f q i [] = []"
| "flats f q i (it # its) = flat f (Some q) i (snd it) @ flats f q (i + vsize (snd it)) its"
  by pat_completeness auto
termination
  by (relation "measure (\<lambda>x. case x of Inl (_, _, _, v) \<Rightarrow> Suc (2 * size v) | Inr (_, _, _, its) \<Rightarrow> work its)") simp_all

declare flat.simps [simp del]

lemma length_flat: "length (flat f par i v) = vsize v" and length_flats: "length (flats f q i its) = vsizes its"
  by (induction f par i v and f q i its rule: flat_flats.induct) (simp_all add: flat.simps vsize.simps)

text \<open>What the pass finds of it, and what it leaves.\<close>

definition before :: "bool \<Rightarrow> nat option \<Rightarrow> nat \<Rightarrow> json_value \<Rightarrow> jnode list" where
  "before f par i v = (if f then [] else flat True par i v)"

definition befores :: "bool \<Rightarrow> nat \<Rightarrow> nat \<Rightarrow> item list \<Rightarrow> jnode list" where
  "befores f q i its = (if f then [] else flats True q i its)"

lemma links_parts [simp]:
  "n_type (links f i its v) = n_type v" "n_parent (links f i its v) = n_parent v"
  "cap_length (links f i its v) = cap_length v" "cap_names (links f i its v) = cap_names v"
  "u_length (links f i its v) = u_length v + length its" "u_names (links f i its v) = u_names v + names_room its"
  by (induction its arbitrary: i v) (auto simp: named_def link_def names_room_def split: option.splits)

lemma top_node_parent [simp]: "n_parent (top_node f par i v) = par"
  by (cases v) (simp_all add: new_node_def empty_box_def)

section \<open>Reading\<close>

definition json_next :: "bool \<Rightarrow> string \<Rightarrow> jstate \<Rightarrow> jstate \<Rightarrow> bool" where
  "json_next f json s s' \<longleftrightarrow> json_step f (\<lambda>_. True) json s = Continue s'"

text \<open>The run completes a value and is about to link it.\<close>

definition yields :: "bool \<Rightarrow> string \<Rightarrow> jstate \<Rightarrow> jstate \<Rightarrow> bool" where
  "yields f json s s' \<longleftrightarrow> (\<exists>t. (json_next f json)\<^sup>*\<^sup>* s t \<and> json_step f (\<lambda>_. True) json t = value_done f s')"

lemma yields_now: "json_step f (\<lambda>_. True) json s = value_done f s' \<Longrightarrow> yields f json s s'"
  unfolding yields_def by blast

lemma yields_later: "(json_next f json)\<^sup>*\<^sup>* s t \<Longrightarrow> yields f json t s' \<Longrightarrow> yields f json s s'"
  by (auto simp: yields_def dest: rtranclp_trans)

lemma yields_step: "json_step f (\<lambda>_. True) json s = Continue t \<Longrightarrow> yields f json t s' \<Longrightarrow> yields f json s s'"
  by (rule yields_later [of f json s t]) (auto simp: json_next_def)

definition seeking :: "cursor \<Rightarrow> bool" where
  "seeking c \<longleftrightarrow> flag_seek_value c \<and> \<not> flag_need_comma c \<and> \<not> flag_need_colon c \<and> \<not> flag_string c
     \<and> \<not> flag_escaped c \<and> \<not> flag_done c"

definition landed :: "cursor \<Rightarrow> bool" where
  "landed c \<longleftrightarrow> \<not> flag_seek_value c \<and> \<not> flag_need_colon c \<and> \<not> flag_string c \<and> \<not> flag_escaped c \<and> \<not> flag_done c"

definition ends_number :: "string \<Rightarrow> bool" where
  "ends_number rest \<longleftrightarrow> takeWhile number_char rest = []"

text \<open>A value at the position is read, and its nodes are as they should be after the pass.\<close>

definition lands :: "bool \<Rightarrow> string \<Rightarrow> json_value \<Rightarrow> jnode list \<Rightarrow> jnode list \<Rightarrow> jstate \<Rightarrow> bool" where
  "lands f json v pre post s \<longleftrightarrow> (\<exists>c' h'. yields f json s (c', h') \<and> landed c'
     \<and> ptr c' = ptr (fst s) + length (json_text v) \<and> top_value c' = Some (length pre)
     \<and> nodes h' = pre @ flat f (top_value (fst s)) (length pre) v @ post \<and> next_value h' = length pre + vsize v)"

definition facing :: "bool \<Rightarrow> string \<Rightarrow> json_value \<Rightarrow> jnode list \<Rightarrow> jnode list \<Rightarrow> string \<Rightarrow> jstate \<Rightarrow> bool" where
  "facing f json v pre post rest s \<longleftrightarrow> (case s of (c, h) \<Rightarrow>
     drop (ptr c) json = json_text v @ rest \<and> ends_number rest \<and> seeking c
     \<and> nodes h = pre @ before f (top_value c) (length pre) v @ post \<and> (f \<longrightarrow> post = []) \<and> next_value h = length pre)"

definition reads :: "bool \<Rightarrow> json_value \<Rightarrow> bool" where
  "reads f v \<longleftrightarrow> (\<forall>json pre post rest s. facing f json v pre post rest s \<longrightarrow> lands f json v pre post s)"

lemma char_at_drop: "drop p json = x # rest \<Longrightarrow> char_at json p = x \<and> p < length json"
  by (metis char_at_def drop_all linorder_not_less list.distinct(1) nth_via_drop order_refl)

lemma drop_on: "drop p json = xs @ rest \<Longrightarrow> drop (p + length xs) json = rest"
  by (metis append_eq_conv_conj add.commute drop_drop)

lemma with_new_at:
  assumes "nodes h = pre @ (if f then [] else v # vs) @ post" "f \<longrightarrow> post = []" "next_value h = length pre"
    and "\<not> f \<longrightarrow> allocate_parts (\<lambda>_. True) v = Some w"
  shows "with_new f (\<lambda>_. True) type (c, h) k = k (length pre)
    (c\<lparr>top_value := Some (length pre)\<rparr>,
     h\<lparr>nodes := pre @ (if f then new_node type (top_value c) else w) # (if f then [] else vs) @ post, next_value := Suc (length pre)\<rparr>)"
  using assms by (cases f) (simp_all add: with_new_def new_value_def list_update_append)

lemma seeking_step:
  "seeking c \<Longrightarrow> drop (ptr c) json = x # rest \<Longrightarrow> json_step f (\<lambda>_. True) json (c, h) =
     (let r = seek_step f (\<lambda>_. True) json x (c, h) in case r of Value_Done s' \<Rightarrow> value_done f s' | _ \<Rightarrow> r)"
  using char_at_drop [of "ptr c" json x rest] by (simp add: json_step_eq seeking_def value_step_def)

lemma literal_at_drop: "drop p json = lit @ rest \<Longrightarrow> literal_at json p lit"
  unfolding literal_at_def by (metis append_eq_conv_conj le_add1 length_append length_drop)

lemma landsI:
  assumes "yields f json (c, h) (c', h')" "landed c'" "ptr c' = ptr c + length (json_text v)" "top_value c' = Some (length pre)"
    "nodes h' = pre @ flat f (top_value c) (length pre) v @ post" "next_value h' = length pre + vsize v"
  shows "lands f json v pre post (c, h)"
  using assms unfolding lands_def by fastforce

lemma readsI:
  assumes "\<And>json pre post rest c h. drop (ptr c) json = json_text v @ rest \<Longrightarrow> ends_number rest \<Longrightarrow> seeking c
    \<Longrightarrow> nodes h = pre @ before f (top_value c) (length pre) v @ post \<Longrightarrow> f \<longrightarrow> post = [] \<Longrightarrow> next_value h = length pre
    \<Longrightarrow> lands f json v pre post (c, h)"
  shows "reads f v"
  using assms unfolding reads_def facing_def by blast

text \<open>A value without items: one node, which the second pass completes.\<close>

lemma leaf_new:
  assumes "items v = []" "nodes h = pre @ before f (top_value c) (length pre) v @ post" "f \<longrightarrow> post = []" "next_value h = length pre"
    and "\<not> f \<longrightarrow> allocate_parts (\<lambda>_. True) (top_node True (top_value c) (length pre) v) = Some w"
  shows "with_new f (\<lambda>_. True) type (c, h) k = k (length pre)
    (c\<lparr>top_value := Some (length pre)\<rparr>,
     h\<lparr>nodes := pre @ (if f then new_node type (top_value c) else w) # post, next_value := Suc (length pre)\<rparr>)"
proof -
  have "nodes h = pre @ (if f then [] else top_node True (top_value c) (length pre) v # []) @ post"
    using assms(1,2) by (simp add: before_def flat.simps)
  from with_new_at [OF this assms(3-5)] assms(3) show ?thesis by (cases f) simp_all
qed

lemma leaf_flat: "items v = [] \<Longrightarrow> flat f par i v = [top_node f par i v]" "items v = [] \<Longrightarrow> vsize v = 1"
  by (simp_all add: flat.simps vsize.simps)

lemma set_node_at [simp]: "nodes (set_node (length pre) g (h\<lparr>nodes := pre @ v # post, next_value := n\<rparr>)) = pre @ g v # post"
  by (simp add: set_node_def list_update_append)

lemma reads_null: "reads f JNull"
proof (rule readsI)
  fix json pre post rest and c :: cursor and h :: heap
  assume t: "drop (ptr c) json = json_text JNull @ rest" and seek: "seeking c"
    and h: "nodes h = pre @ before f (top_value c) (length pre) JNull @ post" "f \<longrightarrow> post = []" "next_value h = length pre"
  have x: "drop (ptr c) json = CHR ''n'' # ''ull'' @ rest" "literal_at json (ptr c) ''null''" using t literal_at_drop [of "ptr c" json "''null''" rest] by simp_all
  have "top_value (c\<lparr>flag_seek_value := False\<rparr>) = top_value c" by simp
  note new = leaf_new [of JNull h pre f "c\<lparr>flag_seek_value := False\<rparr>" post "new_node t_null (top_value c)", OF _ _ h(2,3)]
  show "lands f json JNull pre post (c, h)"
    by (rule landsI, rule yields_now)
      (use x seek h in \<open>auto simp: seeking_step seek_step_def is_blank_def new allocate_parts_def new_node_def seeking_def landed_def leaf_flat\<close>)
qed

lemma reads_true: "reads f (JBoolean 1)"
proof (rule readsI)
  fix json pre post rest and c :: cursor and h :: heap
  assume t: "drop (ptr c) json = json_text (JBoolean 1) @ rest" and seek: "seeking c"
    and h: "nodes h = pre @ before f (top_value c) (length pre) (JBoolean 1) @ post" "f \<longrightarrow> post = []" "next_value h = length pre"
  have x: "drop (ptr c) json = CHR ''t'' # ''rue'' @ rest" "literal_at json (ptr c) ''true''" using t literal_at_drop [of "ptr c" json "''true''" rest] by simp_all
  note new = leaf_new [of "JBoolean 1" h pre f "c\<lparr>flag_seek_value := False\<rparr>" post "(new_node t_boolean (top_value c))\<lparr>u_boolean := 1\<rparr>", OF _ _ h(2,3)]
  show "lands f json (JBoolean 1) pre post (c, h)"
    by (rule landsI, rule yields_now)
      (use x seek h in \<open>auto simp: seeking_step seek_step_def is_blank_def new allocate_parts_def new_node_def seeking_def landed_def leaf_flat\<close>)
qed

lemma reads_false: "reads f (JBoolean 0)"
proof (rule readsI)
  fix json pre post rest and c :: cursor and h :: heap
  assume t: "drop (ptr c) json = json_text (JBoolean 0) @ rest" and seek: "seeking c"
    and h: "nodes h = pre @ before f (top_value c) (length pre) (JBoolean 0) @ post" "f \<longrightarrow> post = []" "next_value h = length pre"
  have x: "drop (ptr c) json = CHR ''f'' # ''alse'' @ rest" "literal_at json (ptr c) ''false''" using t literal_at_drop [of "ptr c" json "''false''" rest] by simp_all
  note new = leaf_new [of "JBoolean 0" h pre f "c\<lparr>flag_seek_value := False\<rparr>" post "new_node t_boolean (top_value c)", OF _ _ h(2,3)]
  show "lands f json (JBoolean 0) pre post (c, h)"
    by (rule landsI, rule yields_now)
      (use x seek h in \<open>auto simp: seeking_step seek_step_def is_blank_def new allocate_parts_def new_node_def seeking_def landed_def leaf_flat\<close>)
qed

section \<open>Numbers\<close>

definition read_word :: "64 word \<Rightarrow> string \<Rightarrow> 64 word" where
  "read_word w ds = fold (\<lambda>b n. n * 10 + of_nat (digit_val b)) ds w"

lemma read_word_nat: "\<forall>b \<in> set ds. is_digit b \<Longrightarrow> read_word (of_nat n) ds = of_nat (read_nat n ds)"
proof (induction ds arbitrary: n)
  case (Cons b ds)
  have "read_word (of_nat n) (b # ds) = read_word (of_nat (n * 10 + digit_val b)) ds" by (simp add: read_word_def)
  also have "\<dots> = of_nat (read_nat (n * 10 + digit_val b) ds)" by (rule Cons.IH) (use Cons.prems in simp)
  also have "\<dots> = of_nat (read_nat n (b # ds))" using Cons.prems by simp
  finally show ?case .
qed (simp add: read_word_def)

text \<open>The first pass over the digits of an integer that is written without leading zeros.\<close>

definition at_number :: "nat \<Rightarrow> jstate \<Rightarrow> bool" where
  "at_number t s \<longleftrightarrow> (case s of (c, h) \<Rightarrow> \<not> flag_seek_value c \<and> \<not> flag_string c \<and> \<not> flag_done c \<and> \<not> flag_num_e c
     \<and> top_value c = Some t \<and> t < length (nodes h) \<and> n_type (nodes h ! t) = t_integer)"

lemma at_number_step:
  "at_number t (c, h) \<Longrightarrow> ptr c \<le> length json \<Longrightarrow> json_step True grants json (c, h) =
     (let r = number_step (char_at json (ptr c)) t (c, h) in case r of Value_Done s' \<Rightarrow> value_done True s' | _ \<Rightarrow> r)"
  by (simp add: json_step_eq at_number_def value_step_def)

lemma digits_run:
  assumes "drop (ptr c) json = ds @ rest" "\<forall>b \<in> set ds. is_digit b" "at_number t (c, h)" "num_digits c = of_nat k"
    "k + length ds < 2 ^ 32" "ds = [] \<or> \<not> flag_num_zero c" "k = 0 \<Longrightarrow> 1 < length ds \<Longrightarrow> hd ds \<noteq> CHR ''0''"
  shows "\<exists>c'. (json_next True json)\<^sup>*\<^sup>* (c, h) (c', set_node t (\<lambda>v. v\<lparr>u_integer := read_word (u_integer v) ds\<rparr>) h)
    \<and> clear_num c' = clear_num (advance (length ds) c) \<and> \<not> flag_num_e c' \<and> flag_num_negative c' = flag_num_negative c"
  using assms
proof (induction ds arbitrary: c h k)
  case Nil
  have "set_node t (\<lambda>v. v\<lparr>u_integer := read_word (u_integer v) []\<rparr>) h = h"
    by (simp add: set_node_def read_word_def)
  with Nil show ?case by (auto simp: at_number_def advance_def)
next
  case (Cons b ds)
  let ?c = "advance 1 (c\<lparr>num_digits := num_digits c + 1, flag_num_zero := (num_digits c + 1 = 1 \<and> b = CHR ''0'')\<rparr>)"
  let ?h = "set_node t (\<lambda>v. v\<lparr>u_integer := u_integer v * 10 + of_nat (digit_val b)\<rparr>) h"
  have here: "char_at json (ptr c) = b" "ptr c < length json" using char_at_drop [of "ptr c" json b "ds @ rest"] Cons.prems(1) by simp_all
  have step: "json_step True (\<lambda>_. True) json (c, h) = Continue (?c, ?h)"
    using Cons.prems(2,3,6) here by (simp add: at_number_step [OF Cons.prems(3)] number_step_def at_number_def Let_def)
  have rest: "drop (ptr ?c) json = ds @ rest" using drop_on [of "ptr c" json "[b]" "ds @ rest"] Cons.prems(1) by simp
  have num: "at_number t (?c, ?h)" using Cons.prems(3) by (simp add: at_number_def set_node_def advance_def)
  have count: "num_digits ?c = of_nat (Suc k)" using Cons.prems(4) by (simp add: advance_def)
  have zero: "ds = [] \<or> \<not> flag_num_zero ?c"
  proof (cases "k = 0")
    case False
    have "unat (of_nat (Suc k) :: 32 word) = Suc k" by (rule of_nat_inverse [OF refl]) (use Cons.prems(5) in simp)
    then have "(of_nat (Suc k) :: 32 word) \<noteq> 1" using False by auto
    then show ?thesis using Cons.prems(4) by (simp add: advance_def)
  qed (use Cons.prems(7) in \<open>auto simp: advance_def\<close>)
  have digits: "\<forall>b \<in> set ds. is_digit b" "Suc k + length ds < 2 ^ 32" using Cons.prems(2,5) by simp_all
  have first: "Suc k = 0 \<Longrightarrow> 1 < length ds \<Longrightarrow> hd ds \<noteq> CHR ''0''" by simp
  from Cons.IH [OF rest digits(1) num count digits(2) zero first] obtain c' where c': "(json_next True json)\<^sup>*\<^sup>* (?c, ?h) (c', set_node t (\<lambda>v. v\<lparr>u_integer := read_word (u_integer v) ds\<rparr>) ?h)"
    "clear_num c' = clear_num (advance (length ds) ?c)" "\<not> flag_num_e c'" "flag_num_negative c' = flag_num_negative ?c"
    by blast
  have "set_node t (\<lambda>v. v\<lparr>u_integer := read_word (u_integer v) ds\<rparr>) ?h = set_node t (\<lambda>v. v\<lparr>u_integer := read_word (u_integer v) (b # ds)\<rparr>) h"
    using Cons.prems(3) by (simp add: set_node_def at_number_def read_word_def)
  moreover have "(json_next True json)\<^sup>*\<^sup>* (c, h) (c', set_node t (\<lambda>v. v\<lparr>u_integer := read_word (u_integer v) ds\<rparr>) ?h)"
    using c'(1) step by (auto simp: json_next_def intro: converse_rtranclp_into_rtranclp)
  ultimately show ?case using c' by (auto simp: clear_num_def advance_def)
qed

lemma digit_char_zero: "n < 10 \<Longrightarrow> digit_char n = CHR ''0'' \<Longrightarrow> n = 0"
  using digit_char_value [of n] by simp

lemma show_nat_nonempty [simp]: "show_nat n \<noteq> []"
  by (simp add: show_nat.simps [of n])

lemma show_nat_head: "0 < n \<Longrightarrow> hd (show_nat n) \<noteq> CHR ''0''"
proof (induction n rule: show_nat.induct)
  case (1 n)
  then show ?case
    by (cases "n < 10") (auto simp: show_nat.simps [of n] dest: digit_char_zero)
qed

lemma show_nat_zero: "1 < length (show_nat n) \<Longrightarrow> hd (show_nat n) \<noteq> CHR ''0''"
  using show_nat_head [of n] by (cases "n = 0") (simp_all add: show_nat.simps [of 0])

lemma at_rest: "drop p json = rest \<Longrightarrow> p \<le> length json \<Longrightarrow> ends_number rest \<Longrightarrow> \<not> number_char (char_at json p)"
  using char_at_drop [of p json] by (cases rest) (auto simp: ends_number_def char_at_def number_char_def is_digit_def split: if_splits)

lemma clear_num_eq:
  "clear_num a = clear_num b \<Longrightarrow> ptr a = ptr b \<and> top_value a = top_value b \<and> flag_seek_value a = flag_seek_value b
     \<and> flag_string a = flag_string b \<and> flag_done a = flag_done b \<and> flag_escaped a = flag_escaped b
     \<and> flag_need_colon a = flag_need_colon b"
  by (cases a; cases b) (simp add: clear_num_def)

text \<open>The digits behind the sign, and the end of the number.\<close>

lemma number_run:
  assumes t: "drop (ptr c) json = show_nat k @ rest" and rest: "ends_number rest" and num: "at_number t (c, h)"
    and c: "num_digits c = 0" "\<not> flag_num_zero c" and k: "k < 2 ^ 64" and zero: "u_integer (nodes h ! t) = 0"
  shows "\<exists>c'. yields True json (c, h) (c', set_node t (\<lambda>v. v\<lparr>u_integer := (if flag_num_negative c then - of_nat k else of_nat k)\<rparr>) h)
    \<and> clear_num c' = clear_num (advance (length (show_nat k)) c)"
proof -
  have len: "length (show_nat k) \<le> 20" using show_nat_bound [of k 19] k by simp
  obtain c' where c': "(json_next True json)\<^sup>*\<^sup>* (c, h) (c', set_node t (\<lambda>v. v\<lparr>u_integer := read_word (u_integer v) (show_nat k)\<rparr>) h)"
      (is "_ (c', ?h)")
    and flags: "clear_num c' = clear_num (advance (length (show_nat k)) c)" "\<not> flag_num_e c'" "flag_num_negative c' = flag_num_negative c"
    using digits_run [OF t _ num, of 0] c len show_nat_digits show_nat_zero by auto
  have "read_word 0 (show_nat k) = of_nat k" using read_word_nat [of "show_nat k" 0] show_nat_digits read_show_nat by auto
  then have h: "?h = set_node t (\<lambda>v. v\<lparr>u_integer := of_nat k\<rparr>) h" using zero by (simp add: set_node_def)
  have parts: "ptr c' = ptr c + length (show_nat k)" "at_number t (c', ?h)"
    using clear_num_eq [OF flags(1)] flags(2) num by (simp_all add: at_number_def set_node_def advance_def)
  have type: "t < length (nodes h)" "n_type (nodes h ! t) = t_integer" using num by (simp_all add: at_number_def)
  have le: "ptr c' \<le> length json" using t parts(1) by (metis drop_all length_0_conv length_append length_drop nle_le add_is_0 le_add_diff_inverse nat_add_left_cancel_le le_add1 show_nat_nonempty)
  have "drop (ptr c') json = rest" using drop_on [OF t] parts(1) by simp
  from at_rest [OF this le rest] have "\<not> number_char (char_at json (ptr c'))" .
  then have step: "json_step True (\<lambda>_. True) json (c', ?h) =
      value_done True (c', if flag_num_negative c then set_node t (\<lambda>v. v\<lparr>u_integer := - u_integer v\<rparr>) ?h else ?h)"
    using flags(2,3) type by (simp add: at_number_step [OF parts(2) le] number_step_def number_char_def end_number_def)
  have e: "(if flag_num_negative c then set_node t (\<lambda>v. v\<lparr>u_integer := - u_integer v\<rparr>) ?h else ?h)
      = set_node t (\<lambda>v. v\<lparr>u_integer := (if flag_num_negative c then - of_nat k else of_nat k)\<rparr>) h"
    unfolding h using num by (simp add: set_node_def at_number_def)
  from yields_later [OF c' yields_now [OF step]] show ?thesis unfolding e using flags(1) by blast
qed

lemma show_int_start:
  assumes "seeking c" "drop (ptr c) json = show_int n @ rest"
  shows "json_step f (\<lambda>_. True) json (c, h) =
    (let r = with_new f (\<lambda>_. True) t_integer (c\<lparr>flag_seek_value := False\<rparr>, h) (\<lambda>t. number_start f json (hd (show_int n)))
     in case r of Value_Done s' \<Rightarrow> value_done f s' | _ \<Rightarrow> r)"
proof -
  obtain x ds where n: "show_int n = x # ds" "is_digit x \<or> x = CHR ''-''"
    using show_nat_digits [of "hd (show_nat (nat n))" "nat n"]
    by (cases "n < 0"; cases "show_nat (nat n)") (auto simp: show_int_def)
  moreover have "json_step f (\<lambda>_. True) json (c, h) = (let r = seek_step f (\<lambda>_. True) json x (c, h) in case r of Value_Done s' \<Rightarrow> value_done f s' | _ \<Rightarrow> r)"
    by (rule seeking_step) (use assms n in auto)
  moreover have "\<not> is_blank x" "x \<noteq> CHR '']''" "x \<noteq> CHR ''{''" "x \<noteq> CHR ''[''" "x \<noteq> CHR 0x22" "x \<noteq> CHR ''t''" "x \<noteq> CHR ''f''" "x \<noteq> CHR ''n''"
    using n(2) by (auto simp: is_digit_def is_blank_def)
  ultimately show ?thesis using assms(1) by (simp add: seek_step_def seeking_def)
qed

lemma sint_of_int_64: "- (2 ^ 63) \<le> n \<Longrightarrow> n < 2 ^ 63 \<Longrightarrow> sint (of_int n :: 64 word) = n"
  by (simp add: sint_sbintrunc' signed_take_bit_int_eq_self)

lemma reads_integer_first:
  assumes n: "- (2 ^ 63) \<le> n" "n < 2 ^ 63"
  shows "reads True (JInteger n)"
proof (rule readsI)
  fix json pre post rest and c :: cursor and h :: heap
  assume t: "drop (ptr c) json = json_text (JInteger n) @ rest" and rest: "ends_number rest" and seek: "seeking c"
    and h: "nodes h = pre @ before True (top_value c) (length pre) (JInteger n) @ post" "True \<longrightarrow> post = []" "next_value h = length pre"
  let ?c = "c\<lparr>flag_seek_value := False, top_value := Some (length pre), flag_num_negative := n < 0, flag_num_e := False, flag_num_e_got_sign := False,
    flag_num_zero := False, num_digits := 0\<rparr>"
  let ?c0 = "if n < 0 then advance 1 ?c else ?c"
  let ?h = "h\<lparr>nodes := pre @ new_node t_integer (top_value c) # post, next_value := Suc (length pre)\<rparr>"
  let ?k = "nat \<bar>n\<bar>"
  note new = leaf_new [of "JInteger n" h pre True "c\<lparr>flag_seek_value := False\<rparr>" post, OF _ _ h(2,3)]
  have "hd (show_nat (nat n)) \<noteq> CHR ''-''" using show_nat_digits [of "hd (show_nat (nat n))" "nat n"] by (auto simp: is_digit_def)
  then have hd: "hd (show_int n) = CHR ''-'' \<longleftrightarrow> n < 0" by (simp add: show_int_def)
  have start: "json_step True (\<lambda>_. True) json (c, h) = Continue (?c0, ?h)"
    using t seek h hd by (auto simp: show_int_start new number_start_def)
  have "drop (ptr ?c0) json = show_nat ?k @ rest"
    using t drop_on [of "ptr c" json "''-''" "show_nat ?k @ rest"] by (auto simp: show_int_def)
  moreover have "at_number (length pre) (?c0, ?h)" using seek by (simp add: at_number_def seeking_def new_node_def advance_def)
  moreover have "num_digits ?c0 = 0" "\<not> flag_num_zero ?c0" "flag_num_negative ?c0 = (n < 0)" by (simp_all add: advance_def)
  moreover have "?k < 2 ^ 64" "u_integer (nodes ?h ! length pre) = 0" using n by (auto simp: new_node_def)
  ultimately obtain c' where c': "yields True json (?c0, ?h) (c', set_node (length pre) (\<lambda>v. v\<lparr>u_integer := (if n < 0 then - of_nat ?k else of_nat ?k)\<rparr>) ?h)"
    "clear_num c' = clear_num (advance (length (show_nat ?k)) ?c0)"
    using number_run [of ?c0 json ?k rest "length pre" ?h] rest by auto
  have "(if n < 0 then - of_nat ?k else of_nat ?k) = (of_int n :: 64 word)" by simp
  with c'(1) have y: "yields True json (c, h) (c', set_node (length pre) (\<lambda>v. v\<lparr>u_integer := of_int n\<rparr>) ?h)"
    using start by (simp add: yields_step)
  show "lands True json (JInteger n) pre post (c, h)"
    by (rule landsI [OF y]) (use clear_num_eq [OF c'(2)] seek in \<open>auto simp: landed_def seeking_def leaf_flat show_int_def advance_def set_node_def\<close>)
qed

lemma number_chars: "takeWhile number_char (show_int n @ rest) = show_int n @ takeWhile number_char rest"
proof -
  have "\<forall>x \<in> set (show_nat k). number_char x" for k using show_nat_digits by (auto simp: number_char_def)
  then show ?thesis by (auto simp: show_int_def number_char_def)
qed

lemma reads_integer_second: "reads False (JInteger n)"
proof (rule readsI)
  fix json pre post rest and c :: cursor and h :: heap
  assume t: "drop (ptr c) json = json_text (JInteger n) @ rest" and rest: "ends_number rest" and seek: "seeking c"
    and h: "nodes h = pre @ before False (top_value c) (length pre) (JInteger n) @ post" "False \<longrightarrow> post = []" "next_value h = length pre"
  note new = leaf_new [of "JInteger n" h pre False "c\<lparr>flag_seek_value := False\<rparr>" post "top_node False (top_value c) (length pre) (JInteger n)", OF _ _ h(2,3)]
  show "lands False json (JInteger n) pre post (c, h)"
    by (rule landsI, rule yields_now)
      (use t seek h rest in \<open>auto simp: show_int_start new number_start_def allocate_parts_def new_node_def seeking_def landed_def leaf_flat
        number_chars ends_number_def\<close>)
qed

section \<open>Strings\<close>

text \<open>Inside a string, the first pass counts a character and the second writes it.\<close>

definition after_char :: "bool \<Rightarrow> char \<Rightarrow> jstate \<Rightarrow> jstate" where
  "after_char f x s = (case s of (c, h) \<Rightarrow>
     (advance (length (json_char x)) (c\<lparr>string_length := string_length c + 1\<rparr>),
      if f then h else h\<lparr>string_buf := string_buf h @ [x]\<rparr>))"

definition string_ready :: "bool \<Rightarrow> nat \<Rightarrow> jstate \<Rightarrow> bool" where
  "string_ready f n s \<longleftrightarrow> (case s of (c, h) \<Rightarrow> flag_string c \<and> \<not> flag_escaped c
     \<and> string_length c + n \<le> uint_max \<and> (f \<or> string_length c + n < string_cap h))"

lemma after_char_ready: "string_ready f (Suc n) s \<Longrightarrow> string_ready f n (after_char f x s)"
  by (cases f) (auto simp: string_ready_def after_char_def)

lemma escaped_char_same: "x = CHR 0x22 \<or> x = CHR 0x5C \<Longrightarrow> escaped_char x = x \<and> x \<noteq> CHR ''u''"
  by (auto simp: escaped_char_def)

lemma string_plain_step:
  assumes here: "drop (ptr c) json = x # rest" and x: "x \<noteq> CHR 0x00" "x \<noteq> CHR 0x22" "x \<noteq> CHR 0x5C"
    and ready: "string_ready f (Suc n) (c, h)"
  shows "json_step f grants json (c, h) = Continue (after_char f x (c, h))"
  using assms char_at_drop [OF here]
  by (auto simp: json_step_eq string_step_def string_add_def string_ready_def after_char_def json_char_def advance_def)

lemma string_escape_steps:
  assumes here: "drop (ptr c) json = CHR 0x5C # x # rest" and x: "x = CHR 0x22 \<or> x = CHR 0x5C"
    and ready: "string_ready f (Suc n) (c, h)"
  shows "json_step f grants json (c, h) = Continue (advance 1 (c\<lparr>flag_escaped := True\<rparr>), h)"
    and "json_step f grants json (advance 1 (c\<lparr>flag_escaped := True\<rparr>), h) = Continue (after_char f x (c, h))"
proof -
  have p: "char_at json (ptr c) = CHR 0x5C" "ptr c < length json" using char_at_drop [OF here] by simp_all
  have "drop (Suc (ptr c)) json = x # rest" using drop_on [of "ptr c" json "[CHR 0x5C]"] here by simp
  then have q: "char_at json (Suc (ptr c)) = x" "Suc (ptr c) < length json" using char_at_drop by simp_all
  show "json_step f grants json (c, h) = Continue (advance 1 (c\<lparr>flag_escaped := True\<rparr>), h)"
    using p ready by (auto simp: json_step_eq string_step_def string_ready_def)
  have "c\<lparr>flag_escaped := False\<rparr> = c" using ready by (auto simp: string_ready_def)
  then show "json_step f grants json (advance 1 (c\<lparr>flag_escaped := True\<rparr>), h) = Continue (after_char f x (c, h))"
    using q x ready escaped_char_same [OF x]
    by (auto simp: json_step_eq string_step_def string_ready_def string_add_def after_char_def json_char_def Let_def advance_def)
qed

lemma chars_run:
  assumes "drop (ptr (fst s)) json = concat (map json_char cs) @ rest" "CHR 0x00 \<notin> set cs" "string_ready f (length cs) s"
  shows "(json_next f json)\<^sup>*\<^sup>* s (fold (after_char f) cs s)"
  using assms
proof (induction cs arbitrary: s)
  case (Cons x cs)
  obtain c h where s: "s = (c, h)" by (cases s)
  have ready: "string_ready f (Suc (length cs)) (c, h)" using Cons.prems(3) by (simp add: s)
  let ?s = "after_char f x (c, h)"
  have here: "drop (ptr c) json = json_char x @ concat (map json_char cs) @ rest" using Cons.prems(1) by (simp add: s)
  have "drop (ptr (fst ?s)) json = concat (map json_char cs) @ rest" using drop_on [OF here] by (simp add: after_char_def)
  with Cons.IH [of ?s] Cons.prems(2) after_char_ready [OF ready]
  have IH: "(json_next f json)\<^sup>*\<^sup>* ?s (fold (after_char f) cs ?s)" by simp
  have "(json_next f json)\<^sup>*\<^sup>* (c, h) ?s"
  proof (cases "x = CHR 0x22 \<or> x = CHR 0x5C")
    case True
    then have "drop (ptr c) json = CHR 0x5C # x # concat (map json_char cs) @ rest" using here by (auto simp: json_char_def)
    from string_escape_steps [OF this True ready] show ?thesis
      unfolding json_next_def by (blast intro: converse_rtranclp_into_rtranclp)
  next
    case False
    then have "drop (ptr c) json = x # concat (map json_char cs) @ rest" using here by (auto simp: json_char_def)
    then have "json_next f json (c, h) ?s"
      unfolding json_next_def by (rule string_plain_step [OF _ _ _ _ ready]) (use False Cons.prems(2) in auto)
    then show ?thesis by (rule r_into_rtranclp)
  qed
  from rtranclp_trans [OF this IH] show ?case by (simp add: s)
qed simp

lemma after_chars:
  "fold (after_char f) s (c, h) =
     (advance (length (concat (map json_char s))) (c\<lparr>string_length := string_length c + length s\<rparr>),
      if f then h else h\<lparr>string_buf := string_buf h @ s\<rparr>)"
  by (induction s arbitrary: c h) (simp_all add: after_char_def advance_def add.assoc)

text \<open>From behind the opening quote to the closing one, and over it.\<close>

lemma string_run:
  assumes t: "drop (ptr c) json = concat (map json_char s) @ rest" and s: "plain s"
    and c: "flag_string c" "\<not> flag_escaped c" "string_length c = 0" and h: "string_buf h = []" "f \<or> length s < string_cap h"
  shows "(json_next f json)\<^sup>*\<^sup>* (c, h) (advance (length (concat (map json_char s))) (c\<lparr>string_length := length s\<rparr>),
    if f then h else h\<lparr>string_buf := s\<rparr>)"
proof -
  have "(json_next f json)\<^sup>*\<^sup>* (c, h) (fold (after_char f) s (c, h))"
    by (rule chars_run) (use assms in \<open>auto simp: string_ready_def plain_def\<close>)
  then show ?thesis using c h by (cases f) (simp_all add: after_chars)
qed

lemma string_close:
  assumes t: "drop (ptr c) json = CHR 0x22 # rest" and c: "flag_string c" "\<not> flag_escaped c" "string_length c \<le> uint_max"
    and e: "end_string f (c, h) = Some r"
  shows "json_step f grants json (c, h) = (case r of Value_Done s' \<Rightarrow> value_done f s' | _ \<Rightarrow> r)"
  using char_at_drop [OF t] c e by (simp add: json_step_eq string_step_def)

lemma reads_string: "plain s \<Longrightarrow> reads f (JString s)"
proof (rule readsI)
  fix json pre post rest and c :: cursor and h :: heap
  assume s: "plain s" and t: "drop (ptr c) json = json_text (JString s) @ rest" and seek: "seeking c"
    and h: "nodes h = pre @ before f (top_value c) (length pre) (JString s) @ post" "f \<longrightarrow> post = []" "next_value h = length pre"
  let ?n = "length (concat (map json_char s))"
  let ?v = "if f then new_node t_string (top_value c) else (new_node t_string (top_value c))\<lparr>cap_length := length s + 1\<rparr>"
  let ?c = "advance 1 (c\<lparr>flag_seek_value := False, top_value := Some (length pre), flag_string := True, string_length := 0\<rparr>)"
  let ?h = "h\<lparr>nodes := pre @ ?v # post, next_value := Suc (length pre), string_buf := [], string_cap := cap_length ?v\<rparr>"
  let ?c1 = "advance ?n (?c\<lparr>string_length := length s\<rparr>)" and ?h1 = "if f then ?h else ?h\<lparr>string_buf := s\<rparr>"
  note new = leaf_new [of "JString s" h pre f "c\<lparr>flag_seek_value := False\<rparr>" post "(new_node t_string (top_value c))\<lparr>cap_length := length s + 1\<rparr>", OF _ _ h(2,3)]
  have q: "drop (ptr c) json = CHR 0x22 # concat (map json_char s) @ CHR 0x22 # rest" using t by (simp add: json_quote_def)
  have step: "json_step f (\<lambda>_. True) json (c, h) = Continue (?c, ?h)"
    using seek h by (simp add: seeking_step [OF seek q] seek_step_def is_blank_def new allocate_parts_def new_node_def seeking_def)
  have here: "drop (ptr ?c) json = concat (map json_char s) @ CHR 0x22 # rest" using drop_on [of "ptr c" json "[CHR 0x22]"] q by simp
  have run: "(json_next f json)\<^sup>*\<^sup>* (?c, ?h) (?c1, ?h1)"
    by (rule string_run [OF here s]) (use seek in \<open>auto simp: seeking_def advance_def\<close>)
  have close: "drop (ptr ?c1) json = CHR 0x22 # rest" using drop_on [OF here] by simp
  have "end_string f (?c1, ?h1) = Some (Value_Done (advance 1 (?c1\<lparr>flag_string := False\<rparr>),
      set_node (length pre) (\<lambda>v. v\<lparr>u_length := length s, n_text := string_buf ?h1\<rparr>) ?h1))"
    by (cases f) (simp_all add: end_string_def advance_def new_node_def)
  from string_close [OF close _ _ _ this] seek s have last: "json_step f (\<lambda>_. True) json (?c1, ?h1) = value_done f (advance 1 (?c1\<lparr>flag_string := False\<rparr>),
      set_node (length pre) (\<lambda>v. v\<lparr>u_length := length s, n_text := string_buf ?h1\<rparr>) ?h1)"
    by (simp add: advance_def seeking_def plain_def)
  show "lands f json (JString s) pre post (c, h)"
    by (rule landsI [OF yields_step [OF step yields_later [OF run yields_now [OF last]]]])
      (use seek in \<open>auto simp: landed_def seeking_def leaf_flat json_quote_def advance_def new_node_def\<close>)
qed

end
