(* ===== verification/Json_Doc.thy ===== *)
theory Json_Doc
  imports Json_Text
begin

text \<open>
  Whole documents: arrays and objects are read item by item, and what is written is read back.
\<close>

section \<open>Containers\<close>

definition item_text :: "item \<Rightarrow> string" where
  "item_text it = (case fst it of None \<Rightarrow> [] | Some k \<Rightarrow> json_quote k @ '':'') @ json_text (snd it)"

definition tails :: "item list \<Rightarrow> string" where
  "tails its = concat (map (\<lambda>it. CHR '','' # item_text it) its)"

definition closer :: "jtype \<Rightarrow> char" where
  "closer ty = (if ty = t_array then CHR '']'' else CHR ''}'')"

lemma tails_simps [simp]: "tails [] = []" "tails (it # its) = CHR '','' # item_text it @ tails its"
  by (simp_all add: tails_def)

lemma commas_items: "commas (map item_text (it # its)) = item_text it @ tails its"
  by (simp add: tails_def comp_def)

lemma befores_simps [simp]:
  "befores f q i [] = []"
  "befores f q i (it # its) = before f (Some q) i (snd it) @ befores f q (i + vsize (snd it)) its"
  "befores True q i its = []"
  by (simp_all add: befores_def before_def)

text \<open>
  Inside the container at \<open>length pre\<close>, whose node is \<open>v\<close>: the nodes of the items read so far are \<open>ready\<close>,
  and \<open>its\<close> are to come.
\<close>

definition in_box :: "bool \<Rightarrow> jtype \<Rightarrow> jnode list \<Rightarrow> jnode \<Rightarrow> jnode list \<Rightarrow> item list \<Rightarrow> jnode list \<Rightarrow> jstate \<Rightarrow> bool" where
  "in_box f ty pre v ready its post s \<longleftrightarrow> (case s of (c, h) \<Rightarrow>
     top_value c = Some (length pre) \<and> flag_seek_value c = (ty = t_array)
     \<and> \<not> flag_string c \<and> \<not> flag_escaped c \<and> \<not> flag_need_colon c \<and> \<not> flag_done c
     \<and> nodes h = pre @ v # ready @ befores f (length pre) (Suc (length pre + length ready)) its @ post \<and> (f \<longrightarrow> post = [])
     \<and> next_value h = Suc (length pre + length ready))"

text \<open>The node has room for its items, which have names in an object.\<close>

definition suits :: "jtype \<Rightarrow> item \<Rightarrow> bool" where
  "suits ty it \<longleftrightarrow> (case fst it of None \<Rightarrow> ty = t_array | Some k \<Rightarrow> ty = t_object \<and> plain k)"

definition room_for :: "bool \<Rightarrow> jtype \<Rightarrow> item list \<Rightarrow> jnode \<Rightarrow> bool" where
  "room_for f ty its v \<longleftrightarrow> n_type v = ty \<and> ty \<in> {t_array, t_object} \<and> u_length v + length its \<le> uint_max
     \<and> (f \<or> u_length v + length its \<le> cap_length v \<and> u_names v + names_room its \<le> cap_names v)
     \<and> (\<forall>it \<in> set its. suits ty it)"

lemma room_for_item: "room_for f ty (it # its) v \<Longrightarrow> room_for f ty its (link f i (named f (fst it) v))"
  by (cases "fst it") (auto simp: room_for_def link_def named_def names_room_def)

text \<open>The name of an item and the colon: its value is sought.\<close>

definition at_item :: "bool \<Rightarrow> jnode list \<Rightarrow> jnode \<Rightarrow> jnode list \<Rightarrow> item list \<Rightarrow> jnode list \<Rightarrow> jstate \<Rightarrow> bool" where
  "at_item f pre v ready its post s \<longleftrightarrow> (case s of (c, h) \<Rightarrow>
     seeking c \<and> top_value c = Some (length pre)
     \<and> nodes h = pre @ v # ready @ befores f (length pre) (Suc (length pre + length ready)) its @ post \<and> (f \<longrightarrow> post = [])
     \<and> next_value h = Suc (length pre + length ready))"

lemma name_read:
  assumes box: "in_box f ty pre v ready its post (c, h)" "\<not> flag_need_comma c" and room: "room_for f ty its v" "its \<noteq> []"
    and k: "fst (hd its) = Some k" and t: "drop (ptr c) json = json_quote k @ CHR '':'' # rest"
  shows "\<exists>c' h'. (json_next f json)\<^sup>*\<^sup>* (c, h) (c', h') \<and> at_item f pre (named f (Some k) v) ready its post (c', h')
    \<and> ptr c' = ptr c + length (json_quote k @ '':'')"
proof -
  let ?n = "length (concat (map json_char k))" and ?cap = "cap_names v - u_names v"
  let ?c1 = "advance 1 (c\<lparr>flag_string := True, string_length := 0\<rparr>)" and ?h1 = "h\<lparr>string_buf := [], string_cap := ?cap\<rparr>"
  let ?c2 = "advance ?n (?c1\<lparr>string_length := length k\<rparr>)" and ?h2 = "if f then ?h1 else ?h1\<lparr>string_buf := k\<rparr>"
  let ?c3 = "advance 1 (?c2\<lparr>flag_string := False, flag_seek_value := True, flag_need_colon := True\<rparr>)"
  let ?h3 = "set_node (length pre) (named f (Some k)) ?h2"
  have ty: "ty = t_object" "n_type v = t_object" "plain k" and fits: "f \<or> u_length v < cap_length v \<and> length k < ?cap"
    using room k by (auto simp: room_for_def suits_def names_room_def neq_Nil_conv)
  have q: "drop (ptr c) json = CHR 0x22 # concat (map json_char k) @ CHR 0x22 # CHR '':'' # rest" using t by (simp add: json_quote_def)
  have open_it: "json_next f json (c, h) (?c1, ?h1)"
    using box ty char_at_drop [OF q] by (simp add: json_next_def json_step_eq in_box_def value_step_def object_step_def is_blank_def)
  have here: "drop (ptr ?c1) json = concat (map json_char k) @ CHR 0x22 # CHR '':'' # rest"
    using drop_on [of "ptr c" json "[CHR 0x22]"] q by simp
  have run: "(json_next f json)\<^sup>*\<^sup>* (?c1, ?h1) (?c2, ?h2)"
    by (rule string_run [OF here ty(3)]) (use box fits in \<open>auto simp: in_box_def advance_def\<close>)
  have close: "drop (ptr ?c2) json = CHR 0x22 # CHR '':'' # rest" using drop_on [OF here] by simp
  have "end_string f (?c2, ?h2) = Some (Continue (?c3, ?h3))"
    using box ty fits by (cases f) (simp_all add: end_string_def in_box_def advance_def named_def set_node_def)
  from string_close [OF close _ _ _ this] box ty(3) have name: "json_next f json (?c2, ?h2) (?c3, ?h3)"
    by (simp add: json_next_def in_box_def advance_def plain_def)
  have colon: "drop (ptr ?c3) json = CHR '':'' # rest" using drop_on [of "ptr ?c2" json "[CHR 0x22]"] close by simp
  have sought: "json_next f json (?c3, ?h3) (advance 1 (?c3\<lparr>flag_need_colon := False\<rparr>), ?h3)"
    using box char_at_drop [OF colon]
    by (simp add: json_next_def json_step_eq in_box_def value_step_def seek_step_def is_blank_def advance_def)
  have "(json_next f json)\<^sup>*\<^sup>* (c, h) (advance 1 (?c3\<lparr>flag_need_colon := False\<rparr>), ?h3)"
    using open_it run name sought by (meson converse_rtranclp_into_rtranclp rtranclp.rtrancl_into_rtrancl)
  moreover have "at_item f pre (named f (Some k) v) ready its post (advance 1 (?c3\<lparr>flag_need_colon := False\<rparr>), ?h3)"
    using box by (auto simp: at_item_def in_box_def seeking_def advance_def)
  ultimately show ?thesis by (intro exI conjI) (auto simp: json_quote_def)
qed

text \<open>An item, with its value linked to the container.\<close>

lemma item_read:
  assumes box: "in_box f ty pre v ready (it # its) post (c, h)" "\<not> flag_need_comma c" and room: "room_for f ty (it # its) v"
    and t: "drop (ptr c) json = item_text it @ rest" "ends_number rest" and reads: "reads f (snd it)"
  shows "\<exists>c' h'. (json_next f json)\<^sup>*\<^sup>* (c, h) (c', h') \<and> flag_need_comma c' \<and> ptr c' = ptr c + length (item_text it)
    \<and> in_box f ty pre (link f (Suc (length pre + length ready)) (named f (fst it) v))
        (ready @ flat f (Some (length pre)) (Suc (length pre + length ready)) (snd it)) its post (c', h')"
proof -
  let ?i = "Suc (length pre + length ready)" and ?v = "named f (fst it) v"
  let ?pre = "pre @ ?v # ready" and ?post = "befores f (length pre) (?i + vsize (snd it)) its @ post"
  obtain c1 h1 where run1: "(json_next f json)\<^sup>*\<^sup>* (c, h) (c1, h1)" and item: "at_item f pre ?v ready (it # its) post (c1, h1)"
    and p1: "ptr c1 = ptr c + (length (item_text it) - length (json_text (snd it)))" "drop (ptr c1) json = json_text (snd it) @ rest"
  proof (cases "fst it")
    case None
    with box room have "at_item f pre ?v ready (it # its) post (c, h)"
      by (auto simp: at_item_def in_box_def room_for_def suits_def seeking_def named_def)
    from that [OF rtranclp.rtrancl_refl this] None t show ?thesis by (simp add: item_text_def)
  next
    case (Some k)
    then have "drop (ptr c) json = json_quote k @ CHR '':'' # json_text (snd it) @ rest" using t by (simp add: item_text_def)
    from name_read [OF box room _ _ this] Some obtain c1 h1 where r: "(json_next f json)\<^sup>*\<^sup>* (c, h) (c1, h1)"
      "at_item f pre ?v ready (it # its) post (c1, h1)" "ptr c1 = ptr c + length (json_quote k @ '':'')" by auto
    moreover have "drop (ptr c1) json = json_text (snd it) @ rest"
      using drop_on [of "ptr c" json "json_quote k @ '':''"] r(3) t Some by (simp add: item_text_def)
    ultimately show ?thesis using that Some by (simp add: item_text_def)
  qed
  have "facing f json (snd it) ?pre ?post rest (c1, h1)"
    using item p1(2) t(2) by (auto simp: facing_def at_item_def)
  then have "lands f json (snd it) ?pre ?post (c1, h1)" using reads by (auto simp: reads_def)
  then obtain c2 h2 where y: "yields f json (c1, h1) (c2, h2)" and land: "landed c2" "ptr c2 = ptr c1 + length (json_text (snd it))"
      "top_value c2 = Some (length ?pre)"
    and h2: "nodes h2 = ?pre @ flat f (Some (length pre)) ?i (snd it) @ ?post" "next_value h2 = ?i + vsize (snd it)"
    using item unfolding lands_def at_item_def by auto
  let ?c3 = "c2\<lparr>flag_need_comma := True, flag_seek_value := (ty = t_array), top_value := Some (length pre)\<rparr>"
  let ?h3 = "set_node (length pre) (link f ?i) h2"
  have parent: "n_parent (nodes h2 ! ?i) = Some (length pre)" "nodes h2 ! length pre = ?v"
    by (simp_all add: h2 nth_append flat.simps)
  have "n_type ?v = ty" "\<not> f \<longrightarrow> u_length ?v < cap_length ?v" "u_length ?v + 1 \<le> uint_max"
    using room by (auto simp: room_for_def named_def split: option.splits)
  then have "value_done f (c2, h2) = Continue (?c3, ?h3)"
    using land parent by (auto simp: value_done_def link_def set_node_def landed_def Let_def)
  with y have "(json_next f json)\<^sup>*\<^sup>* (c1, h1) (?c3, ?h3)"
    unfolding yields_def json_next_def by (auto intro: rtranclp.rtrancl_into_rtrancl)
  from rtranclp_trans [OF run1 this] have run: "(json_next f json)\<^sup>*\<^sup>* (c, h) (?c3, ?h3)" .
  have "ptr ?c3 = ptr c + length (item_text it)" using land p1 by (simp add: item_text_def)
  moreover have "in_box f ty pre (link f ?i ?v) (ready @ flat f (Some (length pre)) ?i (snd it)) its post (?c3, ?h3)"
    using land h2 item by (simp add: in_box_def landed_def at_item_def length_flat list_update_append add.assoc)
  ultimately show ?thesis using run by fastforce
qed

text \<open>The end of the container, with or without items before it.\<close>

lemma box_closed:
  assumes box: "in_box f ty pre v ready [] post (c, h)" and ty: "n_type v = ty" "ty \<in> {t_array, t_object}"
    and t: "drop (ptr c) json = closer ty # rest"
  shows "yields f json (c, h) (advance 1 (c\<lparr>flag_need_comma := False, flag_seek_value := False\<rparr>), h)"
proof (rule yields_now)
  have same: "ty = t_object \<Longrightarrow> c\<lparr>flag_need_comma := False, flag_seek_value := False\<rparr> = c\<lparr>flag_need_comma := False\<rparr>"
    using box by (cases c) (simp add: in_box_def)
  have "nodes h ! length pre = v" using box by (simp add: in_box_def nth_append)
  then show "json_step f (\<lambda>_. True) json (c, h) = value_done f (advance 1 (c\<lparr>flag_need_comma := False, flag_seek_value := False\<rparr>), h)"
    using box ty char_at_drop [OF t]
    by (auto simp: same json_step_eq in_box_def value_step_def seek_step_def object_step_def is_blank_def closer_def)
qed

text \<open>What a container leaves, seen from a state inside it.\<close>

definition ends_box :: "bool \<Rightarrow> string \<Rightarrow> jnode list \<Rightarrow> jnode \<Rightarrow> jnode list \<Rightarrow> item list \<Rightarrow> jnode list \<Rightarrow> string \<Rightarrow> jstate \<Rightarrow> bool" where
  "ends_box f json pre v ready its post t s \<longleftrightarrow> (\<exists>c' h'. yields f json s (c', h') \<and> landed c' \<and> ptr c' = ptr (fst s) + length t
     \<and> top_value c' = Some (length pre)
     \<and> nodes h' = pre @ links f (Suc (length pre + length ready)) its v # ready @ flats f (length pre) (Suc (length pre + length ready)) its @ post
     \<and> next_value h' = Suc (length pre + length ready) + vsizes its)"

lemma box_empty:
  assumes "in_box f ty pre v ready [] post (c, h)" "n_type v = ty" "ty \<in> {t_array, t_object}" "drop (ptr c) json = closer ty # rest"
  shows "ends_box f json pre v ready [] post [closer ty] (c, h)"
  unfolding ends_box_def using box_closed [OF assms] assms(1)
  by (intro exI conjI) (auto simp: in_box_def landed_def advance_def)

lemma box_item:
  assumes run: "(json_next f json)\<^sup>*\<^sup>* (c, h) (c', h')" "ptr c' = ptr c + n"
    and box: "ends_box f json pre (link f (Suc (length pre + length ready)) (named f (fst it) v))
        (ready @ flat f (Some (length pre)) (Suc (length pre + length ready)) (snd it)) its post t (c', h')"
    and len: "length t' = n + length t"
  shows "ends_box f json pre v ready (it # its) post t' (c, h)"
proof -
  from box obtain c2 h2 where y: "yields f json (c', h') (c2, h2)" and c2: "landed c2" "ptr c2 = ptr c' + length t" "top_value c2 = Some (length pre)"
    "nodes h2 = pre @ links f (Suc (length pre + length ready)) (it # its) v # ready @ flats f (length pre) (Suc (length pre + length ready)) (it # its) @ post"
    "next_value h2 = Suc (length pre + length ready) + vsizes (it # its)"
    by (auto simp: ends_box_def length_flat add.assoc)
  with run(2) len show ?thesis
    unfolding ends_box_def by (intro exI [of _ c2] exI [of _ h2] conjI yields_later [OF run(1) y]) simp_all
qed

lemma tails_read:
  assumes "in_box f ty pre v ready its post (c, h)" "flag_need_comma c" "room_for f ty its v"
    "drop (ptr c) json = tails its @ closer ty # rest" "\<forall>it \<in> set its. reads f (snd it)"
  shows "ends_box f json pre v ready its post (tails its @ [closer ty]) (c, h)"
  using assms
proof (induction its arbitrary: v ready c h)
  case Nil
  then show ?case using box_empty [OF Nil(1)] by (auto simp: room_for_def)
next
  case (Cons it its)
  let ?c = "advance 1 (c\<lparr>flag_need_comma := False\<rparr>)"
  have t: "drop (ptr c) json = CHR '','' # item_text it @ tails its @ closer ty # rest" using Cons.prems(4) by simp
  have v: "n_type v = ty" "ty \<in> {t_array, t_object}" using Cons.prems(3) by (auto simp: room_for_def)
  have "nodes h ! length pre = v" using Cons.prems(1) by (simp add: in_box_def nth_append)
  then have comma: "json_next f json (c, h) (?c, h)"
    using Cons.prems(1,2) v char_at_drop [OF t]
    by (auto simp: json_next_def json_step_eq in_box_def value_step_def seek_step_def object_step_def is_blank_def)
  have box: "in_box f ty pre v ready (it # its) post (?c, h)" "\<not> flag_need_comma ?c"
    using Cons.prems(1) by (simp_all add: in_box_def advance_def)
  have t1: "drop (ptr ?c) json = item_text it @ tails its @ closer ty # rest" using drop_on [of "ptr c" json "'',''"] t by simp
  have ends: "ends_number (tails its @ closer ty # rest)" by (cases its) (auto simp: ends_number_def number_char_def is_digit_def closer_def)
  from item_read [OF box Cons.prems(3) t1 ends] Cons.prems(5) obtain c' h'
    where r: "(json_next f json)\<^sup>*\<^sup>* (?c, h) (c', h')" "flag_need_comma c'" "ptr c' = ptr ?c + length (item_text it)"
    and box': "in_box f ty pre (link f (Suc (length pre + length ready)) (named f (fst it) v))
        (ready @ flat f (Some (length pre)) (Suc (length pre + length ready)) (snd it)) its post (c', h')"
    by auto
  have t2: "drop (ptr c') json = tails its @ closer ty # rest" using drop_on [OF t1] r(3) by simp
  from Cons.IH [OF box' r(2) room_for_item [OF Cons.prems(3)] t2] Cons.prems(5)
  have e: "ends_box f json pre (link f (Suc (length pre + length ready)) (named f (fst it) v))
    (ready @ flat f (Some (length pre)) (Suc (length pre + length ready)) (snd it)) its post (tails its @ [closer ty]) (c', h')" by simp
  show ?case
    by (rule box_item [OF converse_rtranclp_into_rtranclp [OF comma r(1)] _ e, where n = "Suc (length (item_text it))"]) (simp_all add: r(3))
qed

lemma commas_read:
  assumes box: "in_box f ty pre v ready its post (c, h)" "\<not> flag_need_comma c" and room: "room_for f ty its v"
    and t: "drop (ptr c) json = commas (map item_text its) @ closer ty # rest" and reads: "\<forall>it \<in> set its. reads f (snd it)"
  shows "ends_box f json pre v ready its post (commas (map item_text its) @ [closer ty]) (c, h)"
proof (cases its)
  case Nil
  then show ?thesis using box_empty [of f ty pre v ready post c h json rest] box room t by (auto simp: room_for_def)
next
  case (Cons it its')
  have t1: "drop (ptr c) json = item_text it @ tails its' @ closer ty # rest" using t by (simp add: Cons commas_items del: list.map)
  have ends: "ends_number (tails its' @ closer ty # rest)" by (cases its') (auto simp: ends_number_def number_char_def is_digit_def closer_def)
  from item_read [OF box [unfolded Cons] room [unfolded Cons] t1 ends] reads obtain c' h'
    where r: "(json_next f json)\<^sup>*\<^sup>* (c, h) (c', h')" "flag_need_comma c'" "ptr c' = ptr c + length (item_text it)"
    and box': "in_box f ty pre (link f (Suc (length pre + length ready)) (named f (fst it) v))
        (ready @ flat f (Some (length pre)) (Suc (length pre + length ready)) (snd it)) its' post (c', h')"
    by (auto simp: Cons)
  have t2: "drop (ptr c') json = tails its' @ closer ty # rest" using drop_on [OF t1] r(3) by simp
  from tails_read [OF box' r(2) room_for_item [OF room [unfolded Cons]] t2] reads
  have "ends_box f json pre (link f (Suc (length pre + length ready)) (named f (fst it) v))
    (ready @ flat f (Some (length pre)) (Suc (length pre + length ready)) (snd it)) its' post (tails its' @ [closer ty]) (c', h')"
    by (simp add: Cons)
  from box_item [OF r(1,3) this] show ?thesis by (simp add: Cons commas_items del: list.map)
qed

text \<open>A container as a whole: it is created empty, as the counts of the first pass say.\<close>

lemma link_first: "link True i v = v\<lparr>u_length := u_length v + 1\<rparr>"
  by (cases v) (simp add: link_def)

lemma named_first: "named True k v = v\<lparr>u_names := u_names v + (case k of None \<Rightarrow> 0 | Some s \<Rightarrow> length s + 1)\<rparr>"
  by (cases v; cases k) (simp_all add: named_def)

lemma names_room_simps: "names_room [] = 0" "names_room (it # its) = (case fst it of None \<Rightarrow> 0 | Some s \<Rightarrow> length s + 1) + names_room its"
  by (simp_all add: names_room_def)

lemma links_first_step:
  "links True i (it # its) v = links True (i + vsize (snd it)) its (v\<lparr>u_names := u_names v + (case fst it of None \<Rightarrow> 0 | Some s \<Rightarrow> length s + 1), u_length := u_length v + 1\<rparr>)"
  unfolding links.simps link_first named_first by simp

lemma links_first: "links True i its v = v\<lparr>u_length := u_length v + length its, u_names := u_names v + names_room its\<rparr>"
proof (induction its arbitrary: i v)
  case Nil
  show ?case by (cases v) (simp add: names_room_def)
next
  case (Cons it its)
  show ?case unfolding links_first_step Cons.IH names_room_simps by simp
qed

lemma allocate_box:
  assumes "room_for False ty its (empty_box False ty par its)"
  shows "allocate_parts (\<lambda>_. True) (links True i its (empty_box True ty par its)) = Some (empty_box False ty par its)"
proof -
  have "names_room its = 0" if "ty = t_array"
  proof -
    have "\<forall>it \<in> set its. fst it = None" using assms that by (auto simp: room_for_def suits_def split: option.splits)
    then show ?thesis by (induction its) (simp_all add: names_room_simps)
  qed
  moreover have "names_room its = 0" if "its = []" using that by (simp add: names_room_simps)
  moreover have "ty = t_array \<or> ty = t_object" using assms by (simp add: room_for_def)
  ultimately show ?thesis by (auto simp: allocate_parts_def links_first empty_box_def new_node_def)
qed

definition opener :: "jtype \<Rightarrow> char" where
  "opener ty = (if ty = t_array then CHR ''['' else CHR ''{'')"

lemma reads_box:
  assumes v: "json_text v = opener ty # commas (map item_text (items v)) @ [closer ty]"
    "\<And>f par i. top_node f par i v = links f (Suc i) (items v) (empty_box f ty par (items v))"
    and room: "\<And>f par. room_for f ty (items v) (empty_box f ty par (items v))"
    and reads: "\<forall>it \<in> set (items v). reads f (snd it)"
  shows "reads f v"
proof (rule readsI)
  fix json pre post rest and c :: cursor and h :: heap
  assume t: "drop (ptr c) json = json_text v @ rest" and seek: "seeking c"
    and h: "nodes h = pre @ before f (top_value c) (length pre) v @ post" "f \<longrightarrow> post = []" "next_value h = length pre"
  let ?box = "empty_box f ty (top_value c) (items v)"
  let ?c = "advance 1 (c\<lparr>flag_seek_value := (ty = t_array), top_value := Some (length pre)\<rparr>)"
  let ?h = "h\<lparr>nodes := pre @ ?box # befores f (length pre) (Suc (length pre)) (items v) @ post, next_value := Suc (length pre)\<rparr>"
  have ty: "ty = t_array \<or> ty = t_object" using room by (auto simp: room_for_def)
  have split: "nodes h = pre @ (if f then [] else top_node True (top_value c) (length pre) v # flats True (length pre) (Suc (length pre)) (items v)) @ post"
    using h(1) by (simp add: before_def flat.simps)
  have parts: "allocate_parts (\<lambda>_. True) (top_node True (top_value c) (length pre) v) = Some (empty_box False ty (top_value c) (items v))"
    using allocate_box [OF room] by (simp add: v(2))
  have new: "with_new f (\<lambda>_. True) ty (c\<lparr>flag_seek_value := False\<rparr>, h) k
      = k (length pre) (c\<lparr>flag_seek_value := False, top_value := Some (length pre)\<rparr>, ?h)" for k
    using with_new_at [OF split h(2,3), of "empty_box False ty (top_value c) (items v)" ty "c\<lparr>flag_seek_value := False\<rparr>" k] parts
    by (cases f) (simp_all add: befores_def empty_box_def)
  have x: "drop (ptr c) json = opener ty # commas (map item_text (items v)) @ closer ty # rest" using t v(1) by simp
  have "json_step f (\<lambda>_. True) json (c, h) = Continue (?c, ?h)"
    using seek ty new by (auto simp: seeking_step [OF seek x] seek_step_def is_blank_def opener_def seeking_def)
  then have step: "(json_next f json)\<^sup>*\<^sup>* (c, h) (?c, ?h)" by (simp add: json_next_def r_into_rtranclp)
  have "in_box f ty pre ?box [] (items v) post (?c, ?h)" "\<not> flag_need_comma ?c"
    using seek h(2) by (simp_all add: in_box_def seeking_def advance_def)
  moreover have "drop (ptr ?c) json = commas (map item_text (items v)) @ closer ty # rest" using drop_on [of "ptr c" json "[opener ty]"] x by simp
  ultimately have "ends_box f json pre ?box [] (items v) post (commas (map item_text (items v)) @ [closer ty]) (?c, ?h)"
    using commas_read [OF _ _ room] reads by blast
  then obtain c' h' where y: "yields f json (?c, ?h) (c', h')" and e: "landed c'"
    "ptr c' = ptr ?c + length (commas (map item_text (items v)) @ [closer ty])" "top_value c' = Some (length pre)"
    "nodes h' = pre @ links f (Suc (length pre)) (items v) ?box # flats f (length pre) (Suc (length pre)) (items v) @ post"
    "next_value h' = Suc (length pre) + vsizes (items v)"
    by (auto simp: ends_box_def)
  show "lands f json v pre post (c, h)"
    by (rule landsI [OF yields_later [OF step y] e(1) _ e(3)]) (simp_all add: e v flat.simps vsize.simps)
qed

lemma item_texts:
  "map item_text (items (JArray vs)) = map json_text vs"
  "map item_text (items (JObject kvs)) = map (\<lambda>kv. json_quote (fst kv) @ CHR '':'' # json_text (snd kv)) kvs"
  by (simp_all add: item_text_def)

lemma reads_printable: "printable v \<Longrightarrow> reads f v"
proof (induction v)
  case (JObject kvs)
  then have kvs: "\<forall>kv \<in> set kvs. plain (fst kv) \<and> printable (snd kv)" "length kvs \<le> uint_max" by (auto simp: list_all_iff)
  show ?case
  proof (rule reads_box [where ty = t_object])
    show "room_for f t_object (items (JObject kvs)) (empty_box f t_object par (items (JObject kvs)))" for f par
      using kvs by (auto simp: room_for_def empty_box_def new_node_def suits_def)
    show "\<forall>it \<in> set (items (JObject kvs)). reads f (snd it)" using JObject.IH kvs by (fastforce simp: snds.simps)
  qed (simp_all add: item_text_def opener_def closer_def comp_def)
next
  case (JArray vs)
  then have vs: "\<forall>v \<in> set vs. printable v" "length vs \<le> uint_max" by (auto simp: list_all_iff)
  show ?case
  proof (rule reads_box [where ty = t_array])
    show "room_for f t_array (items (JArray vs)) (empty_box f t_array par (items (JArray vs)))" for f par
      using vs by (auto simp: room_for_def empty_box_def new_node_def suits_def)
    show "\<forall>it \<in> set (items (JArray vs)). reads f (snd it)" using JArray.IH vs by auto
  qed (simp_all add: item_text_def opener_def closer_def comp_def)
next
  case (JInteger n)
  then show ?case using reads_integer_first reads_integer_second by (cases f) simp_all
qed (auto simp: reads_null reads_true reads_false reads_string)

section \<open>What the nodes stand for\<close>

fun positions :: "nat \<Rightarrow> item list \<Rightarrow> nat list" where
  "positions i [] = []"
| "positions i (it # its) = i # positions (i + vsize (snd it)) its"

lemma links_second:
  "n_items (links False i its v) = n_items v @ positions i its"
  "n_names (links False i its v) = n_names v @ List.map_filter fst its"
  by (induction its arbitrary: i v) (auto simp: link_def named_def List.map_filter_def split: option.splits)

lemma positions_values:
  assumes "\<And>it pre post. it \<in> set its \<Longrightarrow>
    node_value n (pre @ flat False (Some q) (length pre) (snd it) @ post) (length pre) = snd it"
  shows "map (node_value n (pre @ flats False q (length pre) its @ post)) (positions (length pre) its) = map snd its"
  using assms
proof (induction its arbitrary: pre)
  case (Cons it its)
  from Cons.IH [of "pre @ flat False (Some q) (length pre) (snd it)"] Cons.prems
  show ?case by (simp add: length_flat)
qed simp

lemma vsize_item: "it \<in> set its \<Longrightarrow> vsize (snd it) \<le> vsizes its"
  by (induction its) auto

lemma node_value_flat:
  "printable v \<Longrightarrow> vsize v \<le> n \<Longrightarrow> node_value n (pre @ flat False par (length pre) v @ post) (length pre) = v"
proof (induction n arbitrary: v pre post par)
  case 0
  then show ?case by (simp add: vsize.simps)
next
  case (Suc n)
  have "vsize (snd it) \<le> n" if "it \<in> set (items v)" for it
    using vsize_item [OF that] Suc.prems(2) by (simp add: vsize.simps)
  then have vals: "map (node_value n (pre @ flat False par (length pre) v @ post)) (positions (Suc (length pre)) (items v)) = map snd (items v)"
    if "\<forall>it \<in> set (items v). printable (snd it)"
    using positions_values [of "items v" n "length pre" "pre @ [top_node False par (length pre) v]" post] Suc.IH that
    by (simp add: flat.simps)
  have node: "(pre @ flat False par (length pre) v @ post) ! length pre = top_node False par (length pre) v"
    by (simp add: flat.simps)
  show ?case
  proof (cases v)
    case (JArray vs)
    with vals Suc.prems show ?thesis
      by (simp add: node [unfolded JArray] JArray links_second empty_box_def new_node_def list_all_iff comp_def)
  next
    case (JObject kvs)
    have "List.map_filter fst (map (\<lambda>kv. (Some (fst kv), snd kv)) kvs) = map fst kvs"
      by (simp add: List.map_filter_def comp_def)
    with JObject vals Suc.prems show ?thesis
      by (simp add: node [unfolded JObject] JObject links_second empty_box_def new_node_def list_all_iff comp_def zip_map_fst_snd)
  qed (use Suc.prems in \<open>auto simp: flat.simps new_node_def sint_of_int_64\<close>)
qed

section \<open>Round trip\<close>

lemma pass_reaches:
  "(json_next f json)\<^sup>*\<^sup>* s t \<Longrightarrow> json_step f (\<lambda>_. True) json t = Pass_End e \<Longrightarrow>
   json_pass fuel f (\<lambda>_. True) json s = Some r \<Longrightarrow> r = Pass_End e"
proof (induction fuel arbitrary: s)
  case (Suc fuel)
  from Suc.prems(1) show ?case
  proof (cases rule: converse_rtranclpE)
    case base
    then show ?thesis using Suc.prems(2,3) by simp
  next
    case (step u)
    then show ?thesis using Suc.IH [OF step(2) Suc.prems(2)] Suc.prems(3) by (simp add: json_next_def)
  qed
qed simp

text \<open>A pass over a text that is one value.\<close>

lemma text_pass:
  assumes v: "printable v" and json: "json = json_text v"
    and run: "json_pass fuel f (\<lambda>_. True) json (start_state (before f None 0 v)) = Some r"
  shows "\<exists>c h. r = Pass_End (c, h) \<and> nodes h = flat f None 0 v"
proof -
  let ?s = "start_state (before f None 0 v)"
  have "facing f json v [] [] [] ?s" by (simp add: facing_def start_state_def json seeking_def ends_number_def)
  then have "lands f json v [] [] ?s" using reads_printable [OF v] unfolding reads_def by blast
  then obtain c h where y: "yields f json ?s (c, h)" and e: "landed c" "ptr c = length json" "top_value c = Some 0" "nodes h = flat f None 0 v"
    by (auto simp: lands_def start_state_def json)
  let ?c = "c\<lparr>flag_need_comma := True, flag_done := True\<rparr>"
  have "value_done f (c, h) = Continue (?c, h)" using e by (simp add: value_done_def flat.simps)
  with y have "(json_next f json)\<^sup>*\<^sup>* ?s (?c, h)"
    unfolding yields_def json_next_def by (auto intro: rtranclp.rtrancl_into_rtrancl)
  moreover have "json_step f (\<lambda>_. True) json (?c, h) = Pass_End (?c, h)"
    using e by (simp add: json_step_eq char_at_def landed_def value_step_def)
  ultimately show ?thesis using pass_reaches [OF _ _ run] e by blast
qed

lemma skip_bom_none: "hd json \<noteq> CHR 0xEF \<Longrightarrow> skip_bom json = json"
  by (cases json) (auto simp: skip_bom_def)

lemma text_no_bom: "printable v \<Longrightarrow> skip_bom (json_text v) = json_text v"
proof (rule skip_bom_none)
  have "hd (show_nat k) \<noteq> CHR 0xEF" for k using show_nat_digits [of "hd (show_nat k)" k] by (auto simp: is_digit_def)
  then show "printable v \<Longrightarrow> hd (json_text v) \<noteq> CHR 0xEF" by (cases v) (auto simp: json_quote_def show_int_def)
qed

text \<open>
  C31: A value that is written as JSON text is read back as it was, if it holds no doubles, its strings no NUL, its lengths and
  integers are within the parser's limits and memory does not run out.
\<close>

theorem json_text_parses:
  assumes v: "printable v" and grants: "\<forall>n. grants n"
  shows "json_parse grants (json_text v) = Some (Inr (Some v))"
proof -
  have g: "grants = (\<lambda>_. True)" using grants by auto
  let ?json = "json_text v" and ?fuel = "loop_fuel (json_text v)"
  obtain r1 where r1: "json_pass ?fuel True (\<lambda>_. True) ?json (start_state []) = Some r1"
    using first_pass_total [OF start_ok first_pass_fuel] by blast
  with text_pass [OF v refl, of ?fuel True r1] obtain c1 h1 where first: "r1 = Pass_End (c1, h1)" "nodes h1 = flat True None 0 v"
    by (auto simp: before_def)
  from second_pass_ends [of ?fuel "\<lambda>_. True" ?json "(c1, h1)"] r1 first
  obtain r2 where r2: "json_pass ?fuel False (\<lambda>_. True) ?json (start_state (flat True None 0 v)) = Some r2"
    by (auto simp: ended_def outcome_def)
  with text_pass [OF v refl, of ?fuel False r2] obtain c2 h2 where second: "r2 = Pass_End (c2, h2)" "nodes h2 = flat False None 0 v"
    by (auto simp: before_def)
  have "node_value (length (nodes h2)) (nodes h2) 0 = v"
    using node_value_flat [OF v, of "vsize v" "[]" None "[]"] second by (simp add: length_flat)
  then show ?thesis
    using r1 r2 first second text_no_bom [OF v] by (simp add: json_parse_def json_parse_ex_def Let_def g)
qed

lemma json_text_parses_witness:
  "json_parse (\<lambda>_. True) (json_text (JObject [(''a'', JArray [JInteger (- 7), JNull, JBoolean 1]), (''b'', JString [CHR 0x22])]))
    = Some (Inr (Some (JObject [(''a'', JArray [JInteger (- 7), JNull, JBoolean 1]), (''b'', JString [CHR 0x22])])))"
  by (rule json_text_parses) (simp_all add: plain_def uint_max_def)

text \<open>In particular any string, with its quotes and backslashes escaped.\<close>

corollary quoted_string_parses:
  assumes "CHR 0x00 \<notin> set s" "length s \<le> uint_max" "\<forall>n. grants n"
  shows "json_parse grants (json_quote s) = Some (Inr (Some (JString s)))"
  using json_text_parses [of "JString s" grants] assms by (simp add: plain_def)

end
