(* ===== verification/Json_Free.thy ===== *)
theory Json_Free
  imports Json_Second
begin

text \<open>
  The values of an accepted text form a tree, and releasing it gives back every block once, children before parents. The
  parser as a whole, with the release a failure of the second pass ends in.
\<close>

section \<open>The tree as nodes\<close>

definition kids :: "jnode \<Rightarrow> nat list" where
  "kids v = (if n_type v \<in> {t_object, t_array} then n_items v else [])"

definition own_blocks :: "nat \<Rightarrow> jnode \<Rightarrow> block list" where
  "own_blocks i v = (if n_type v \<in> {t_object, t_array, t_string} \<and> 0 < cap_length v then [Parts i] else []) @ [Value i]"

text \<open>The order of release: the items of a value, last first, its parts, itself.\<close>

function post_order :: "jnode list \<Rightarrow> nat \<Rightarrow> block list" where
  "post_order ns i = concat (map (post_order ns) (filter (\<lambda>c. i < c \<and> c < length ns) (rev (kids (ns ! i))))) @ own_blocks i (ns ! i)"
  by auto
termination by (relation "measure (\<lambda>(ns, i). length ns - i)") auto

declare post_order.simps [simp del]

text \<open>The first \<open>n\<close> values: items are children, each once, counted, in their room, and younger.\<close>

definition sound_at :: "jnode list \<Rightarrow> nat \<Rightarrow> nat \<Rightarrow> bool" where
  "sound_at ns n i \<longleftrightarrow> distinct (kids (ns ! i))
     \<and> (\<forall>c \<in> set (kids (ns ! i)). i < c \<and> c < n \<and> n_parent (ns ! c) = Some i)
     \<and> (n_type (ns ! i) \<in> {t_object, t_array} \<longrightarrow> u_length (ns ! i) = length (n_items (ns ! i)) \<and> u_length (ns ! i) \<le> cap_length (ns ! i))
     \<and> (n_type (ns ! i) = t_object \<longrightarrow> cap_length (ns ! i) = 0 \<longrightarrow> u_names (ns ! i) = 0)
     \<and> (\<forall>p. n_parent (ns ! i) = Some p \<longrightarrow> p < i)"

definition sound :: "jnode list \<Rightarrow> nat \<Rightarrow> bool" where
  "sound ns n \<longleftrightarrow> n \<le> length ns \<and> (\<forall>i < n. sound_at ns n i)"

lemma soundD: "sound ns n \<Longrightarrow> i < n \<Longrightarrow> sound_at ns n i"
  by (simp add: sound_def)

lemma tree_sound:
  assumes "tree_ok (c, h)"
  shows "sound (nodes h) (next_value h)"
proof -
  let ?ns = "nodes h" and ?n = "next_value h"
  from assms have n: "?n \<le> length ?ns" by (simp add: tree_ok_def tree_def)
  have "sound_at ?ns ?n i" if i: "i < ?n" for i
  proof -
    from assms i obtain t ps where filled: "\<And>p. p < ?n \<Longrightarrow> filled (skel False ?ns) ?n (t # ps) p"
      by (auto simp: tree_ok_def tree_def split: option.splits)
    from assms i n have old: "\<And>j. j < ?n \<Longrightarrow> older (skel False ?ns) j" and "sized (core_of False (?ns ! i))"
      by (auto simp: tree_ok_def tree_def)
    then have sized: "n_type (?ns ! i) \<in> {t_object, t_array} \<longrightarrow> u_length (?ns ! i) = length (n_items (?ns ! i)) \<and> u_length (?ns ! i) \<le> cap_length (?ns ! i)"
      "n_type (?ns ! i) = t_object \<longrightarrow> cap_length (?ns ! i) = 0 \<longrightarrow> u_names (?ns ! i) = 0"
      by (auto simp: sized_def core_of_def)
    have parent: "p < j" if "j < ?n" "n_parent (?ns ! j) = Some p" for j p
      using old [OF that(1)] that n by (simp add: older_def core_of_def)
    from filled [OF i] i n have items: "distinct (n_items (?ns ! i))"
      "set (n_items (?ns ! i)) \<subseteq> {j. j < ?n \<and> parent_of (skel False ?ns ! j) = Some i}"
      by (auto simp: filled_def core_of_def)
    then have "j < ?n \<and> n_parent (?ns ! j) = Some i" if "j \<in> set (n_items (?ns ! i))" for j
      using that n by (force simp: core_of_def)
    with items(1) sized parent i show ?thesis by (auto simp: sound_at_def kids_def)
  qed
  with n show ?thesis by (simp add: sound_def)
qed

lemma post_order_sound:
  assumes "sound ns n" "i < n"
  shows "post_order ns i = concat (map (post_order ns) (rev (kids (ns ! i)))) @ own_blocks i (ns ! i)"
proof -
  from assms have n: "n \<le> length ns" and at: "sound_at ns n i" by (simp_all add: sound_def)
  have "i < c \<and> c < length ns" if "c \<in> set (kids (ns ! i))" for c
  proof -
    from at that have "i < c \<and> c < n" unfolding sound_at_def by blast
    with n show ?thesis by simp
  qed
  then have "filter (\<lambda>c. i < c \<and> c < length ns) (rev (kids (ns ! i))) = rev (kids (ns ! i))" by simp
  then show ?thesis by (simp add: post_order.simps [of ns i])
qed

text \<open>The values under a value.\<close>

inductive under :: "jnode list \<Rightarrow> nat \<Rightarrow> nat \<Rightarrow> bool" for ns c where
  itself: "under ns c c"
| child: "under ns c q \<Longrightarrow> n_parent (ns ! j) = Some q \<Longrightarrow> q < j \<Longrightarrow> under ns c j"

inductive_cases underE: "under ns c j"

lemma under_le: "under ns c j \<Longrightarrow> c \<le> j"
  by (induction rule: under.induct) auto

lemma under_trans: "under ns b j \<Longrightarrow> under ns a b \<Longrightarrow> under ns a j"
  by (induction rule: under.induct) (auto intro: under.child)

lemma under_siblings:
  "under ns a j \<Longrightarrow> under ns b j \<Longrightarrow> n_parent (ns ! a) = Some i \<Longrightarrow> n_parent (ns ! b) = Some i \<Longrightarrow> i < a \<Longrightarrow> i < b \<Longrightarrow> a = b"
proof (induction rule: under.induct)
  case itself
  from underE [OF itself(1)] consider "a = b" | q where "under ns b q" "n_parent (ns ! a) = Some q" by metis
  then show ?case
  proof cases
    case 2
    with itself under_le [of ns b q] show ?thesis by simp
  qed
next
  case (child q j)
  from underE [OF child.prems(1)] consider "j = b" | q' where "under ns b q'" "n_parent (ns ! j) = Some q'" by metis
  then show ?case
  proof cases
    case 1
    with child under_le [of ns a q] show ?thesis by simp
  next
    case 2
    with child show ?thesis by simp
  qed
qed

definition block_of :: "block \<Rightarrow> nat" where
  "block_of b = (case b of Value i \<Rightarrow> i | Parts i \<Rightarrow> i)"

lemma own_blocks_of: "b \<in> set (own_blocks i v) \<Longrightarrow> block_of b = i"
  by (auto simp: own_blocks_def block_of_def split: if_splits)

lemma kid_props:
  assumes "sound ns n" "i < n" "c \<in> set (kids (ns ! i))"
  shows "i < c" "c < n" "n_parent (ns ! c) = Some i" "under ns i c"
proof -
  from assms(1,2) have "sound_at ns n i" by (simp add: sound_def)
  with assms(3) show c: "i < c" "c < n" "n_parent (ns ! c) = Some i" unfolding sound_at_def by blast+
  then show "under ns i c" by (blast intro: under.intros)
qed

lemma post_order_under:
  "sound ns n \<Longrightarrow> i < n \<Longrightarrow> b \<in> set (post_order ns i) \<Longrightarrow> under ns i (block_of b) \<and> block_of b < n"
proof (induction "n - i" arbitrary: i rule: less_induct)
  case less
  note sound = \<open>sound ns n\<close> and i = \<open>i < n\<close>
  from less.prems(3) consider "b \<in> set (own_blocks i (ns ! i))" | c where "c \<in> set (kids (ns ! i))" "b \<in> set (post_order ns c)"
    by (auto simp: post_order_sound [OF sound i])
  then show ?case
  proof cases
    case 1
    with own_blocks_of i show ?thesis by (auto intro: under.itself)
  next
    case 2
    note kid = kid_props [OF sound i 2(1)]
    with less.hyps [of c] 2(2) sound i under_trans show ?thesis by (metis diff_less_mono2)
  qed
qed

section \<open>A visit\<close>

definition value_count :: "jnode list \<Rightarrow> nat \<Rightarrow> nat" where
  "value_count ns i = length (filter (\<lambda>b. b = Value (block_of b)) (post_order ns i))"

lemma value_count_sound:
  assumes "sound ns n" "i < n"
  shows "value_count ns i = Suc (\<Sum>c \<leftarrow> kids (ns ! i). value_count ns c)"
proof -
  have "filter (\<lambda>b. b = Value (block_of b)) (own_blocks i v) = [Value i]" for v
    by (auto simp: own_blocks_def block_of_def)
  moreover have "length (filter P (concat xss)) = (\<Sum>xs \<leftarrow> xss. length (filter P xs))" for P and xss :: "block list list"
    by (induction xss) simp_all
  ultimately show ?thesis
    by (simp add: value_count_def post_order_sound [OF assms] rev_map [symmetric] sum_list_rev comp_def)
qed

text \<open>What has to be untouched when the loop enters a value, and what it leaves.\<close>

definition intact :: "jnode list \<Rightarrow> nat \<Rightarrow> jnode list \<Rightarrow> block list \<Rightarrow> nat \<Rightarrow> bool" where
  "intact ns n ns' freed i \<longleftrightarrow> (\<forall>j < n. under ns i j \<longrightarrow> ns' ! j = ns ! j \<and> Value j \<notin> set freed \<and> Parts j \<notin> set freed)"

definition visits :: "jnode list \<Rightarrow> nat \<Rightarrow> nat \<Rightarrow> bool" where
  "visits ns n i \<longleftrightarrow> (\<forall>ns' freed. length ns' = length ns \<longrightarrow> intact ns n ns' freed i \<longrightarrow>
     (\<exists>ns2. length ns2 = length ns \<and> (\<forall>j. \<not> under ns i j \<longrightarrow> ns2 ! j = ns' ! j)
       \<and> (\<forall>k. free_loop (k + (2 * value_count ns i - 1)) (Some i) (ns', freed)
              = free_loop k (n_parent (ns ! i)) (ns2, freed @ post_order ns i))))"

lemma visit_kids:
  assumes sound: "sound ns n" and i: "i < n" and kids: "\<And>c. c \<in> set (kids (ns ! i)) \<Longrightarrow> visits ns n c"
    and container: "n_type (ns ! i) \<in> {t_object, t_array}"
  shows "l \<le> length (kids (ns ! i)) \<Longrightarrow> length ns' = length ns \<Longrightarrow> ns' ! i = (ns ! i)\<lparr>u_length := l\<rparr> \<Longrightarrow>
    Value i \<notin> set freed \<Longrightarrow> Parts i \<notin> set freed \<Longrightarrow> (\<And>c. c \<in> set (take l (kids (ns ! i))) \<Longrightarrow> intact ns n ns' freed c) \<Longrightarrow>
    \<exists>ns2. length ns2 = length ns \<and> ns2 ! i = (ns ! i)\<lparr>u_length := 0\<rparr> \<and> (\<forall>j. \<not> under ns i j \<longrightarrow> ns2 ! j = ns' ! j)
      \<and> (\<forall>k. free_loop (k + 2 * (\<Sum>c \<leftarrow> take l (kids (ns ! i)). value_count ns c)) (Some i) (ns', freed)
           = free_loop k (Some i) (ns2, freed @ concat (map (post_order ns) (rev (take l (kids (ns ! i)))))))"
proof (induction l arbitrary: ns' freed)
  case 0
  then show ?case by (intro exI [of _ ns']) simp
next
  case (Suc l)
  let ?ks = "kids (ns ! i)"
  let ?c = "?ks ! l"
  have l: "l < length ?ks" "?c \<in> set ?ks" using Suc.prems(1) by simp_all
  note kid = kid_props [OF sound i l(2)]
  have tk: "take (Suc l) ?ks = take l ?ks @ [?c]" using l(1) by (rule take_Suc_conv_app_nth)
  from sound i have at: "sound_at ns n i" and n: "n \<le> length ns" by (simp_all add: sound_def)
  with container have dist: "distinct ?ks" "?ks = n_items (ns ! i)" "length ?ks \<le> cap_length (ns ! i)"
    by (auto simp: sound_at_def kids_def)
  let ?ns1 = "ns'[i := (ns ! i)\<lparr>u_length := l\<rparr>]"
  have stepped: "free_step i (ns', freed) = Inr (Some ?c, ?ns1, freed)"
    using Suc.prems(2-5) container dist(2,3) l(1) i n by (auto simp: free_step_def Let_def)
  have other: "?ns1 ! j = ns' ! j" if "under ns d j" "d \<in> set ?ks" for d j
    using kid_props(1) [OF sound i that(2)] under_le [OF that(1)] by simp
  have "intact ns n ?ns1 freed ?c"
    using Suc.prems(6) [of ?c] other [of ?c] l(2) by (simp add: tk intact_def)
  with kids [OF l(2)] Suc.prems(2) obtain ns3 where ns3: "length ns3 = length ns" "\<And>j. \<not> under ns ?c j \<Longrightarrow> ns3 ! j = ?ns1 ! j"
    "\<And>k. free_loop (k + (2 * value_count ns ?c - 1)) (Some ?c) (?ns1, freed) = free_loop k (Some i) (ns3, freed @ post_order ns ?c)"
    unfolding visits_def kid(3) by (metis length_list_update)
  have count: "0 < value_count ns ?c" using value_count_sound [OF sound kid(2)] by simp
  have not_i: "\<not> under ns ?c i" using under_le [of ns ?c i] kid(1) by auto
  have clean: "b \<notin> set (post_order ns ?c)" if "\<not> under ns ?c (block_of b)" for b
    using that post_order_under [OF sound kid(2)] by blast
  have "\<exists>ns2. length ns2 = length ns \<and> ns2 ! i = (ns ! i)\<lparr>u_length := 0\<rparr> \<and> (\<forall>j. \<not> under ns i j \<longrightarrow> ns2 ! j = ns3 ! j)
      \<and> (\<forall>k. free_loop (k + 2 * (\<Sum>c \<leftarrow> take l ?ks. value_count ns c)) (Some i) (ns3, freed @ post_order ns ?c)
           = free_loop k (Some i) (ns2, (freed @ post_order ns ?c) @ concat (map (post_order ns) (rev (take l ?ks)))))"
  proof (rule Suc.IH)
    show "ns3 ! i = (ns ! i)\<lparr>u_length := l\<rparr>" using ns3(2) [OF not_i] Suc.prems(2) i n by simp
    show "Value i \<notin> set (freed @ post_order ns ?c)" "Parts i \<notin> set (freed @ post_order ns ?c)"
      using Suc.prems(4,5) clean [of "Value i"] clean [of "Parts i"] not_i by (simp_all add: block_of_def)
    fix d assume d: "d \<in> set (take l ?ks)"
    then have dk: "d \<in> set ?ks" by (rule in_set_takeD)
    have "d \<noteq> ?c" using d dist(1) l(1) by (auto simp: in_set_conv_nth nth_eq_iff_index_eq)
    then have apart: "\<not> under ns ?c j" if "under ns d j" for j
      using under_siblings [OF that, of ?c i] kid kid_props [OF sound i dk] by blast
    show "intact ns n ns3 (freed @ post_order ns ?c) d"
      unfolding intact_def
    proof (intro allI impI)
      fix j assume jn: "j < n" and j: "under ns d j"
      from Suc.prems(6) [of d] d j jn have "ns' ! j = ns ! j" "Value j \<notin> set freed" "Parts j \<notin> set freed"
        by (simp_all add: tk intact_def)
      with ns3(2) [OF apart [OF j]] other [OF j dk] clean [of "Value j"] clean [of "Parts j"] apart [OF j]
      show "ns3 ! j = ns ! j \<and> Value j \<notin> set (freed @ post_order ns ?c) \<and> Parts j \<notin> set (freed @ post_order ns ?c)"
        by (simp add: block_of_def)
    qed
  qed (use l ns3(1) in simp_all)
  then obtain ns2 where ns2: "length ns2 = length ns" "ns2 ! i = (ns ! i)\<lparr>u_length := 0\<rparr>"
    "\<And>j. \<not> under ns i j \<Longrightarrow> ns2 ! j = ns3 ! j"
    "\<And>k. free_loop (k + 2 * (\<Sum>c \<leftarrow> take l ?ks. value_count ns c)) (Some i) (ns3, freed @ post_order ns ?c)
       = free_loop k (Some i) (ns2, (freed @ post_order ns ?c) @ concat (map (post_order ns) (rev (take l ?ks))))"
    by blast
  have "free_loop (k + 2 * (\<Sum>c \<leftarrow> take (Suc l) ?ks. value_count ns c)) (Some i) (ns', freed)
      = free_loop k (Some i) (ns2, freed @ concat (map (post_order ns) (rev (take (Suc l) ?ks))))" for k
  proof -
    let ?k = "k + 2 * (\<Sum>c \<leftarrow> take l ?ks. value_count ns c)"
    have "k + 2 * (\<Sum>c \<leftarrow> take (Suc l) ?ks. value_count ns c) = Suc (?k + (2 * value_count ns ?c - 1))"
      using count by (simp add: tk)
    then have "free_loop (k + 2 * (\<Sum>c \<leftarrow> take (Suc l) ?ks. value_count ns c)) (Some i) (ns', freed)
        = free_loop (?k + (2 * value_count ns ?c - 1)) (Some ?c) (?ns1, freed)"
      by (simp only: free_loop.simps stepped sum.case prod.case)
    with ns3(3) ns2(4) show ?thesis by (simp add: tk)
  qed
  moreover have "ns2 ! j = ns' ! j" if "\<not> under ns i j" for j
  proof -
    from that have "\<not> under ns ?c j" "j \<noteq> i" using under_trans kid(4) under.itself by blast+
    with ns2(3) [OF that] ns3(2) show ?thesis by simp
  qed
  ultimately show ?case using ns2(1,2) by blast
qed

lemma visit:
  assumes sound: "sound ns n"
  shows "i < n \<Longrightarrow> visits ns n i"
proof (induction "n - i" arbitrary: i rule: less_induct)
  case less
  note i = \<open>i < n\<close>
  let ?v = "ns ! i"
  let ?ks = "kids ?v"
  from sound i have at: "sound_at ns n i" and n: "n \<le> length ns" by (simp_all add: sound_def)
  have kids: "visits ns n c" if "c \<in> set ?ks" for c
    using kid_props [OF sound i that] less.hyps [of c] i by simp
  show ?case
    unfolding visits_def
  proof (intro allI impI)
    fix ns' freed assume len: "length ns' = length ns" and intact: "intact ns n ns' freed i"
    from intact have here: "ns' ! i = ?v" "Value i \<notin> set freed" "Parts i \<notin> set freed"
      using i by (simp_all add: intact_def under.itself)
    note count = value_count_sound [OF sound i]
    have parts: "free_parts i w fr = Inr (fr @ (if 0 < cap_length ?v then [Parts i] else []))"
      if "w = ?v \<or> w = ?v\<lparr>u_length := 0\<rparr>" "Parts i \<notin> set fr" for w fr
      using at that by (auto simp: free_parts_def mem_free_def sound_at_def)
    show "\<exists>ns2. length ns2 = length ns \<and> (\<forall>j. \<not> under ns i j \<longrightarrow> ns2 ! j = ns' ! j)
        \<and> (\<forall>k. free_loop (k + (2 * value_count ns i - 1)) (Some i) (ns', freed) = free_loop k (n_parent ?v) (ns2, freed @ post_order ns i))"
    proof (cases "n_type ?v \<in> {t_object, t_array}")
      case True
      have "length ?ks = u_length ?v" using True at by (auto simp: sound_at_def kids_def)
      then have v: "?v\<lparr>u_length := length ?ks\<rparr> = ?v" by simp
      have sub: "intact ns n ns' freed c" if "c \<in> set (take (length ?ks) ?ks)" for c
        using that intact kid_props(4) [OF sound i, of c] under_trans by (auto simp: intact_def)
      from visit_kids [OF sound i kids True order.refl len _ here(2,3) sub] here(1) v obtain ns2 where
        ns2: "length ns2 = length ns" "ns2 ! i = ?v\<lparr>u_length := 0\<rparr>" "\<And>j. \<not> under ns i j \<Longrightarrow> ns2 ! j = ns' ! j"
        "\<And>k. free_loop (k + 2 * (\<Sum>c \<leftarrow> ?ks. value_count ns c)) (Some i) (ns', freed)
          = free_loop k (Some i) (ns2, freed @ concat (map (post_order ns) (rev ?ks)))"
        by auto
      have clean: "b \<notin> set (concat (map (post_order ns) (rev ?ks)))" if b: "block_of b = i" for b
      proof
        assume "b \<in> set (concat (map (post_order ns) (rev ?ks)))"
        then obtain c where c: "c \<in> set ?ks" "b \<in> set (post_order ns c)" by auto
        with kid_props [OF sound i c(1)] post_order_under [OF sound, of c b] b under_le [of ns c i] show False by simp
      qed
      let ?fr = "freed @ concat (map (post_order ns) (rev ?ks))"
      have not_in: "Value i \<notin> set ?fr" "Parts i \<notin> set ?fr"
        using here(2,3) clean [of "Value i"] clean [of "Parts i"] by (simp_all add: block_of_def)
      have last: "free_step i (ns2, ?fr) = Inr (n_parent ?v, ns2, ?fr @ own_blocks i ?v)"
        using not_in ns2(1,2) i n True parts [of "?v\<lparr>u_length := 0\<rparr>" ?fr]
        by (simp add: free_step_def mem_free_def own_blocks_def Let_def)
      have "free_loop (k + (2 * value_count ns i - 1)) (Some i) (ns', freed) = free_loop k (n_parent ?v) (ns2, freed @ post_order ns i)" for k
      proof -
        have "k + (2 * value_count ns i - 1) = Suc k + 2 * (\<Sum>c \<leftarrow> ?ks. value_count ns c)" by (simp add: count)
        then have "free_loop (k + (2 * value_count ns i - 1)) (Some i) (ns', freed) = free_loop (Suc k) (Some i) (ns2, ?fr)"
          by (simp only: ns2(4))
        also have "\<dots> = free_loop k (n_parent ?v) (ns2, ?fr @ own_blocks i ?v)"
          by (simp only: free_loop.simps last sum.case prod.case)
        finally show ?thesis by (simp add: post_order_sound [OF sound i])
      qed
      with ns2 show ?thesis by blast
    next
      case False
      then have leaf: "?ks = []" by (simp add: kids_def)
      have "free_step i (ns', freed) = Inr (n_parent ?v, ns', freed @ own_blocks i ?v)"
        using here len i n False parts [of ?v freed] by (auto simp: free_step_def mem_free_def own_blocks_def Let_def)
      then have "free_loop (k + (2 * value_count ns i - 1)) (Some i) (ns', freed) = free_loop k (n_parent ?v) (ns', freed @ post_order ns i)" for k
        by (simp add: count leaf post_order_sound [OF sound i])
      with len show ?thesis by blast
    qed
  qed
qed

section \<open>The release of a tree\<close>

lemma distinct_concat_map:
  "distinct ks \<Longrightarrow> (\<And>c. c \<in> set ks \<Longrightarrow> distinct (f c)) \<Longrightarrow>
   (\<And>c d b. c \<in> set ks \<Longrightarrow> d \<in> set ks \<Longrightarrow> b \<in> set (f c) \<Longrightarrow> b \<in> set (f d) \<Longrightarrow> c = d) \<Longrightarrow> distinct (concat (map f ks))"
proof (induction ks)
  case (Cons k ks)
  have "set (f k) \<inter> set (concat (map f ks)) = {}"
    using Cons.prems(1) Cons.prems(3) [of k] by auto
  moreover have "distinct (concat (map f ks))"
    using Cons.prems by (intro Cons.IH) auto
  ultimately show ?case using Cons.prems(2) [of k] by simp
qed simp

lemma post_order_distinct:
  assumes sound: "sound ns n"
  shows "i < n \<Longrightarrow> distinct (post_order ns i)"
proof (induction "n - i" arbitrary: i rule: less_induct)
  case less
  note i = \<open>i < n\<close> and kid = kid_props [OF sound \<open>i < n\<close>]
  let ?ks = "kids (ns ! i)"
  from soundD [OF sound i] have "distinct ?ks" unfolding sound_at_def by blast
  moreover have "distinct (post_order ns c)" if "c \<in> set ?ks" for c
    using kid [OF that] less.hyps [of c] i by simp
  moreover have "c = d" if c: "c \<in> set ?ks" "b \<in> set (post_order ns c)" and d: "d \<in> set ?ks" "b \<in> set (post_order ns d)" for b c d
  proof (rule under_siblings)
    show "under ns c (block_of b)" "under ns d (block_of b)"
      using post_order_under [OF sound _ c(2)] post_order_under [OF sound _ d(2)] kid(2) [OF c(1)] kid(2) [OF d(1)] by simp_all
  qed (use kid [OF c(1)] kid [OF d(1)] in simp_all)
  ultimately have "distinct (concat (map (post_order ns) (rev ?ks)))" by (intro distinct_concat_map) auto
  moreover have "distinct (own_blocks i (ns ! i))" by (simp add: own_blocks_def)
  moreover have "b \<notin> set (own_blocks i (ns ! i))" if "c \<in> set ?ks" "b \<in> set (post_order ns c)" for b c
    using kid [OF that(1)] post_order_under [OF sound _ that(2)] under_le [of ns c "block_of b"] own_blocks_of [of b i "ns ! i"] by fastforce
  ultimately show ?case by (auto simp: post_order_sound [OF sound i])
qed

lemma value_count_le:
  assumes "sound ns n" "i < n"
  shows "value_count ns i \<le> n"
proof -
  let ?vs = "filter (\<lambda>b. b = Value (block_of b)) (post_order ns i)"
  have "set ?vs \<subseteq> Value ` {..<n}"
  proof
    fix b assume "b \<in> set ?vs"
    with post_order_under [OF assms, of b] have "b = Value (block_of b)" "block_of b < n" by auto
    then show "b \<in> Value ` {..<n}" by blast
  qed
  then have "card (set ?vs) \<le> card (Value ` {..<n})" by (intro card_mono) auto
  also have "\<dots> \<le> n" using card_image_le [of "{..<n}" Value] by simp
  finally have "card (set ?vs) \<le> n" .
  moreover have "length ?vs = card (set ?vs)" using post_order_distinct [OF assms] by (simp only: distinct_card distinct_filter)
  ultimately show ?thesis unfolding value_count_def by simp
qed

lemma release_root:
  assumes sound: "sound ns n" and n: "0 < n" and fr: "\<And>b. b \<in> set fr \<Longrightarrow> n \<le> block_of b"
  shows "json_object_free_ex ns (Some 0) fr = Some (Inr (fr @ post_order ns 0))"
proof -
  from sound n have len: "n \<le> length ns" "sound_at ns n 0" by (simp_all add: sound_def)
  then have root: "n_parent (ns ! 0) = None" by (cases "n_parent (ns ! 0)") (auto simp: sound_at_def)
  then have "(ns ! 0)\<lparr>n_parent := None\<rparr> = ns ! 0" by (cases "ns ! 0") simp
  then have same: "ns[0 := (ns ! 0)\<lparr>n_parent := None\<rparr>] = ns" by simp
  have "intact ns n ns fr 0"
    using fr [of "Value _"] fr [of "Parts _"] by (force simp: intact_def block_of_def)
  with visit [OF sound n] obtain ns2 where
    "\<And>k. free_loop (k + (2 * value_count ns 0 - 1)) (Some 0) (ns, fr) = free_loop k (n_parent (ns ! 0)) (ns2, fr @ post_order ns 0)"
    unfolding visits_def by blast
  from this [of "2 * length ns - (2 * value_count ns 0 - 1)"] value_count_le [OF sound n] len(1)
  show ?thesis by (simp add: json_object_free_ex_def same root)
qed

text \<open>The blocks of some values.\<close>

definition blocks_of :: "jnode list \<Rightarrow> block set" where
  "blocks_of ns = (\<Union>i < length ns. set (own_blocks i (ns ! i)))"

lemma post_order_covers:
  assumes sound: "sound ns n" and linked: "\<And>i p. i < n \<Longrightarrow> n_parent (ns ! i) = Some p \<Longrightarrow> i \<in> set (kids (ns ! p))"
    and roots: "\<And>i. i < n \<Longrightarrow> n_parent (ns ! i) = None \<Longrightarrow> i = 0"
  shows "j < n \<Longrightarrow> set (post_order ns j) \<subseteq> set (post_order ns 0)"
proof (induction j rule: less_induct)
  case (less j)
  show ?case
  proof (cases "n_parent (ns ! j)")
    case None
    with roots less.prems have "j = 0" by blast
    then show ?thesis by simp
  next
    case (Some p)
    from soundD [OF sound less.prems] Some have p: "p < j" unfolding sound_at_def by blast
    with less.prems have "p < n" by simp
    with linked [OF less.prems Some] have "set (post_order ns j) \<subseteq> set (post_order ns p)"
      by (auto simp: post_order_sound [OF sound, of p])
    with less.IH [OF p] \<open>p < n\<close> show ?thesis by blast
  qed
qed

lemma post_order_own:
  assumes sound: "sound ns n"
  shows "i < n \<Longrightarrow> b \<in> set (post_order ns i) \<Longrightarrow> \<exists>j < n. b \<in> set (own_blocks j (ns ! j))"
proof (induction "n - i" arbitrary: i rule: less_induct)
  case less
  note i = \<open>i < n\<close>
  from less.prems(2) consider "b \<in> set (own_blocks i (ns ! i))" | c where "c \<in> set (kids (ns ! i))" "b \<in> set (post_order ns c)"
    by (auto simp: post_order_sound [OF sound i])
  then show ?case
  proof cases
    case 2
    from kid_props(1,2) [OF sound i 2(1)] have "n - c < n - i" "c < n" by simp_all
    with less.hyps [of c] 2(2) show ?thesis by blast
  qed (use i in blast)
qed

section \<open>The tree of an accepted text\<close>

lemma first_pass_end:
  "pass_ok json s ps \<Longrightarrow> json_pass fuel True grants json s = Some (Pass_End e) \<Longrightarrow> \<exists>qs. pass_ok json e qs \<and> flag_done (fst e)"
proof (induction fuel arbitrary: s ps)
  case (Suc fuel)
  show ?case
  proof (cases "json_step True grants json s")
    case (Continue s')
    with json_step_first [OF Suc.prems(1), of grants] obtain ps' where "pass_ok json s' ps'" by auto
    with Suc.IH Suc.prems(2) Continue show ?thesis by simp
  next
    case (Pass_End s')
    with Suc.prems json_step_first [OF Suc.prems(1), of grants] show ?thesis by auto
  qed (use Suc.prems in simp_all)
qed simp

lemma parsed_filled:
  assumes first: "json_pass fuel True grants json (start_state []) = Some (Pass_End e)"
    and sim: "sim (nodes (snd e)) e h2" and tree: "tree_ok (clear_num (fst e), h2)"
  shows "next_value h2 = length (nodes h2) \<and> 0 < length (nodes h2)
    \<and> (\<forall>i < length (nodes h2). older (skel False (nodes h2)) i \<and> sized (core_of False (nodes h2 ! i))
         \<and> distinct (n_items (nodes h2 ! i)) \<and> set (n_items (nodes h2 ! i)) = {j. j < length (nodes h2) \<and> n_parent (nodes h2 ! j) = Some i})"
proof -
  obtain c1 h1 where e: "e = (c1, h1)" by (cases e)
  from first_pass_end [OF start_ok first] obtain qs where "pass_ok json e qs" "flag_done c1" by (auto simp: e)
  then obtain t where t: "top_value c1 = Some t" "t < length (nodes h1)" "n_parent (nodes h1 ! t) = None"
    by (auto simp: e pass_ok_def mode_ok_def split: option.splits)
  from sim have n: "next_value h2 = length (nodes h2)" "length (nodes h2) = length (nodes h1)" by (auto simp: sim_def e)
  have root: "n_parent (nodes h2 ! t) = None" using sim t by (auto simp: sim_def node_sim_def e)
  from tree t(1) n(1) obtain ps where ps: "path (skel False (nodes h2)) t ps"
    "\<And>p. p < length (nodes h2) \<Longrightarrow> filled (skel False (nodes h2)) (length (nodes h2)) (t # ps) p"
    and all: "\<And>j. j < length (nodes h2) \<Longrightarrow> older (skel False (nodes h2)) j \<and> sized (core_of False (nodes h2 ! j))"
    by (auto simp: tree_ok_def tree_def e)
  from ps(1) root t(2) n(2) have "ps = []" by (cases ps) (auto simp: core_of_def)
  have "distinct (n_items (nodes h2 ! i)) \<and> set (n_items (nodes h2 ! i)) = {j. j < length (nodes h2) \<and> n_parent (nodes h2 ! j) = Some i}"
    if i: "i < length (nodes h2)" for i
  proof -
    have "{j. j < length (nodes h2) \<and> parent_of (skel False (nodes h2) ! j) = Some i \<and> j \<notin> set [t]}
        = {j. j < length (nodes h2) \<and> n_parent (nodes h2 ! j) = Some i}"
      using root by (auto simp: core_of_def)
    with ps(2) [OF i] \<open>ps = []\<close> i show ?thesis by (simp add: filled_def core_of_def)
  qed
  with all n t show ?thesis by auto
qed

lemma second_pass_result:
  assumes first: "json_pass fuel True grants json (start_state []) = Some (Pass_End (c1, h1))"
    and second: "json_pass fuel False grants json (start_state (nodes h1)) = Some (Pass_End (c2, h2))"
  shows "sim (nodes h1) (c1, h1) h2 \<and> tree_ok (clear_num c1, h2)"
  using second_pass_ends [OF first] second by (auto simp: ended_def outcome_def)

lemma parsed_sound:
  assumes first: "json_pass fuel True grants json (start_state []) = Some (Pass_End (c1, h1))"
    and second: "json_pass fuel False grants json (start_state (nodes h1)) = Some (Pass_End (c2, h2))"
  shows "sound (nodes h2) (length (nodes h2))" "0 < length (nodes h2)"
    and "\<And>i p. i < length (nodes h2) \<Longrightarrow> n_parent (nodes h2 ! i) = Some p \<Longrightarrow> i \<in> set (kids (nodes h2 ! p))"
    and "\<And>i. i < length (nodes h2) \<Longrightarrow> n_parent (nodes h2 ! i) = None \<Longrightarrow> i = 0"
proof -
  note result = second_pass_result [OF first second]
  with parsed_filled [OF first, of h2] have created: "next_value h2 = length (nodes h2)" "0 < length (nodes h2)"
    and filled: "\<And>i. i < length (nodes h2) \<Longrightarrow> older (skel False (nodes h2)) i
      \<and> set (n_items (nodes h2 ! i)) = {j. j < length (nodes h2) \<and> n_parent (nodes h2 ! j) = Some i}"
    by auto
  show "sound (nodes h2) (length (nodes h2))" using tree_sound result created(1) by metis
  show "0 < length (nodes h2)" by (rule created(2))
  fix i assume i: "i < length (nodes h2)"
  {
    fix p assume p: "n_parent (nodes h2 ! i) = Some p"
    with i have "parent_of (skel False (nodes h2) ! i) = Some p" by (simp add: core_of_def)
    with filled [OF i] have pi: "p < i" "count_of (skel False (nodes h2) ! p) \<noteq> None" by (simp_all add: older_def del: skel_nth)
    with i have pn: "p < length (nodes h2)" by simp
    from pi(2) pn have "n_type (nodes h2 ! p) \<in> {t_object, t_array}" by (simp add: core_of_def split: if_splits)
    with filled [OF pn] i p show "i \<in> set (kids (nodes h2 ! p))" by (auto simp: kids_def)
  }
  assume "n_parent (nodes h2 ! i) = None"
  with filled [OF i] i show "i = 0" by (simp add: older_def core_of_def)
qed

section \<open>Denied parts\<close>

text \<open>The second pass fails at a value when its parts are denied. The root is freed with a null pointer to items it counts.\<close>

lemma denied_root:
  assumes tree: "tree_ok (c, h)" and denied: "parts_denied grants F (c, h)" and root: "next_value h = 0"
  shows "second_pass_failed e_alloc_failure (c, h)
    = Some (if n_type (F ! 0) \<in> {t_object, t_array} then Inl Null_Deref else Inr (map Value [1..<length (nodes h)] @ [Value 0]))"
proof -
  let ?v = "nodes h ! 0"
  from denied root have len: "0 < length (nodes h)" "?v = F ! 0" "allocate_parts grants ?v = None"
    by (auto simp: parts_denied_def Let_def)
  from tree root len(1) have cap: "cap_length ?v = 0" by (auto simp: tree_ok_def tree_def core_of_def)
  from len(1) obtain m where m: "2 * length (nodes h) = Suc (Suc m)" by (metis Suc_double_not_eq_double Suc_pred mult_2 add_Suc_right less_numeral_extra(3) not0_implies_Suc add_Suc)
  let ?w = "?v\<lparr>n_parent := None\<rparr>"
  have "free_step 0 ((nodes h)[0 := ?w], map Value [1..<length (nodes h)]) =
    (if n_type ?v \<in> {t_object, t_array} then Inl Null_Deref
     else Inr (None, (nodes h)[0 := ?w], map Value [1..<length (nodes h)] @ [Value 0]))"
    using len cap by (auto simp: free_step_def free_parts_def mem_free_def allocate_parts_def Let_def split: jtype.splits if_splits)
  then show ?thesis
    using len(2) by (simp add: second_pass_failed_def json_object_free_ex_def root m)
qed

lemma denied_inside:
  assumes tree: "tree_ok (c, h)" and k: "0 < next_value h"
  shows "second_pass_failed e_alloc_failure (c, h) = Some (Inr (map Value [Suc (next_value h)..<length (nodes h)] @ post_order (nodes h) 0))"
proof -
  have "json_object_free_ex (nodes h) (Some 0) (map Value [Suc (next_value h)..<length (nodes h)])
      = Some (Inr (map Value [Suc (next_value h)..<length (nodes h)] @ post_order (nodes h) 0))"
    by (rule release_root [OF tree_sound [OF tree] k]) (auto simp: block_of_def)
  then show ?thesis by (simp add: second_pass_failed_def)
qed

section \<open>The properties\<close>

definition root_denied :: "(nat \<Rightarrow> bool) \<Rightarrow> string \<Rightarrow> bool" where
  "root_denied grants json0 =
     (let json = skip_bom json0
      in case json_pass (loop_fuel json) True grants json (start_state []) of
           Some (Pass_End (c1, h1)) \<Rightarrow>
             n_type (nodes h1 ! 0) \<in> {t_object, t_array} \<and> allocate_parts grants (nodes h1 ! 0) = None
         | _ \<Rightarrow> False)"


text \<open>
  C26: What the parser returns is a tree. After the second pass the first value, and no other, is without a parent; a
  parent is an older array or object; the items of a value are its children, each once, and an array or object has as many
  as the first pass counted.
\<close>

theorem parsed_values_form_tree:
  assumes first: "json_pass fuel True grants json (start_state []) = Some (Pass_End (c1, h1))"
    and second: "json_pass fuel False grants json (start_state (nodes h1)) = Some (Pass_End (c2, h2))"
    and i: "i < length (nodes h2)"
  shows "(n_parent (nodes h2 ! i) = None \<longleftrightarrow> i = 0)
    \<and> (case n_parent (nodes h2 ! i) of None \<Rightarrow> True | Some p \<Rightarrow> p < i \<and> n_type (nodes h2 ! p) \<in> {t_object, t_array})
    \<and> distinct (n_items (nodes h2 ! i))
    \<and> set (n_items (nodes h2 ! i)) = {j. j < length (nodes h2) \<and> n_parent (nodes h2 ! j) = Some i}
    \<and> length (n_items (nodes h2 ! i)) = (if n_type (nodes h2 ! i) \<in> {t_object, t_array} then u_length (nodes h1 ! i) else 0)"
proof -
  note result = second_pass_result [OF first second]
  with parsed_filled [OF first, of h2] i have filled: "sized (core_of False (nodes h2 ! i))" "distinct (n_items (nodes h2 ! i))"
    "set (n_items (nodes h2 ! i)) = {j. j < length (nodes h2) \<and> n_parent (nodes h2 ! j) = Some i}" by auto
  from soundD [OF parsed_sound(1) [OF first second] i] have young: "\<And>p. n_parent (nodes h2 ! i) = Some p \<Longrightarrow> p < i"
    unfolding sound_at_def by blast
  have parent: "n_type (nodes h2 ! p) \<in> {t_object, t_array}" if "n_parent (nodes h2 ! i) = Some p" for p
    using parsed_sound(3) [OF first second i that] by (auto simp: kids_def split: if_splits)
  have "n_parent (nodes h2 ! i) = None \<longleftrightarrow> i = 0"
    using young parsed_sound(4) [OF first second i] by (cases "n_parent (nodes h2 ! i)") auto
  moreover have "length (n_items (nodes h2 ! i)) = (if n_type (nodes h2 ! i) \<in> {t_object, t_array} then u_length (nodes h1 ! i) else 0)"
  proof -
    have "node_sim (nodes h1 ! i) (nodes h2 ! i) (nodes h1 ! i)" using result i by (auto simp: sim_def)
    with filled(1) show ?thesis by (auto simp: sized_def core_of_def node_sim_def split: if_splits)
  qed
  ultimately show ?thesis using filled young parent by (auto split: option.split)
qed

text \<open>
  C28: The release of a parsed value refines the recursive one: it ends, within two iterations for each value, and
  gives back the blocks in the order a recursion over the tree would: the items of a value, last first, then its parts, then itself.
\<close>

theorem release_refines_recursion:
  assumes first: "json_pass fuel True grants json (start_state []) = Some (Pass_End (c1, h1))"
    and second: "json_pass fuel False grants json (start_state (nodes h1)) = Some (Pass_End (c2, h2))"
  shows "json_object_free (nodes h2) (Some 0) = Some (Inr (post_order (nodes h2) 0))"
  using release_root [OF parsed_sound(1,2) [OF first second], of "[]"] by (simp add: json_object_free_def)

text \<open>
  C27: Releasing a parsed value gives back all that the parser allocated: every value and the parts of every value, each
  exactly once, without touching a block that was given back.
\<close>

theorem release_gives_back_all:
  assumes first: "json_pass fuel True grants json (start_state []) = Some (Pass_End (c1, h1))"
    and second: "json_pass fuel False grants json (start_state (nodes h1)) = Some (Pass_End (c2, h2))"
  shows "\<exists>freed. json_object_free (nodes h2) (Some 0) = Some (Inr freed) \<and> distinct freed \<and> set freed = blocks_of (nodes h2)"
proof -
  note sound = parsed_sound [OF first second]
  have "set (post_order (nodes h2) 0) = blocks_of (nodes h2)"
  proof
    show "blocks_of (nodes h2) \<subseteq> set (post_order (nodes h2) 0)"
    proof
      fix b assume "b \<in> blocks_of (nodes h2)"
      then obtain j where j: "j < length (nodes h2)" "b \<in> set (own_blocks j (nodes h2 ! j))" by (auto simp: blocks_of_def)
      then have "b \<in> set (post_order (nodes h2) j)" by (simp add: post_order_sound [OF sound(1)])
      with post_order_covers [OF sound(1,3,4) j(1)] show "b \<in> set (post_order (nodes h2) 0)" by blast
    qed
    show "set (post_order (nodes h2) 0) \<subseteq> blocks_of (nodes h2)"
      using post_order_own [OF sound(1,2)] by (auto simp: blocks_of_def)
  qed
  moreover have "json_object_free (nodes h2) (Some 0) = Some (Inr (post_order (nodes h2) 0))"
    using release_root [OF sound(1,2), of "[]"] by (simp add: json_object_free_def)
  ultimately show ?thesis using post_order_distinct [OF sound(1,2)] by blast
qed


section \<open>Examples\<close>

lemma stop_state_numeral:
  "stop_state (numeral k) first_pass grants json s = (case json_step first_pass grants json s of
     Continue s' \<Rightarrow> stop_state (pred_numeral k) first_pass grants json s' | r \<Rightarrow> s)"
  by (simp add: numeral_eq_Suc)

lemma free_loop_numeral:
  "free_loop (numeral k) (Some i) m = (case free_step i m of Inl e \<Rightarrow> Some (Inl e) | Inr (value, m') \<Rightarrow> free_loop (pred_numeral k) value m')"
  by (simp add: numeral_eq_Suc)

lemmas list_steps = json_pass_numeral stop_state_numeral json_step_def start_state_def value_step_def seek_step_def is_blank_def
  with_new_def new_value_def allocate_parts_def value_done_def advance_def set_node_def uint_max_def new_node_def Let_def
  SIZEOF_POINTER_def SIZEOF_JSON_OBJECT_def

text \<open>A list with an empty list in it.\<close>

lemma nested_list:
  obtains c1 h1 c2 h2 where "json_pass 8 True (\<lambda>_. True) ''[[]]'' (start_state []) = Some (Pass_End (c1, h1))"
    "json_pass 8 False (\<lambda>_. True) ''[[]]'' (start_state (nodes h1)) = Some (Pass_End (c2, h2))"
    "nodes h2 = [(new_node t_array None)\<lparr>u_length := 1, cap_length := 1, n_items := [1]\<rparr>, new_node t_array (Some 0)]"
    "map u_length (nodes h1) = [1, 0]"
  by (simp add: list_steps)

lemma parsed_values_form_tree_witness:
  "\<exists>c1 h1 c2 h2. json_pass 8 True (\<lambda>_. True) ''[[]]'' (start_state []) = Some (Pass_End (c1, h1))
    \<and> json_pass 8 False (\<lambda>_. True) ''[[]]'' (start_state (nodes h1)) = Some (Pass_End (c2, h2))
    \<and> 1 < length (nodes h2) \<and> n_parent (nodes h2 ! 1) \<noteq> None \<and> distinct (n_items (nodes h2 ! 1))"
proof -
  obtain c1 h1 c2 h2 where passes: "json_pass 8 True (\<lambda>_. True) ''[[]]'' (start_state []) = Some (Pass_End (c1, h1))"
    "json_pass 8 False (\<lambda>_. True) ''[[]]'' (start_state (nodes h1)) = Some (Pass_End (c2, h2))" "1 < length (nodes h2)"
    using nested_list by (metis One_nat_def length_Cons lessI list.size(3))
  from parsed_values_form_tree [OF this] passes show ?thesis by auto
qed

lemma release_refines_recursion_witness:
  "\<exists>c1 h1 c2 h2. json_pass 8 True (\<lambda>_. True) ''[[]]'' (start_state []) = Some (Pass_End (c1, h1))
    \<and> json_pass 8 False (\<lambda>_. True) ''[[]]'' (start_state (nodes h1)) = Some (Pass_End (c2, h2))
    \<and> json_object_free (nodes h2) (Some 0) = Some (Inr [Value 1, Parts 0, Value 0])"
proof -
  obtain c1 h1 c2 h2 where passes: "json_pass 8 True (\<lambda>_. True) ''[[]]'' (start_state []) = Some (Pass_End (c1, h1))"
    "json_pass 8 False (\<lambda>_. True) ''[[]]'' (start_state (nodes h1)) = Some (Pass_End (c2, h2))"
    and h2: "nodes h2 = [(new_node t_array None)\<lparr>u_length := 1, cap_length := 1, n_items := [1]\<rparr>, new_node t_array (Some 0)]"
    by (rule nested_list)
  have "post_order (nodes h2) 0 = [Value 1, Parts 0, Value 0]"
    by (simp add: h2 post_order.simps [of _ 0] post_order.simps [of _ 1] post_order.simps [of _ "Suc 0"] kids_def own_blocks_def new_node_def)
  with release_refines_recursion [OF passes] passes show ?thesis by auto
qed

lemma release_gives_back_all_witness:
  "\<exists>c1 h1 c2 h2 freed. json_pass 8 True (\<lambda>_. True) ''[[]]'' (start_state []) = Some (Pass_End (c1, h1))
    \<and> json_pass 8 False (\<lambda>_. True) ''[[]]'' (start_state (nodes h1)) = Some (Pass_End (c2, h2))
    \<and> json_object_free (nodes h2) (Some 0) = Some (Inr freed) \<and> distinct freed"
proof -
  obtain c1 h1 c2 h2 where passes: "json_pass 8 True (\<lambda>_. True) ''[[]]'' (start_state []) = Some (Pass_End (c1, h1))"
    "json_pass 8 False (\<lambda>_. True) ''[[]]'' (start_state (nodes h1)) = Some (Pass_End (c2, h2))"
    by (rule nested_list)
  from release_gives_back_all [OF this] passes show ?thesis by blast
qed


text \<open>The outermost list of which the array of items is denied.\<close>

lemma denied_root_faults: "json_parse (\<lambda>n. n \<noteq> 8) ''[[]]'' = Some (Inl Null_Deref)"
proof -
  have "skip_bom ''[[]]'' = ''[[]]''" "loop_fuel ''[[]]'' = 16" by (simp_all add: skip_bom_def loop_fuel_def)
  then show ?thesis
    by (simp add: json_parse_def json_parse_ex_def list_steps second_pass_failed_def json_object_free_ex_def
        free_loop_numeral free_step_def)
qed

end
