(* ===== verification/Group_Box.thy ===== *)
theory Group_Box
  imports Win_Prelude
begin

unbundle bit_operations_syntax

text \<open>
  The group box with a check box in its title (checkablegroupbox.c), as the server details use it for the
  settings of the overtls tunnel: ticking it enables the controls it encloses. The dialog is the children of the
  parent window in their order, the group box one of them; widths of texts in the font are a parameter.
\<close>

section \<open>State\<close>

type_synonym box_rect = "int \<times> int \<times> int \<times> int"

record control =
  c_rect :: box_rect
  c_enabled :: bool

text \<open>
  \<open>g_data\<close> is the block with the handle of the check box, \<open>None\<close> when it is missing or freed; \<open>g_check\<close>
  is the state of the check box, \<open>g_notified\<close> the clicks the parent was told of.
\<close>

record dialog =
  children :: "control list"
  g_self :: nat
  g_data :: "unit option"
  g_check :: int
  g_box_enabled :: bool
  g_box_rect :: box_rect
  g_box_focused :: bool
  g_box_title :: wstr
  g_style :: "32 word"
  g_title :: wstr
  g_notified :: nat

definition ID_CHECKBOX :: nat where "ID_CHECKBOX = 0xFFFE"
definition LEFT_OFFSET :: int where "LEFT_OFFSET = 12"
definition CHECKBOX_SIZE :: int where "CHECKBOX_SIZE = 16"

section \<open>The controls inside\<close>

text \<open>\<open>IntersectRect\<close>\<close>

definition IntersectRect :: "box_rect \<Rightarrow> box_rect \<Rightarrow> bool" where
  "IntersectRect r1 r2 \<longleftrightarrow>
     (case r1 of (l1, t1, right1, b1) \<Rightarrow> case r2 of (l2, t2, right2, b2) \<Rightarrow>
        max l1 l2 < min right1 right2 \<and> max t1 t2 < min b1 b2)"

text \<open>The walk over the children from the \<open>i\<close>-th on.\<close>

fun EnableControls_from :: "box_rect \<Rightarrow> nat \<Rightarrow> bool \<Rightarrow> nat \<Rightarrow> control list \<Rightarrow> control list" where
  "EnableControls_from rGroup self bActivate i [] = []"
| "EnableControls_from rGroup self bActivate i (c # cs) =
     (if i = self then c
      else if IntersectRect rGroup (c_rect c) then c\<lparr>c_enabled := bActivate\<rparr>
      else c) # EnableControls_from rGroup self bActivate (i + 1) cs"

definition EnableControls :: "bool \<Rightarrow> dialog \<Rightarrow> dialog" where
  "EnableControls bActivate d =
     d\<lparr>children := EnableControls_from (c_rect (children d ! g_self d)) (g_self d) bActivate 0 (children d)\<rparr>"

text \<open>A two-state check box: its state is 0 or 1, and any other value asked for ticks it.\<close>

definition GetCheck :: "dialog \<Rightarrow> int res" where
  "GetCheck d = (case g_data d of None \<Rightarrow> Inl Null_Deref | Some _ \<Rightarrow> Inr (g_check d))"

definition SetCheck :: "int \<Rightarrow> dialog \<Rightarrow> dialog res" where
  "SetCheck nCheck d =
     (case g_data d of
        None \<Rightarrow> Inl Null_Deref
      | Some _ \<Rightarrow> Inr (EnableControls (if nCheck = 0 then False else True) (d\<lparr>g_check := (if nCheck = 0 then 0 else 1)\<rparr>)))"

definition OnClicked :: "dialog \<Rightarrow> dialog res" where
  "OnClicked d = bindr (GetCheck d) (\<lambda>c. let d1 = EnableControls (c \<noteq> 0) d in Inr (d1\<lparr>g_notified := g_notified d1 + 1\<rparr>))"

definition OnEnable :: "bool \<Rightarrow> dialog \<Rightarrow> dialog res" where
  "OnEnable bEnable d =
     (case g_data d of
        None \<Rightarrow> Inl Null_Deref
      | Some _ \<Rightarrow>
          let d1 = d\<lparr>g_box_enabled := bEnable\<rparr>
          in if bEnable then bindr (GetCheck d1) (\<lambda>c. Inr (EnableControls (c \<noteq> 0) d1))
             else Inr (EnableControls False d1))"

datatype box_message = BOX_COMMAND nat bool | BM_GETCHECK | BM_SETCHECK int | BOX_ENABLE bool | BOX_SETFOCUS
  | BOX_NCDESTROY | BOX_OTHER

text \<open>\<open>BOX_COMMAND\<close> carries the identifier and whether the window it names is the check box.\<close>

definition CheckableGroupBoxProc :: "box_message \<Rightarrow> dialog \<Rightarrow> (int \<times> dialog) res" where
  "CheckableGroupBoxProc msg d =
     (case msg of
        BOX_COMMAND chkBoxID from_box \<Rightarrow>
          if chkBoxID = ID_CHECKBOX
          then (case g_data d of
                  None \<Rightarrow> Inl Null_Deref
                | Some _ \<Rightarrow> if from_box then bindr (OnClicked d) (\<lambda>d1. Inr (0, d1)) else Inl Assert_Failed)
          else Inr (0, d)
      | BM_GETCHECK \<Rightarrow> bindr (GetCheck d) (\<lambda>c. Inr (c, d))
      | BM_SETCHECK wParam \<Rightarrow> bindr (SetCheck wParam d) (\<lambda>d1. Inr (0, d1))
      | BOX_ENABLE wParam \<Rightarrow> bindr (OnEnable wParam d) (\<lambda>d1. Inr (0, d1))
      | BOX_SETFOCUS \<Rightarrow> (case g_data d of None \<Rightarrow> Inl Null_Deref | Some _ \<Rightarrow> Inr (0, d\<lparr>g_box_focused := True\<rparr>))
      | BOX_NCDESTROY \<Rightarrow> Inr (0, d\<lparr>g_data := None\<rparr>)
      | BOX_OTHER \<Rightarrow> Inr (0, d))"

section \<open>The title\<close>

text \<open>
  The title becomes as many blanks as cover the old one and the check box; \<open>cx\<close> is the width of the blanks so far.
  The buffer has 256 characters and the assertion stops at its end.
\<close>

definition space :: wchar where
  "space = 0x20"

function pad_title :: "(wstr \<Rightarrow> int) \<Rightarrow> int \<Rightarrow> nat \<Rightarrow> int \<Rightarrow> wstr res" where
  "pad_title extent nTarget count cx =
     (if cx < nTarget
      then (if count + 1 < 256
            then pad_title extent nTarget (count + 1) (extent (replicate (count + 1) space))
            else Inl Assert_Failed)
      else Inr (replicate count space))"
  by pat_completeness auto

termination
  by (relation "measure (\<lambda>(extent, nTarget, count, cx). 256 - count)") auto

declare pad_title.simps [simp del]

definition MoveTitle :: "(wstr \<Rightarrow> int) \<Rightarrow> dialog \<Rightarrow> (int \<times> dialog) res" where
  "MoveTitle extent d =
     (let strOldTitle = lstrcpyn 256 (g_title d); cx = extent strOldTitle; nRet = cx; nTarget = cx + CHECKBOX_SIZE + 10
      in bindr (pad_title extent nTarget 0 cx) (\<lambda>strNewTitle. Inr (nRet, d\<lparr>g_title := strNewTitle\<rparr>)))"

section \<open>Making a group box checkable\<close>

definition ModifyStyle :: "32 word \<Rightarrow> 32 word \<Rightarrow> 32 word \<Rightarrow> bool \<times> 32 word" where
  "ModifyStyle dwRemove dwAdd dwStyle =
     (let dwNewStyle = (dwStyle AND NOT dwRemove) OR dwAdd
      in if dwStyle = dwNewStyle then (False, dwStyle) else (True, dwNewStyle))"

definition BS_GROUPBOX :: "32 word" where "BS_GROUPBOX = 7"
definition BS_ICON :: "32 word" where "BS_ICON = 0x40"
definition WS_TABSTOP_OR_GROUP :: "32 word" where "WS_TABSTOP_OR_GROUP = 0x00010000 OR 0x00020000"

definition towlower_ascii :: "wchar \<Rightarrow> wchar" where
  "towlower_ascii c = (if 0x41 \<le> c \<and> c \<le> 0x5A then c + 0x20 else c)"

text \<open>
  The class name, the client origin of the group box on the screen, and whether the check box and its
  data could be created are arguments. The check box is visible, enabled and not ticked.
\<close>

definition SubclassWindow :: "(wstr \<Rightarrow> int) \<Rightarrow> wstr \<Rightarrow> int \<times> int \<Rightarrow> bool \<Rightarrow> bool \<Rightarrow> dialog \<Rightarrow> (bool \<times> dialog) res" where
  "SubclassWindow extent szClassName origin create_ok calloc_ok d =
     (if \<not> g_self d < length (children d) then Inl Assert_Failed
      else if map towlower_ascii szClassName \<noteq> map towlower_ascii (L ''Button'') \<or> g_style d AND BS_GROUPBOX \<noteq> BS_GROUPBOX
      then Inl Assert_Failed
      else
        let d1 = d\<lparr>g_style := snd (ModifyStyle 0 (BS_ICON OR WS_TABSTOP_OR_GROUP) (g_style d))\<rparr>;
            strTitle = lstrcpyn MAX_PATH (g_title d1)
        in bindr (MoveTitle extent d1) (\<lambda>(nWidth, d2).
           (case c_rect (children d2 ! g_self d2) of (wleft, wtop, wright, wbottom) \<Rightarrow>
              let left = wleft - fst origin + LEFT_OFFSET; upper = wtop - snd origin;
                  r = (left, upper, left + CHECKBOX_SIZE + nWidth + 5, upper + CHECKBOX_SIZE)
              in if \<not> create_ok \<or> \<not> calloc_ok then Inl Assert_Failed
                 else Inr (True, d2\<lparr>g_box_rect := r, g_box_title := strTitle, g_check := 0, g_box_enabled := True,
                                   g_box_focused := False, g_data := Some ()\<rparr>))))"

section \<open>What the user does\<close>

text \<open>
  A click reaches the check box when it and its group box are enabled; it toggles the check box before the
  group box hears of it. \<open>EnableWindow\<close> sends a message only when the state changes.
\<close>

datatype box_event = Click | Enable_Group bool | Focus_Group | Ask_Check

definition group_enabled :: "dialog \<Rightarrow> bool" where
  "group_enabled d = c_enabled (children d ! g_self d)"

definition box_event_step :: "box_event \<Rightarrow> dialog \<Rightarrow> dialog res" where
  "box_event_step e d =
     (case e of
        Click \<Rightarrow>
          if group_enabled d \<and> g_box_enabled d
          then bindr (CheckableGroupBoxProc (BOX_COMMAND ID_CHECKBOX True) (d\<lparr>g_check := 1 - g_check d\<rparr>)) (\<lambda>(r, d1). Inr d1)
          else Inr d
      | Enable_Group b \<Rightarrow>
          if group_enabled d = b then Inr d
          else bindr (CheckableGroupBoxProc (BOX_ENABLE b)
                 (d\<lparr>children := (children d)[g_self d := (children d ! g_self d)\<lparr>c_enabled := b\<rparr>]\<rparr>)) (\<lambda>(r, d1). Inr d1)
      | Focus_Group \<Rightarrow> bindr (CheckableGroupBoxProc BOX_SETFOCUS d) (\<lambda>(r, d1). Inr d1)
      | Ask_Check \<Rightarrow> bindr (CheckableGroupBoxProc BM_GETCHECK d) (\<lambda>(r, d1). Inr d1))"

definition box_step :: "dialog res \<Rightarrow> box_event \<Rightarrow> dialog res" where
  "box_step r e = bindr r (box_event_step e)"

section \<open>The walk over the children\<close>

lemma length_EnableControls_from [simp]: "length (EnableControls_from r self b i cs) = length cs"
  by (induction cs arbitrary: i) simp_all

lemma nth_EnableControls_from:
  "j < length cs \<Longrightarrow> EnableControls_from r self b i cs ! j =
     (if i + j = self \<or> \<not> IntersectRect r (c_rect (cs ! j)) then cs ! j else (cs ! j)\<lparr>c_enabled := b\<rparr>)"
proof (induction cs arbitrary: i j)
  case (Cons c cs)
  then show ?case by (cases j) auto
qed simp

text \<open>
  Inside and outside are fixed by the rectangles: after \<open>EnableControls\<close> the enclosed controls are
  enabled as asked, the others as in \<open>cs\<close>.
\<close>

definition synced :: "control list \<Rightarrow> dialog \<Rightarrow> bool" where
  "synced cs d \<longleftrightarrow> g_data d = Some () \<and> g_self d < length (children d) \<and> length (children d) = length cs
     \<and> map c_rect (children d) = map c_rect cs \<and> g_check d \<in> {0, 1} \<and> g_box_enabled d = group_enabled d
     \<and> (\<forall>i < length cs. i \<noteq> g_self d \<longrightarrow>
          c_enabled (children d ! i) = (if IntersectRect (c_rect (cs ! g_self d)) (c_rect (cs ! i)) then group_enabled d \<and> g_check d = 1
                                        else c_enabled (cs ! i)))"

lemma EnableControls_simps [simp]:
  "g_data (EnableControls b d) = g_data d"
  "g_self (EnableControls b d) = g_self d"
  "g_check (EnableControls b d) = g_check d"
  "g_box_enabled (EnableControls b d) = g_box_enabled d"
  "length (children (EnableControls b d)) = length (children d)"
  by (simp_all add: EnableControls_def)

lemma EnableControls_nth:
  "j < length (children d) \<Longrightarrow> children (EnableControls b d) ! j =
     (if j = g_self d \<or> \<not> IntersectRect (c_rect (children d ! g_self d)) (c_rect (children d ! j)) then children d ! j
      else (children d ! j)\<lparr>c_enabled := b\<rparr>)"
  by (simp add: EnableControls_def nth_EnableControls_from)

lemma map_EnableControls: "map c_rect (children (EnableControls b d)) = map c_rect (children d)"
  by (rule nth_equalityI) (auto simp: EnableControls_nth)

lemma rect_nth: "map c_rect xs = map c_rect ys \<Longrightarrow> i < length xs \<Longrightarrow> c_rect (xs ! i) = c_rect (ys ! i)"
  by (metis length_map nth_map)

lemma synced_EnableControls:
  assumes "g_data d = Some ()" "g_self d < length (children d)" "map c_rect (children d) = map c_rect cs" "g_check d \<in> {0, 1}"
    and "g_box_enabled d = group_enabled d" "b = (group_enabled d \<and> g_check d = 1)"
    and outside: "\<And>i. i < length cs \<Longrightarrow> i \<noteq> g_self d \<Longrightarrow> \<not> IntersectRect (c_rect (cs ! g_self d)) (c_rect (cs ! i))
          \<Longrightarrow> c_enabled (children d ! i) = c_enabled (cs ! i)"
  shows "synced cs (EnableControls b d)"
proof -
  from assms(3) have len: "length (children d) = length cs" by (metis length_map)
  have self: "group_enabled (EnableControls b d) = group_enabled d"
    using assms(2) by (simp add: group_enabled_def EnableControls_nth)
  have "c_enabled (children (EnableControls b d) ! i) = (if IntersectRect (c_rect (cs ! g_self d)) (c_rect (cs ! i))
      then group_enabled d \<and> g_check d = 1 else c_enabled (cs ! i))" if "i < length cs" "i \<noteq> g_self d" for i
    using that outside [OF that] assms(2,6) rect_nth [OF assms(3)] len by (simp add: EnableControls_nth)
  with assms(1-5) len self show ?thesis by (simp add: synced_def map_EnableControls)
qed

lemma synced_other [simp]:
  "synced cs (d\<lparr>g_notified := n\<rparr>) = synced cs d"
  "synced cs (d\<lparr>g_box_focused := f\<rparr>) = synced cs d"
  by (simp_all add: synced_def group_enabled_def)

lemma synced_step:
  assumes "synced cs d"
  shows "\<exists>d1. box_event_step e d = Inr d1 \<and> synced cs d1 \<and> g_self d1 = g_self d"
proof (cases e)
  case Click
  show ?thesis
  proof (cases "group_enabled d \<and> g_box_enabled d")
    case True
    let ?d = "d\<lparr>g_check := 1 - g_check d\<rparr>"
    have "synced cs (EnableControls (g_check ?d \<noteq> 0) ?d)"
      using assms True by (intro synced_EnableControls) (auto simp: synced_def group_enabled_def)
    moreover from assms have "g_data d = Some ()" by (simp add: synced_def)
    then have "box_event_step e d = Inr ((EnableControls (g_check ?d \<noteq> 0) ?d)\<lparr>g_notified := g_notified (EnableControls (g_check ?d \<noteq> 0) ?d) + 1\<rparr>)"
      using Click True by (simp add: box_event_step_def CheckableGroupBoxProc_def OnClicked_def GetCheck_def Let_def)
    ultimately show ?thesis by simp
  qed (use Click assms in \<open>auto simp: box_event_step_def\<close>)
next
  case (Enable_Group b)
  show ?thesis
  proof (cases "group_enabled d = b")
    case False
    let ?cs = "(children d)[g_self d := (children d ! g_self d)\<lparr>c_enabled := b\<rparr>]"
    let ?d = "d\<lparr>children := ?cs, g_box_enabled := b\<rparr>"
    have rects: "map c_rect ?cs = map c_rect cs"
      using assms by (simp add: synced_def map_update) (metis list_update_id map_update)
    have "synced cs (EnableControls (b \<and> g_check d \<noteq> 0) ?d)"
      using assms rects False by (intro synced_EnableControls) (auto simp: synced_def group_enabled_def)
    moreover have "box_event_step e d = Inr (EnableControls (b \<and> g_check d \<noteq> 0) ?d)"
      using assms False Enable_Group
      by (simp add: box_event_step_def CheckableGroupBoxProc_def OnEnable_def GetCheck_def synced_def Let_def)
    ultimately show ?thesis by auto
  qed (use Enable_Group assms in \<open>auto simp: box_event_step_def\<close>)
next
  case Focus_Group
  with assms show ?thesis by (auto simp: box_event_step_def CheckableGroupBoxProc_def synced_def group_enabled_def)
next
  case Ask_Check
  with assms show ?thesis by (auto simp: box_event_step_def CheckableGroupBoxProc_def GetCheck_def synced_def)
qed

interpretation box_run: event_machine box_step "\<lambda>r. \<exists>d. r = Inr d \<and> synced cs d \<and> g_self d = self" for cs self
proof
  fix r :: "dialog res" and e
  assume "\<exists>d. r = Inr d \<and> synced cs d \<and> g_self d = self"
  then show "\<exists>d. box_step r e = Inr d \<and> synced cs d \<and> g_self d = self" using synced_step by (fastforce simp: box_step_def)
qed

definition demo_dialog :: dialog where
  "demo_dialog = \<lparr>children = [\<lparr>c_rect = (10, 100, 300, 200), c_enabled = True\<rparr>, \<lparr>c_rect = (20, 120, 290, 140), c_enabled = True\<rparr>,
       \<lparr>c_rect = (10, 10, 300, 40), c_enabled = True\<rparr>],
     g_self = 0, g_data = Some (), g_check = 0, g_box_enabled = True, g_box_rect = (12, 0, 100, 16), g_box_focused = False,
     g_box_title = L ''TLS'', g_style = 7, g_title = L ''TLS'', g_notified = 0\<rparr>"



text \<open>Setting the state of a disabled group box enables the controls inside all the same.\<close>

lemma set_check_ignores_disabled:
  assumes "g_data d = Some ()" "i < length (children d)" "i \<noteq> g_self d"
    and "IntersectRect (c_rect (children d ! g_self d)) (c_rect (children d ! i))"
  shows "\<exists>d1. CheckableGroupBoxProc (BM_SETCHECK 1) d = Inr (0, d1) \<and> c_enabled (children d1 ! i)"
  using assms by (simp add: CheckableGroupBoxProc_def SetCheck_def EnableControls_nth)

section \<open>The blanks\<close>

lemma pad_title_blanks:
  assumes "\<And>k. extent (replicate k space) = int k * w" "0 < w" "count \<le> 255"
    and "count = 0 \<or> cx = int count * w" "\<And>k. 0 < k \<Longrightarrow> k \<le> count \<Longrightarrow> int (k - 1) * w < target" "0 < count \<or> cx < target" "0 < target"
  shows "(\<exists>n \<le> 255. target \<le> int n * w \<and> int (n - 1) * w < target \<and> 0 < n \<and> pad_title extent target count cx = Inr (replicate n space))
    \<or> (255 * w < target \<and> pad_title extent target count cx = Inl Assert_Failed)"
  using assms
proof (induction "255 - count" arbitrary: count cx)
  case 0
  then have c: "count = 255" "cx = 255 * w" by auto
  have "int (255 - 1) * w < target" using 0(6) [of 255] c(1) by simp
  then show ?case using c by (cases "cx < target") (auto simp: pad_title.simps [of extent target 255])
next
  case (Suc m)
  show ?case
  proof (cases "cx < target")
    case True
    from Suc.hyps(2) have "count + 1 < 256" by arith
    with True have step: "pad_title extent target count cx = pad_title extent target (count + 1) (int (count + 1) * w)"
      by (simp add: pad_title.simps [of extent target count cx] Suc.prems(1) del: replicate_Suc)
    have below: "int (k - 1) * w < target" if "0 < k" "k \<le> count + 1" for k
    proof (cases "k = count + 1")
      case True
      with Suc.prems(4,7) \<open>cx < target\<close> show ?thesis
        by (cases "count = 0") (use Suc.prems(5) [of k] in auto)
    qed (use that Suc.prems(5) in auto)
    show ?thesis unfolding step
      by (rule Suc.hyps(1)) (use Suc below in auto)
  next
    case False
    then have "0 < count" using Suc.prems(6) by auto
    with False Suc.prems(3-5) show ?thesis
      by (intro disjI1 exI [of _ count]) (auto simp: pad_title.simps [of extent target count "int count * w"])
  qed
qed

text \<open>
  The title makes room for the check box and no more. In a font whose blanks are of one width the
  new title is the least number of blanks that cover the old title, the check box of 16 pixels and 10 more, and the answer is
  the width of the old title; only a title for which 255 blanks are too few stops in the assertion. The loop always ends.
\<close>

theorem title_covers_check_box:
  assumes "\<And>k. extent (replicate k space) = int k * w" "0 < w" "0 \<le> extent (lstrcpyn 256 (g_title d))"
  shows "(\<exists>n. MoveTitle extent d = Inr (extent (lstrcpyn 256 (g_title d)), d\<lparr>g_title := replicate n space\<rparr>)
      \<and> extent (lstrcpyn 256 (g_title d)) + 26 \<le> int n * w \<and> int (n - 1) * w < extent (lstrcpyn 256 (g_title d)) + 26 \<and> n \<le> 255)
    \<or> (255 * w < extent (lstrcpyn 256 (g_title d)) + 26 \<and> MoveTitle extent d = Inl Assert_Failed)"
proof -
  let ?c = "extent (lstrcpyn 256 (g_title d))"
  from pad_title_blanks [of extent w 0 ?c "?c + 26"] assms
  have "(\<exists>n \<le> 255. ?c + 26 \<le> int n * w \<and> int (n - 1) * w < ?c + 26 \<and> 0 < n \<and> pad_title extent (?c + 26) 0 ?c = Inr (replicate n space))
    \<or> (255 * w < ?c + 26 \<and> pad_title extent (?c + 26) 0 ?c = Inl Assert_Failed)" by simp
  then show ?thesis by (auto simp: MoveTitle_def CHECKBOX_SIZE_def Let_def add.assoc)
qed

theorem title_covers_check_box_witness:
  "(\<exists>n. MoveTitle (\<lambda>t. int (length t) * 4) demo_dialog = Inr (12, demo_dialog\<lparr>g_title := replicate n space\<rparr>)
      \<and> 38 \<le> int n * 4 \<and> int (n - 1) * 4 < 38 \<and> n \<le> 255)"
  using title_covers_check_box [of "\<lambda>t. int (length t) * 4" 4 demo_dialog] by (simp add: demo_dialog_def lstrcpyn_def)

end
